(* ===== verification/Prelude.thy ===== *)
theory Prelude
  imports Main "HOL-Library.AList" "HOL-Library.Multiset"
begin

text \<open>
  What the components share: Go's fixed-width integers, time and durations, maps with
  their arbitrary iteration order, sets as maps to \<open>unit\<close>, buffered channels with the
  non-blocking \<open>select\<close> forms the sources use, and the collections of facts that the
  component proofs pass to the simplifier.
\<close>

named_theorems go_simps \<open>equations of the Go primitives\<close>
named_theorems wf_intros \<open>preservation of well-formedness by the operations\<close>

section \<open>Integers, time and durations\<close>

text \<open>
  A Go \<open>int\<close> (and \<open>int64\<close>) is an \<^typ>\<open>int\<close> kept in the range of a signed 64-bit word;
  \<open>wrap64\<close> is applied after every arithmetic operation of the sources that could leave
  the range, \<open>wrap32\<close> is the conversion to \<open>int32\<close>.
\<close>

definition wrap64 :: "int \<Rightarrow> int" where
  "wrap64 x = (x + 2 ^ 63) mod 2 ^ 64 - 2 ^ 63"

definition wrap32 :: "int \<Rightarrow> int" where
  "wrap32 x = (x + 2 ^ 31) mod 2 ^ 32 - 2 ^ 31"

definition in_int64 :: "int \<Rightarrow> bool" where
  "in_int64 x \<longleftrightarrow> - (2 ^ 63) \<le> x \<and> x < 2 ^ 63"

lemma wrap64_id [simp]: "in_int64 x \<Longrightarrow> wrap64 x = x"
  by (simp add: wrap64_def in_int64_def)

lemma wrap64_range [simp]: "in_int64 (wrap64 x)"
proof -
  have "0 \<le> (x + 2 ^ 63) mod 2 ^ 64" and "(x + 2 ^ 63) mod 2 ^ 64 < 2 ^ 64"
    by simp_all
  then show ?thesis
    by (simp add: in_int64_def wrap64_def)
qed

lemma wrap64_idem [simp]: "wrap64 (wrap64 x) = wrap64 x"
  by simp

lemma wrap32_id: "- (2 ^ 31) \<le> x \<Longrightarrow> x < 2 ^ 31 \<Longrightarrow> wrap32 x = x"
  by (simp add: wrap32_def)

lemma wrap32_range: "- (2 ^ 31) \<le> wrap32 x" "wrap32 x < 2 ^ 31"
  using pos_mod_bound [of "2 ^ 32" "x + 2 ^ 31"] by (simp_all add: wrap32_def)

lemma wrap32_id_iff: "wrap32 x = x \<longleftrightarrow> - (2 ^ 31) \<le> x \<and> x < 2 ^ 31"
  using wrap32_id wrap32_range by metis

text \<open>
  A \<open>time.Time\<close> is its instant in nanoseconds since Go's zero time (January 1 of year 1,
  UTC), so \<open>IsZero\<close> is comparison with 0; a \<open>time.Duration\<close> is a number of
  nanoseconds.
\<close>

type_synonym time = int
type_synonym duration = int

definition Millisecond :: duration where "Millisecond = 1000000"
definition Second :: duration where "Second = 1000000000"
definition Minute :: duration where "Minute = 60000000000"
definition Hour :: duration where "Hour = 3600000000000"

text \<open>\<open>t.Sub(u)\<close> saturates at the range of a duration.\<close>

definition time_Sub :: "time \<Rightarrow> time \<Rightarrow> duration" where
  "time_Sub t u = max (- (2 ^ 63)) (min (2 ^ 63 - 1) (t - u))"

lemma time_Sub_exact: "in_int64 (t - u) \<Longrightarrow> time_Sub t u = t - u"
  by (simp add: time_Sub_def in_int64_def)

lemmas duration_defs = Millisecond_def Second_def Minute_def Hour_def

section \<open>Maps\<close>

text \<open>
  A Go map is an association list with distinct keys: \<^const>\<open>map_of\<close> looks a key up,
  \<^const>\<open>AList.update\<close> is \<open>m[k] = v\<close> and \<^const>\<open>AList.delete\<close> is \<open>delete(m, k)\<close>.
  A \<open>map[K]struct{}\<close> used as a set maps to \<open>unit\<close>.
\<close>

type_synonym ('k, 'v) gomap = "('k \<times> 'v) list"
type_synonym 'k goset = "('k, unit) gomap"

abbreviation mput :: "'k \<Rightarrow> 'v \<Rightarrow> ('k, 'v) gomap \<Rightarrow> ('k, 'v) gomap" where
  "mput \<equiv> AList.update"

abbreviation mdel :: "'k \<Rightarrow> ('k, 'v) gomap \<Rightarrow> ('k, 'v) gomap" where
  "mdel \<equiv> AList.delete"

definition wf_map :: "('k, 'v) gomap \<Rightarrow> bool" where
  "wf_map m \<longleftrightarrow> distinct (map fst m)"

lemma wf_map_Nil [simp, wf_intros]: "wf_map []"
  by (simp add: wf_map_def)

lemma wf_map_put [simp, wf_intros]: "wf_map m \<Longrightarrow> wf_map (mput k v m)"
  by (simp add: wf_map_def distinct_update)

lemma wf_map_del [simp, wf_intros]: "wf_map m \<Longrightarrow> wf_map (mdel k m)"
  by (simp add: wf_map_def distinct_delete)

lemma map_of_put [simp]: "map_of (mput k v m) = (map_of m)(k \<mapsto> v)"
  by (simp add: update_conv')

lemma map_of_del [simp]: "map_of (mdel k m) = (map_of m)(k := None)"
  by (simp add: delete_conv')

lemma wf_map_distinct: "wf_map m \<Longrightarrow> distinct m"
  unfolding wf_map_def by (simp add: distinct_map)

lemma wf_map_mem: "wf_map m \<Longrightarrow> (k, v) \<in> set m \<longleftrightarrow> map_of m k = Some v"
  by (simp add: wf_map_def)

lemma mem_dom_map: "k \<in> fst ` set m \<longleftrightarrow> map_of m k \<noteq> None"
  by (auto simp: map_of_eq_None_iff)

lemma wf_map_values:
  assumes "wf_map m"
  shows "v \<in> snd ` set m \<longleftrightarrow> (\<exists>k. map_of m k = Some v)"
proof -
  have "v \<in> snd ` set m \<longleftrightarrow> (\<exists>k. (k, v) \<in> set m)" by force
  then show ?thesis using assms by (simp add: wf_map_mem)
qed

lemma wf_map_ran: "wf_map m \<Longrightarrow> snd ` set m = ran (map_of m)"
  using wf_map_values [of m] by (auto simp: ran_def simp del: image_iff)

lemma set_map_filter: "set (List.map_filter f xs) = {y. \<exists>x \<in> set xs. f x = Some y}"
  by (induction xs) (auto simp: map_filter_simps split: option.splits)

text \<open>
  Ranging over a map visits its entries in an order the language leaves open. The order
  taken is an input of the model, a list of numbers that selects, one after the other,
  the entry visited next; every order arises from some such list (\<open>range_order_any\<close>).
\<close>

type_synonym order_choice = "nat list"

fun range_order :: "order_choice \<Rightarrow> 'a list \<Rightarrow> 'a list" where
  "range_order [] xs = xs"
| "range_order (n # ns) [] = []"
| "range_order (n # ns) (x # xs) =
     (let ys = x # xs; i = n mod length ys
      in ys ! i # range_order ns (take i ys @ drop (Suc i) ys))"

lemma range_order_Nil [simp]: "range_order ord [] = []"
  by (cases ord) simp_all

lemma mset_take_drop_nth:
  assumes "i < length ys"
  shows "mset ys = add_mset (ys ! i) (mset (take i ys @ drop (Suc i) ys))"
proof -
  have "mset ys = mset (take i ys @ ys ! i # drop (Suc i) ys)"
    using assms by (rule arg_cong [OF id_take_nth_drop])
  then show ?thesis by simp
qed

lemma mset_range_order [simp]: "mset (range_order ns xs) = mset xs"
proof (induction ns xs rule: range_order.induct)
  case (3 n ns x xs)
  let ?ys = "x # xs" and ?i = "n mod length (x # xs)"
  have "?i < length ?ys" by simp
  from mset_take_drop_nth [OF this] 3 show ?case
    by (simp only: range_order.simps Let_def mset.simps(2))
qed simp_all

lemma set_range_order [simp]: "set (range_order ns xs) = set xs"
  by (rule mset_eq_setD) (rule mset_range_order)

lemma length_range_order [simp]: "length (range_order ns xs) = length xs"
  by (rule mset_eq_length) (rule mset_range_order)

lemma distinct_range_order [simp]: "distinct (range_order ns xs) = distinct xs"
  by (rule mset_eq_imp_distinct_iff) (rule mset_range_order)

lemma wf_map_range_order [simp]: "wf_map (range_order ns m) = wf_map m"
proof -
  have "mset (map fst (range_order ns m)) = mset (map fst m)"
    by simp
  then show ?thesis
    unfolding wf_map_def by (rule mset_eq_imp_distinct_iff)
qed

lemma map_of_range_order:
  assumes "wf_map m"
  shows "map_of (range_order ord m) = map_of m"
proof
  fix k
  have "\<And>v. map_of (range_order ord m) k = Some v \<longleftrightarrow> map_of m k = Some v"
    using assms by (simp add: wf_map_mem [symmetric])
  then show "map_of (range_order ord m) k = map_of m k"
    by (metis not_None_eq)
qed

lemma range_order_any: "mset ys = mset xs \<Longrightarrow> \<exists>ns. range_order ns xs = ys"
proof (induction ys arbitrary: xs)
  case Nil
  then have "range_order [] xs = []" by simp
  then show ?case ..
next
  case (Cons y ys)
  then have "y \<in> set xs" by (metis list.set_intros(1) mset_eq_setD)
  then obtain i where i: "i < length xs" "xs ! i = y"
    by (auto simp: in_set_conv_nth)
  let ?rest = "take i xs @ drop (Suc i) xs"
  have "mset ys = mset ?rest"
    using Cons.prems mset_take_drop_nth [OF i(1)] i(2) by simp
  then obtain ns where ns: "range_order ns ?rest = ys"
    using Cons.IH by blast
  have "range_order (i # ns) xs = y # ys"
    using i ns by (cases xs) (simp_all add: Let_def)
  then show ?case ..
qed

section \<open>Buffered channels\<close>

text \<open>
  A buffered channel with the two non-blocking forms of \<open>select\<close>: a send in a
  \<open>select\<close> with a \<open>default\<close> branch drops the value when the buffer is full, a receive
  takes the oldest value or nothing.
\<close>

record 'a channel =
  cap :: nat
  buf :: "'a list"

definition make_chan :: "nat \<Rightarrow> 'a channel" where
  "make_chan n = \<lparr>cap = n, buf = []\<rparr>"

definition chan_ok :: "'a channel \<Rightarrow> bool" where
  "chan_ok c \<longleftrightarrow> length (buf c) \<le> cap c"

definition try_send :: "'a \<Rightarrow> 'a channel \<Rightarrow> bool \<times> 'a channel" where
  "try_send x c = (if length (buf c) < cap c then (True, c\<lparr>buf := buf c @ [x]\<rparr>) else (False, c))"

definition try_recv :: "'a channel \<Rightarrow> ('a \<times> 'a channel) option" where
  "try_recv c = (case buf c of [] \<Rightarrow> None | x # xs \<Rightarrow> Some (x, c\<lparr>buf := xs\<rparr>))"

lemma chan_ok_make [simp, wf_intros]: "chan_ok (make_chan n)"
  by (simp add: chan_ok_def make_chan_def)

lemma chan_ok_send [simp, wf_intros]: "chan_ok c \<Longrightarrow> chan_ok (snd (try_send x c))"
  by (simp add: chan_ok_def try_send_def)

lemma chan_ok_recv: "chan_ok c \<Longrightarrow> try_recv c = Some (x, c') \<Longrightarrow> chan_ok c'"
  by (auto simp: chan_ok_def try_recv_def split: list.splits)

lemma cap_send [simp]: "cap (snd (try_send x c)) = cap c"
  by (simp add: try_send_def)

end
