(* ===== verification/Heap_Array.thy ===== *)
theory Heap_Array
  imports Prelude
begin

text \<open>
  Go's \<open>container/heap\<close> on a slice, as \<open>src/internal/queue/heap.go\<close> instantiates it:
  \<open>up\<close> and \<open>down\<close> sift one element along the implicit binary tree, \<open>Push\<close> and \<open>Pop\<close>
  use them. The order is any comparator that satisfies the contract of the locale
  \<open>comparator\<close>: a strict weak order.
\<close>

section \<open>The operations\<close>

definition Swap :: "nat \<Rightarrow> nat \<Rightarrow> 'a list \<Rightarrow> 'a list" where
  "Swap i j xs = xs[i := xs ! j, j := xs ! i]"

definition parent :: "nat \<Rightarrow> nat" where
  "parent j = (j - 1) div 2"

lemma parent_less [simp]: "0 < j \<Longrightarrow> parent j < j"
  by (simp add: parent_def)

lemma parent_le: "parent j \<le> j"
  by (simp add: parent_def)

lemma parent_bound [simp]: "k < n \<Longrightarrow> parent k < n"
  by (rule le_less_trans [OF parent_le])

lemma parent_eq_self: "parent j = j \<longleftrightarrow> j = 0"
  by (simp add: parent_def) linarith

lemma parent_iff: "0 < k \<Longrightarrow> parent k = i \<longleftrightarrow> k = 2 * i + 1 \<or> k = 2 * i + 2"
  by (simp add: parent_def) linarith

function heap_up :: "('a \<Rightarrow> 'a \<Rightarrow> bool) \<Rightarrow> nat \<Rightarrow> 'a list \<Rightarrow> 'a list" where
  "heap_up cmp j xs =
     (let i = parent j
      in if i = j \<or> \<not> cmp (xs ! j) (xs ! i) then xs else heap_up cmp i (Swap i j xs))"
  by pat_completeness auto
termination
  by (relation "measure (\<lambda>(cmp, j, xs). j)") (auto simp: parent_def)

function heap_down :: "('a \<Rightarrow> 'a \<Rightarrow> bool) \<Rightarrow> nat \<Rightarrow> nat \<Rightarrow> 'a list \<Rightarrow> 'a list" where
  "heap_down cmp i n xs =
     (let j1 = 2 * i + 1
      in if j1 \<ge> n then xs
         else let j2 = j1 + 1;
                  j = (if j2 < n \<and> cmp (xs ! j2) (xs ! j1) then j2 else j1)
              in if \<not> cmp (xs ! j) (xs ! i) then xs else heap_down cmp j n (Swap i j xs))"
  by pat_completeness auto
termination
  by (relation "measure (\<lambda>(cmp, i, n, xs). n - i)") (auto split: if_splits)

declare heap_up.simps [simp del] heap_down.simps [simp del]

definition heap_Push :: "('a \<Rightarrow> 'a \<Rightarrow> bool) \<Rightarrow> 'a \<Rightarrow> 'a list \<Rightarrow> 'a list" where
  "heap_Push cmp x xs = heap_up cmp (length xs) (xs @ [x])"

text \<open>
  \<open>heap.Pop\<close> swaps the root with the last element, sifts the new root down in front of
  it and lets the slice drop its last element. It is called on non-empty slices only.
\<close>

definition heap_Pop :: "('a \<Rightarrow> 'a \<Rightarrow> bool) \<Rightarrow> 'a list \<Rightarrow> 'a \<times> 'a list" where
  "heap_Pop cmp xs =
     (let n = length xs - 1; ys = heap_down cmp 0 n (Swap 0 n xs)
      in (ys ! n, take n ys))"

section \<open>Permutation\<close>

lemma length_Swap [simp]: "length (Swap i j xs) = length xs"
  by (simp add: Swap_def)

lemma nth_Swap:
  "i < length xs \<Longrightarrow> j < length xs \<Longrightarrow> k < length xs \<Longrightarrow>
   Swap i j xs ! k = (if k = i then xs ! j else if k = j then xs ! i else xs ! k)"
  by (auto simp: Swap_def nth_list_update)

lemma mset_Swap [simp]: "i < length xs \<Longrightarrow> j < length xs \<Longrightarrow> mset (Swap i j xs) = mset xs"
  by (simp add: Swap_def mset_swap)

lemma mset_heap_up: "j < length xs \<Longrightarrow> mset (heap_up cmp j xs) = mset xs"
proof (induction cmp j xs rule: heap_up.induct)
  case (1 cmp j xs)
  have p: "parent j < length xs" using "1.prems" parent_le [of j] by linarith
  show ?case
  proof (cases "parent j = j \<or> \<not> cmp (xs ! j) (xs ! parent j)")
    case True
    then show ?thesis by (simp add: heap_up.simps [of cmp j xs] Let_def)
  next
    case False
    then have "mset (heap_up cmp (parent j) (Swap (parent j) j xs)) = mset (Swap (parent j) j xs)"
      using "1.IH" [OF refl False] p by simp
    with False p "1.prems" show ?thesis by (simp add: heap_up.simps [of cmp j xs] Let_def)
  qed
qed

text \<open>The child that \<open>down\<close> compares with.\<close>

definition min_child :: "('a \<Rightarrow> 'a \<Rightarrow> bool) \<Rightarrow> nat \<Rightarrow> nat \<Rightarrow> 'a list \<Rightarrow> nat" where
  "min_child cmp i n xs =
     (if 2 * i + 2 < n \<and> cmp (xs ! (2 * i + 2)) (xs ! (2 * i + 1)) then 2 * i + 2 else 2 * i + 1)"

lemma heap_down_unfold:
  "heap_down cmp i n xs =
     (if 2 * i + 1 \<ge> n \<or> \<not> cmp (xs ! min_child cmp i n xs) (xs ! i) then xs
      else heap_down cmp (min_child cmp i n xs) n (Swap i (min_child cmp i n xs) xs))"
  by (subst heap_down.simps) (simp add: Let_def min_child_def)

lemma min_child_bounds: "2 * i + 1 < n \<Longrightarrow> min_child cmp i n xs < n \<and> i < min_child cmp i n xs"
  by (auto simp: min_child_def)

lemma heap_down_induct [case_names stop step]:
  assumes stop: "\<And>i xs. 2 * i + 1 \<ge> n \<or> \<not> cmp (xs ! min_child cmp i n xs) (xs ! i) \<Longrightarrow> P i xs"
    and step: "\<And>i xs. 2 * i + 1 < n \<Longrightarrow> cmp (xs ! min_child cmp i n xs) (xs ! i) \<Longrightarrow>
      P (min_child cmp i n xs) (Swap i (min_child cmp i n xs) xs) \<Longrightarrow> P i xs"
  shows "P i xs"
proof (induction "n - i" arbitrary: i xs rule: less_induct)
  case (less i xs)
  show ?case
  proof (cases "2 * i + 1 \<ge> n \<or> \<not> cmp (xs ! min_child cmp i n xs) (xs ! i)")
    case True
    then show ?thesis by (rule stop)
  next
    case False
    then have "n - min_child cmp i n xs < n - i"
      using min_child_bounds [of i n cmp xs] by linarith
    from step [OF _ _ less [OF this]] False show ?thesis by simp
  qed
qed

lemma mset_heap_down: "n \<le> length xs \<Longrightarrow> mset (heap_down cmp i n xs) = mset xs"
proof (induction i xs rule: heap_down_induct [where n = n and cmp = cmp])
  case (stop i xs)
  then show ?case by (subst heap_down_unfold) simp
next
  case (step i xs)
  moreover have "min_child cmp i n xs < length xs" "i < length xs"
    using step min_child_bounds [of i n cmp xs] by simp_all
  ultimately show ?case by (subst heap_down_unfold) simp
qed

lemma length_heap_down: "n \<le> length xs \<Longrightarrow> length (heap_down cmp i n xs) = length xs"
  using mset_heap_down by (metis mset_eq_length)

lemma heap_down_frame: "n \<le> k \<Longrightarrow> n \<le> length xs \<Longrightarrow> heap_down cmp i n xs ! k = xs ! k"
proof (induction i xs rule: heap_down_induct [where n = n and cmp = cmp])
  case (stop i xs)
  then show ?case by (subst heap_down_unfold) simp
next
  case (step i xs)
  moreover have "min_child cmp i n xs < n" "i < n"
    using step min_child_bounds [of i n cmp xs] by simp_all
  ultimately show ?case by (subst heap_down_unfold) (simp add: Swap_def)
qed

lemma mset_heap_Push [simp]: "mset (heap_Push cmp x xs) = add_mset x (mset xs)"
  by (simp add: heap_Push_def mset_heap_up)

lemma heap_Pop_spec:
  assumes "xs \<noteq> []"
  shows "fst (heap_Pop cmp xs) = xs ! 0"
    and "mset xs = add_mset (xs ! 0) (mset (snd (heap_Pop cmp xs)))"
proof -
  let ?n = "length xs - 1" and ?ys = "heap_down cmp 0 (length xs - 1) (Swap 0 (length xs - 1) xs)"
  have n: "?n < length xs" "0 < length xs" using assms by (cases xs; simp)+
  have len: "length ?ys = length xs" by (simp add: length_heap_down)
  have root: "?ys ! ?n = xs ! 0"
    using n by (simp add: heap_down_frame nth_Swap)
  then show "fst (heap_Pop cmp xs) = xs ! 0" by (simp add: heap_Pop_def Let_def)
  have "mset xs = mset ?ys" using n by (simp add: mset_heap_down)
  also have "\<dots> = mset (take ?n ?ys @ [?ys ! ?n])"
    using n len by (metis One_nat_def Suc_pred take_Suc_conv_app_nth take_all order_refl)
  finally show "mset xs = add_mset (xs ! 0) (mset (snd (heap_Pop cmp xs)))"
    using root by (simp add: heap_Pop_def Let_def)
qed

section \<open>Order\<close>

locale comparator =
  fixes cmp :: "'a \<Rightarrow> 'a \<Rightarrow> bool"
  assumes cmp_asym: "cmp a b \<Longrightarrow> \<not> cmp b a"
    and not_cmp_trans: "\<not> cmp b a \<Longrightarrow> \<not> cmp c b \<Longrightarrow> \<not> cmp c a"
begin

definition le :: "'a \<Rightarrow> 'a \<Rightarrow> bool" where
  "le a b \<longleftrightarrow> \<not> cmp b a"

lemma le_refl [simp]: "le a a"
  using cmp_asym unfolding le_def by blast

lemma le_trans: "le a b \<Longrightarrow> le b c \<Longrightarrow> le a c"
  using not_cmp_trans unfolding le_def by blast

lemma cmp_le: "cmp a b \<Longrightarrow> le a b"
  using cmp_asym unfolding le_def by blast

text \<open>The heap property of the first \<open>n\<close> elements, and its two weakenings around one index.\<close>

definition heap_ok :: "nat \<Rightarrow> 'a list \<Rightarrow> bool" where
  "heap_ok n xs \<longleftrightarrow> (\<forall>k. 0 < k \<longrightarrow> k < n \<longrightarrow> le (xs ! parent k) (xs ! k))"

definition heap_but_up :: "nat \<Rightarrow> nat \<Rightarrow> 'a list \<Rightarrow> bool" where
  "heap_but_up j n xs \<longleftrightarrow>
     (\<forall>k. 0 < k \<longrightarrow> k < n \<longrightarrow> k \<noteq> j \<longrightarrow> le (xs ! parent k) (xs ! k)) \<and>
     (\<forall>k. 0 < k \<longrightarrow> k < n \<longrightarrow> parent k = j \<longrightarrow> 0 < j \<longrightarrow> le (xs ! parent j) (xs ! k))"

definition heap_but_down :: "nat \<Rightarrow> nat \<Rightarrow> 'a list \<Rightarrow> bool" where
  "heap_but_down i n xs \<longleftrightarrow>
     (\<forall>k. 0 < k \<longrightarrow> k < n \<longrightarrow> parent k \<noteq> i \<longrightarrow> le (xs ! parent k) (xs ! k)) \<and>
     (\<forall>k. 0 < k \<longrightarrow> k < n \<longrightarrow> parent k = i \<longrightarrow> 0 < i \<longrightarrow> le (xs ! parent i) (xs ! k))"

lemma up_step:
  assumes inv: "heap_but_up j (length xs) xs" and j: "0 < j" "j < length xs"
    and lt: "cmp (xs ! j) (xs ! parent j)"
  shows "heap_but_up (parent j) (length xs) (Swap (parent j) j xs)"
proof -
  let ?i = "parent j" and ?ys = "Swap (parent j) j xs"
  have i: "?i < j" using j by simp
  then have i': "?i < length xs" using j(2) by (rule less_trans)
  have ys: "?ys ! k = (if k = ?i then xs ! j else if k = j then xs ! ?i else xs ! k)"
    if "k < length xs" for k using that i' j by (intro nth_Swap) auto
  have par: "parent k < length xs" if "k < length xs" for k
    using that by simp
  have 1: "le (?ys ! parent k) (?ys ! k)" if k: "0 < k" "k < length xs" "k \<noteq> ?i" for k
  proof (cases "k = j")
    case True
    then show ?thesis using ys [of k] ys [of "parent k"] par [of k] k i cmp_le [OF lt] by simp
  next
    case False
    consider "parent k = ?i" | "parent k = j" | "parent k \<noteq> ?i" "parent k \<noteq> j" by blast
    then show ?thesis
    proof cases
      case 1
      have "le (xs ! ?i) (xs ! k)" using inv k False 1 unfolding heap_but_up_def by metis
      then have "le (xs ! j) (xs ! k)" using cmp_le [OF lt] le_trans by blast
      then show ?thesis using ys [of k] ys [of "parent k"] par [of k] k False 1 by simp
    next
      case 2
      have "le (xs ! ?i) (xs ! k)" using inv k j 2 unfolding heap_but_up_def by metis
      then show ?thesis using ys [of k] ys [of "parent k"] par [of k] k False 2 i by simp
    next
      case 3
      have "le (xs ! parent k) (xs ! k)" using inv k False unfolding heap_but_up_def by metis
      then show ?thesis using ys [of k] ys [of "parent k"] par [of k] k False 3 by simp
    qed
  qed
  have 2: "le (?ys ! parent ?i) (?ys ! k)"
    if k: "0 < k" "k < length xs" "parent k = ?i" "0 < ?i" for k
  proof -
    have pi: "parent ?i < ?i" using k(4) by simp
    have up: "le (xs ! parent ?i) (xs ! ?i)"
      using inv k i i' unfolding heap_but_up_def by (metis less_irrefl)
    have "le (xs ! parent ?i) (xs ! k)" if "k \<noteq> j"
      using inv k that up le_trans unfolding heap_but_up_def by metis
    then show ?thesis
      using up ys [of k] ys [of "parent ?i"] par [OF i'] k i pi by (cases "k = j") auto
  qed
  show ?thesis using 1 2 unfolding heap_but_up_def by auto
qed

lemma heap_up_ok:
  "j < length xs \<Longrightarrow> heap_but_up j (length xs) xs \<Longrightarrow> heap_ok (length xs) (heap_up cmp j xs)"
proof (induction j arbitrary: xs rule: less_induct)
  case (less j)
  show ?case
  proof (cases "parent j = j \<or> \<not> cmp (xs ! j) (xs ! parent j)")
    case True
    then have "heap_up cmp j xs = xs" by (simp add: heap_up.simps [of cmp j xs] Let_def)
    moreover have "heap_ok (length xs) xs"
      using less.prems True unfolding heap_ok_def heap_but_up_def
      by (metis le_def less_irrefl parent_less)
    ultimately show ?thesis by simp
  next
    case False
    then have "0 < j" by (simp add: parent_eq_self)
    then have "heap_but_up (parent j) (length xs) (Swap (parent j) j xs)"
      using less.prems False by (intro up_step) simp_all
    then have "heap_ok (length xs) (heap_up cmp (parent j) (Swap (parent j) j xs))"
      using less.IH [of "parent j" "Swap (parent j) j xs"] less.prems \<open>0 < j\<close> parent_less
      by (metis length_Swap less_trans)
    then show ?thesis using False by (simp add: heap_up.simps [of cmp j xs] Let_def)
  qed
qed

lemma min_child_le:
  assumes "0 < k" "k < n" "parent k = i"
  shows "le (xs ! min_child cmp i n xs) (xs ! k)"
proof -
  have "k = 2 * i + 1 \<or> k = 2 * i + 2" using assms parent_iff by blast
  then show ?thesis using assms(2) cmp_le unfolding min_child_def le_def
    by (auto dest: cmp_asym)
qed

lemma parent_min_child: "parent (min_child cmp i n xs) = i"
  by (simp add: min_child_def parent_def)

lemma down_step:
  assumes inv: "heap_but_down i n xs" and n: "2 * i + 1 < n" "n \<le> length xs"
    and lt: "cmp (xs ! min_child cmp i n xs) (xs ! i)"
  shows "heap_but_down (min_child cmp i n xs) n (Swap i (min_child cmp i n xs) xs)"
proof -
  define j where "j = min_child cmp i n xs"
  let ?ys = "Swap i j xs"
  have j: "j < n" "i < j" "parent j = i"
    using min_child_bounds [OF n(1)] parent_min_child unfolding j_def by blast+
  have ys: "?ys ! k = (if k = i then xs ! j else if k = j then xs ! i else xs ! k)"
    if "k < n" for k using that j n by (intro nth_Swap) auto
  have par: "parent k < n" if "k < n" for k
    using that by simp
  have 1: "le (?ys ! parent k) (?ys ! k)" if k: "0 < k" "k < n" "parent k \<noteq> j" for k
  proof (cases "parent k = i")
    case True
    have "le (xs ! j) (xs ! k)" using min_child_le [OF k(1,2) True] by (simp add: j_def)
    moreover have "le (xs ! j) (xs ! i)" using cmp_le [OF lt] by (simp add: j_def)
    moreover have "k \<noteq> i" using True k parent_less [of k] by auto
    ultimately show ?thesis
      using ys [of k] ys [of "parent k"] par [of k] k True j by simp
  next
    case False
    have *: "le (xs ! parent k) (xs ! k)" using inv k False unfolding heap_but_down_def by blast
    show ?thesis
    proof (cases "k = i")
      case True
      have "le (xs ! parent i) (xs ! j)"
        using inv j k True unfolding heap_but_down_def by (metis gr_implies_not0 gr0I)
      then show ?thesis using ys [of k] ys [of "parent k"] par [of k] k True False by simp
    next
      case ki: False
      then have "k \<noteq> j" using False j by blast
      then show ?thesis using * ys [of k] ys [of "parent k"] par [of k] k False ki by simp
    qed
  qed
  have 2: "le (?ys ! parent j) (?ys ! k)" if k: "0 < k" "k < n" "parent k = j" for k
  proof -
    have "le (xs ! parent k) (xs ! k)" using inv k j unfolding heap_but_down_def by (metis less_irrefl)
    moreover have "k \<noteq> i" "k \<noteq> j" using k j parent_less [of k] by auto
    ultimately show ?thesis using ys [of k] ys [of "parent j"] par [of j] k j by simp
  qed
  show ?thesis using 1 2 unfolding heap_but_down_def j_def [symmetric] by auto
qed

lemma heap_down_ok:
  "n \<le> length xs \<Longrightarrow> heap_but_down i n xs \<Longrightarrow> heap_ok n (heap_down cmp i n xs)"
proof (induction i xs rule: heap_down_induct [where n = n and cmp = cmp])
  case (stop i xs)
  have "le (xs ! i) (xs ! k)" if "0 < k" "k < n" "parent k = i" for k
  proof -
    have "2 * i + 1 < n" using that parent_iff by auto
    then have "le (xs ! i) (xs ! min_child cmp i n xs)" using stop unfolding le_def by simp
    then show ?thesis using min_child_le [OF that] le_trans by blast
  qed
  then have "heap_ok n xs" using stop.prems unfolding heap_ok_def heap_but_down_def by blast
  then show ?case using stop.hyps by (subst heap_down_unfold) simp
next
  case (step i xs)
  then have "heap_but_down (min_child cmp i n xs) n (Swap i (min_child cmp i n xs) xs)"
    by (intro down_step)
  with step show ?case by (subst heap_down_unfold) simp
qed

lemma heap_root_le: "heap_ok n xs \<Longrightarrow> k < n \<Longrightarrow> le (xs ! 0) (xs ! k)"
proof (induction k rule: less_induct)
  case (less k)
  show ?case
  proof (cases "k = 0")
    case False
    then have "le (xs ! 0) (xs ! parent k)"
      using less.IH [of "parent k"] less.prems by simp
    moreover have "le (xs ! parent k) (xs ! k)"
      using less.prems False unfolding heap_ok_def by blast
    ultimately show ?thesis by (rule le_trans)
  qed simp
qed

section \<open>The slice as a priority queue\<close>

definition is_heap :: "'a list \<Rightarrow> bool" where
  "is_heap xs \<longleftrightarrow> heap_ok (length xs) xs"

lemma is_heap_Nil [simp]: "is_heap []"
  by (simp add: is_heap_def heap_ok_def)

lemma is_heap_Push:
  assumes "is_heap xs"
  shows "is_heap (heap_Push cmp x xs)"
proof -
  have "heap_but_up (length xs) (length (xs @ [x])) (xs @ [x])"
    unfolding heap_but_up_def
  proof (intro conjI allI impI)
    fix k assume "0 < k" "k < length (xs @ [x])" "k \<noteq> length xs"
    then have "0 < k" "k < length xs" by simp_all
    then show "le ((xs @ [x]) ! parent k) ((xs @ [x]) ! k)"
      using assms by (simp add: nth_append is_heap_def heap_ok_def)
  next
    fix k assume "0 < k" "k < length (xs @ [x])" "parent k = length xs"
    then show "le ((xs @ [x]) ! parent (length xs)) ((xs @ [x]) ! k)"
      using parent_less [of k] by simp
  qed
  then have "heap_ok (length (xs @ [x])) (heap_up cmp (length xs) (xs @ [x]))"
    by (intro heap_up_ok) simp_all
  moreover have "length (heap_up cmp (length xs) (xs @ [x])) = length (xs @ [x])"
    using mset_eq_length [OF mset_heap_up] by (metis length_append_singleton lessI)
  ultimately show ?thesis by (simp add: is_heap_def heap_Push_def)
qed

lemma is_heap_Pop:
  assumes "is_heap xs" "xs \<noteq> []"
  shows "is_heap (snd (heap_Pop cmp xs))"
proof -
  let ?n = "length xs - 1" and ?zs = "Swap 0 (length xs - 1) xs"
  have n: "?n < length xs" "0 < length xs" using assms(2) by (cases xs; simp)+
  have zs: "?zs ! k = xs ! k" if "0 < k" "k < ?n" for k
    using that n by (simp add: nth_Swap)
  have "heap_but_down 0 ?n ?zs"
    unfolding heap_but_down_def
  proof (intro conjI allI impI)
    fix k assume k: "0 < k" "k < ?n" "parent k \<noteq> 0"
    then show "le (?zs ! parent k) (?zs ! k)"
      using assms(1) k zs by (simp add: is_heap_def heap_ok_def)
  qed simp
  then have "heap_ok ?n (heap_down cmp 0 ?n ?zs)" by (intro heap_down_ok) simp_all
  moreover have "length (heap_down cmp 0 ?n ?zs) = length xs"
    by (simp add: length_heap_down)
  ultimately show ?thesis
    unfolding is_heap_def heap_Pop_def Let_def snd_conv heap_ok_def
    by simp
qed

lemma heap_Pop_min:
  assumes "is_heap xs" "xs \<noteq> []" "y \<in> set xs"
  shows "le (fst (heap_Pop cmp xs)) y"
proof -
  obtain k where "k < length xs" "xs ! k = y" using assms(3) by (auto simp: in_set_conv_nth)
  then show ?thesis
    using assms heap_root_le [of "length xs" xs k] by (auto simp: is_heap_def heap_Pop_spec)
qed

end

end
