(* ===== verification/Go_Strings.thy ===== *)
theory Go_Strings
  imports Prelude
begin

text \<open>
  The parts of Go's \<open>strings\<close> and \<open>strconv\<close> packages that the sources call, on byte
  strings. White space is the ASCII white space of \<open>strings.TrimSpace\<close> and
  \<open>strings.Fields\<close>.
\<close>

section \<open>strings\<close>

definition is_space :: "char \<Rightarrow> bool" where
  "is_space c \<longleftrightarrow> c \<in> {CHR '' '', CHR 0x09, CHR 0x0A, CHR 0x0B, CHR 0x0C, CHR 0x0D}"

definition TrimSpace :: "string \<Rightarrow> string" where
  "TrimSpace s = rev (dropWhile is_space (rev (dropWhile is_space s)))"

fun HasPrefix :: "string \<Rightarrow> string \<Rightarrow> bool" where
  "HasPrefix s [] = True"
| "HasPrefix [] (p # ps) = False"
| "HasPrefix (c # s) (p # ps) = (c = p \<and> HasPrefix s ps)"

definition TrimPrefix :: "string \<Rightarrow> string \<Rightarrow> string" where
  "TrimPrefix s p = (if HasPrefix s p then drop (length p) s else s)"

text \<open>\<open>strings.Split\<close> with a one-byte separator.\<close>

fun split_on :: "char \<Rightarrow> string \<Rightarrow> string list" where
  "split_on c [] = [[]]"
| "split_on c (x # xs) =
     (if x = c then [] # split_on c xs
      else (case split_on c xs of [] \<Rightarrow> [[x]] | w # ws \<Rightarrow> (x # w) # ws))"

text \<open>\<open>strings.Fields\<close>: the maximal runs of non-space bytes.\<close>

function Fields :: "string \<Rightarrow> string list" where
  "Fields [] = []"
| "Fields (c # cs) =
     (if is_space c then Fields cs
      else (c # takeWhile (\<lambda>x. \<not> is_space x) cs) # Fields (dropWhile (\<lambda>x. \<not> is_space x) cs))"
  by pat_completeness auto
termination
  by (relation "measure length") (auto simp: length_dropWhile_le le_imp_less_Suc)

lemma HasPrefix_append [simp]: "HasPrefix (p @ s) p"
  by (induction p) auto

lemma TrimPrefix_append [simp]: "TrimPrefix (p @ s) p = s"
  by (simp add: TrimPrefix_def)

lemma TrimSpace_Nil [simp]: "TrimSpace [] = []"
  by (simp add: TrimSpace_def)

lemma dropWhile_id: "(xs = [] \<or> \<not> P (hd xs)) \<Longrightarrow> dropWhile P xs = xs"
  by (cases xs) auto

lemma TrimSpace_id:
  "s \<noteq> [] \<Longrightarrow> \<not> is_space (hd s) \<Longrightarrow> \<not> is_space (last s) \<Longrightarrow> TrimSpace s = s"
  by (simp add: TrimSpace_def dropWhile_id hd_rev)

lemma split_on_nonempty [simp]: "split_on c s \<noteq> []"
  by (induction s) (auto split: list.splits)

lemma split_on_no_sep: "c \<notin> set s \<Longrightarrow> split_on c s = [s]"
  by (induction s) auto

lemma split_on_append: "c \<notin> set s \<Longrightarrow> split_on c (s @ c # t) = s # split_on c t"
  by (induction s) auto

section \<open>strconv\<close>

definition digit :: "nat \<Rightarrow> char" where
  "digit d = char_of (48 + d)"

definition digit_value :: "char \<Rightarrow> nat option" where
  "digit_value c = (let n = of_char c in if 48 \<le> n \<and> n \<le> 57 then Some (n - 48) else None)"

fun nat_digits :: "nat \<Rightarrow> string" where
  "nat_digits n = (if n < 10 then [digit n] else nat_digits (n div 10) @ [digit (n mod 10)])"

declare nat_digits.simps [simp del]

definition Itoa :: "int \<Rightarrow> string" where
  "Itoa n = (if n < 0 then CHR ''-'' # nat_digits (nat (- n)) else nat_digits (nat n))"

datatype num_error = ErrSyntax | ErrRange

fun parse_digits :: "nat \<Rightarrow> string \<Rightarrow> nat option" where
  "parse_digits acc [] = Some acc"
| "parse_digits acc (c # cs) =
     (case digit_value c of None \<Rightarrow> None | Some d \<Rightarrow> parse_digits (10 * acc + d) cs)"

text \<open>
  \<open>strconv.Atoi\<close>: an optional sign, at least one decimal digit, and the value in the
  range of \<open>int\<close>.
\<close>

definition Atoi :: "string \<Rightarrow> num_error + int" where
  "Atoi s =
     (let (neg, ds) = (case s of [] \<Rightarrow> (False, [])
                       | c # cs \<Rightarrow> if c = CHR ''-'' then (True, cs)
                                   else if c = CHR ''+'' then (False, cs) else (False, s))
      in if ds = [] then Inl ErrSyntax
         else case parse_digits 0 ds of
                None \<Rightarrow> Inl ErrSyntax
              | Some n \<Rightarrow> (let v = (if neg then - int n else int n)
                           in if in_int64 v then Inr v else Inl ErrRange))"

lemma Atoi_range: "Atoi s = Inr n \<Longrightarrow> in_int64 n"
  by (auto simp: Atoi_def Let_def split: list.splits option.splits if_splits)

lemma of_char_digit [simp]: "d < 10 \<Longrightarrow> of_char (digit d) = (48 + d :: nat)"
  by (simp add: digit_def)

lemma digit_value_digit [simp]: "d < 10 \<Longrightarrow> digit_value (digit d) = Some d"
  by (simp add: digit_value_def)

lemma digit_not_sign: "d < 10 \<Longrightarrow> digit d \<noteq> CHR ''-'' \<and> digit d \<noteq> CHR ''+''"
proof -
  assume "d < 10"
  then have "of_char (digit d) = (48 + d :: nat)" by simp
  moreover have "of_char (CHR ''-'') = (45 :: nat)" and "of_char (CHR ''+'') = (43 :: nat)"
    by simp_all
  ultimately show ?thesis by auto
qed

lemma parse_digits_append:
  "parse_digits acc (s @ t) = (case parse_digits acc s of None \<Rightarrow> None | Some n \<Rightarrow> parse_digits n t)"
  by (induction s arbitrary: acc) (auto split: option.splits)

lemma nat_digits_not_Nil [simp]: "nat_digits n \<noteq> []"
  by (subst nat_digits.simps) simp

lemma parse_nat_digits: "parse_digits 0 (nat_digits n) = Some n"
proof (induction n rule: nat_digits.induct)
  case (1 n)
  show ?case
  proof (cases "n < 10")
    case True
    then show ?thesis by (simp add: nat_digits.simps [of n])
  next
    case False
    with 1 show ?thesis by (simp add: nat_digits.simps [of n] parse_digits_append)
  qed
qed

lemma hd_nat_digits: "\<exists>d < 10. hd (nat_digits n) = digit d"
proof (induction n rule: nat_digits.induct)
  case (1 n)
  show ?case
  proof (cases "n < 10")
    case True
    then show ?thesis by (auto simp: nat_digits.simps [of n])
  next
    case False
    with 1 show ?thesis by (simp add: nat_digits.simps [of n])
  qed
qed

lemma Atoi_nat_digits: "in_int64 (int n) \<Longrightarrow> Atoi (nat_digits n) = Inr (int n)"
proof -
  assume r: "in_int64 (int n)"
  obtain c cs where e: "nat_digits n = c # cs" by (meson list.exhaust nat_digits_not_Nil)
  then have "c \<noteq> CHR ''-''" and "c \<noteq> CHR ''+''"
    using hd_nat_digits [of n] digit_not_sign by auto
  with e r parse_nat_digits [of n] show ?thesis by (simp add: Atoi_def)
qed

lemma Atoi_Itoa [simp]:
  assumes "in_int64 n"
  shows "Atoi (Itoa n) = Inr n"
proof (cases "n < 0")
  case True
  then show ?thesis
    using assms parse_nat_digits [of "nat (- n)"] by (simp add: Itoa_def Atoi_def)
next
  case False
  then show ?thesis using assms Atoi_nat_digits [of "nat n"] by (simp add: Itoa_def)
qed

lemma nat_digits_inj: "nat_digits m = nat_digits n \<Longrightarrow> m = n"
  by (metis option.inject parse_nat_digits)

lemma nat_digits_no_minus: "nat_digits n \<noteq> CHR ''-'' # cs"
  using hd_nat_digits [of n] digit_not_sign by (metis list.sel(1))

lemma Itoa_inj [simp]: "Itoa m = Itoa n \<longleftrightarrow> m = n"
  by (auto simp: Itoa_def nat_digits_no_minus nat_digits_no_minus [symmetric]
      dest!: nat_digits_inj split: if_splits)

lemma Itoa_not_Nil [simp]: "Itoa n \<noteq> []"
  by (simp add: Itoa_def)

end
