(* ===== verification/Job_Model.thy ===== *)
theory Job_Model
  imports Go_Strings
begin

text \<open>
  The job package (\<open>src/internal/job/job.go\<close>, \<open>result.go\<close>): persistent job states and
  their transition table, the job record, results of execution attempts, and the errors
  that the control plane passes around. A \<open>Status\<close> is a string in the source; the five
  named states are constructors and every other string is \<open>OtherStatus\<close> (the zero value
  of the struct has the empty string).
\<close>

section \<open>Statuses and jobs\<close>

datatype status = Pending | Scheduled | Completed | Failed | Cancelled | OtherStatus string

record job =
  ID :: int
  Type :: string
  Priority :: int
  Status :: status
  RetryCount :: int
  MaxRetries :: int
  NextRunAt :: time
  LastError :: string
  IdempotencyKey :: string

definition zero_job :: job where
  "zero_job = \<lparr>ID = 0, Type = [], Priority = 0, Status = OtherStatus [], RetryCount = 0,
     MaxRetries = 0, NextRunAt = 0, LastError = [], IdempotencyKey = []\<rparr>"

definition NewJob :: "int \<Rightarrow> string \<Rightarrow> int \<Rightarrow> job" where
  "NewJob jid jobType priority =
     zero_job\<lparr>ID := jid, Type := jobType, Priority := priority, Status := Pending,
       MaxRetries := 3\<rparr>"

lemma NewJob_simps [simp]:
  "ID (NewJob i t p) = i" "Type (NewJob i t p) = t" "Priority (NewJob i t p) = p"
  "Status (NewJob i t p) = Pending" "RetryCount (NewJob i t p) = 0"
  "MaxRetries (NewJob i t p) = 3" "NextRunAt (NewJob i t p) = 0"
  "LastError (NewJob i t p) = []" "IdempotencyKey (NewJob i t p) = []"
  by (simp_all add: NewJob_def zero_job_def)

definition IsValidTransition :: "status \<Rightarrow> status \<Rightarrow> bool" where
  "IsValidTransition current nxt =
     (if current = nxt then True
      else case current of
             Pending \<Rightarrow> nxt = Scheduled \<or> nxt = Completed \<or> nxt = Failed \<or> nxt = Cancelled
           | Scheduled \<Rightarrow> nxt = Pending \<or> nxt = Cancelled
           | Completed \<Rightarrow> False
           | Failed \<Rightarrow> False
           | Cancelled \<Rightarrow> False
           | OtherStatus _ \<Rightarrow> False)"

definition terminal :: "status \<Rightarrow> bool" where
  "terminal s \<longleftrightarrow> s = Completed \<or> s = Failed \<or> s = Cancelled"

lemma terminal_simps [simp]:
  "\<not> terminal Pending" "\<not> terminal Scheduled" "terminal Completed" "terminal Failed"
  "terminal Cancelled" "\<not> terminal (OtherStatus s)"
  by (simp_all add: terminal_def)

lemma IsValidTransition_refl [simp]: "IsValidTransition s s"
  by (simp add: IsValidTransition_def)

lemma IsValidTransition_terminal:
  "terminal s \<Longrightarrow> IsValidTransition s t \<longleftrightarrow> t = s"
  by (auto simp: IsValidTransition_def terminal_def)

lemma IsValidTransition_Pending [simp]:
  "IsValidTransition Pending t \<longleftrightarrow> t \<in> {Pending, Scheduled, Completed, Failed, Cancelled}"
  by (auto simp: IsValidTransition_def)

lemma IsValidTransition_Scheduled [simp]:
  "IsValidTransition Scheduled t \<longleftrightarrow> t \<in> {Scheduled, Pending, Cancelled}"
  by (auto simp: IsValidTransition_def)

lemma IsValidTransition_Cancelled:
  "IsValidTransition s Cancelled \<longleftrightarrow> s \<in> {Pending, Scheduled, Cancelled}"
  by (cases s) (auto simp: IsValidTransition_def)

text \<open>The statuses a job can pass through one transition after the other.\<close>

inductive status_path :: "status \<Rightarrow> status \<Rightarrow> bool" where
  path_refl [intro]: "status_path s s"
| path_step: "status_path s t \<Longrightarrow> IsValidTransition t u \<Longrightarrow> status_path s u"

lemma status_path_terminal: "status_path s t \<Longrightarrow> terminal s \<Longrightarrow> t = s"
  by (induction rule: status_path.induct) (auto simp: IsValidTransition_terminal)

lemma status_path_trans:
  assumes "status_path s t" and "status_path t u"
  shows "status_path s u"
  using assms(2,1) by (induction rule: status_path.induct) (auto intro: path_step)

section \<open>Errors\<close>

text \<open>
  One constructor per error value the modelled sources create or compare with;
  \<open>EText\<close> is \<open>errors.New\<close> of a text that arrives from outside (a reported result),
  \<open>EWrap\<close> is \<open>fmt.Errorf\<close> with \<open>%w\<close>.
\<close>

datatype error =
    EText string
  | EJobExists int
  | EUpdateMissing int
  | EBadTransition status status int
  | EJobNotFound
  | EInTerminal status
  | ENotLeader string
  | EMarshal
  | EUnmarshal
  | EBolt string
  | ECanceled
  | ECircuitOpen
  | ESimulatedFailure
  | EWorkerBusy
  | ECronID
  | ECronType
  | ECronPriority
  | ECronSchedule
  | ECronExists
  | EWrap string error

text \<open>
  \<open>result.go\<close>: the outcome of one execution attempt. \<open>Error\<close> is nil exactly for
  \<open>None\<close>.
\<close>

record result =
  rJobID :: int
  rSuccess :: bool
  rError :: "error option"
  rAttempt :: int

fun status_string :: "status \<Rightarrow> string" where
  "status_string Pending = ''PENDING''"
| "status_string Scheduled = ''SCHEDULED''"
| "status_string Completed = ''COMPLETED''"
| "status_string Failed = ''FAILED''"
| "status_string Cancelled = ''CANCELLED''"
| "status_string (OtherStatus s) = s"

text \<open>The message of an error, which \<open>Job.LastError\<close> records.\<close>

fun error_string :: "error \<Rightarrow> string" where
  "error_string (EText s) = s"
| "error_string (EJobExists i) = ''job '' @ Itoa i @ '' already exists''"
| "error_string (EUpdateMissing i) = ''job '' @ Itoa i @ '' not found for update''"
| "error_string (EBadTransition a b i) =
     ''invalid status transition from '' @ status_string a @ '' to '' @ status_string b
     @ '' for job '' @ Itoa i"
| "error_string EJobNotFound = ''job not found''"
| "error_string (EInTerminal s) = ''job already in terminal status '' @ status_string s"
| "error_string (ENotLeader a) = ''not leader, leader is '' @ a"
| "error_string EMarshal = ''marshal error''"
| "error_string EUnmarshal = ''unmarshal error''"
| "error_string (EBolt s) = s"
| "error_string ECanceled = ''context canceled''"
| "error_string ECircuitOpen = ''circuit breaker is open''"
| "error_string ESimulatedFailure = ''simulated failure''"
| "error_string EWorkerBusy = ''worker is busy''"
| "error_string ECronID = ''cron job id is required''"
| "error_string ECronType = ''cron job type is required''"
| "error_string ECronPriority = ''cron priority must be >= 0''"
| "error_string ECronSchedule = ''unsupported cron schedule''"
| "error_string ECronExists = ''cron job id already exists''"
| "error_string (EWrap m e) = m @ '': '' @ error_string e"

end
