(* ===== verification/Job_Queue.thy ===== *)
theory Job_Queue
  imports Heap_Array Job_Model
begin

text \<open>
  The two job queues (\<open>src/internal/queue\<close>): a heap of job IDs whose comparator reads the
  jobs from the store at the time of each comparison. The store enters as its lookup
  function \<open>get\<close>. The one-place notification channel is a flag, and \<open>depth\<close> is the
  queue's contribution to the gauge \<open>metrics.QueueDepth\<close>.
\<close>

section \<open>Comparators\<close>

type_synonym job_lookup = "int \<Rightarrow> job option"
type_synonym comparator_fun = "job_lookup \<Rightarrow> int \<Rightarrow> int \<Rightarrow> bool"

definition job_or_zero :: "job_lookup \<Rightarrow> int \<Rightarrow> job" where
  "job_or_zero get i = (case get i of None \<Rightarrow> zero_job | Some j \<Rightarrow> j)"

definition PriorityComparator :: comparator_fun where
  "PriorityComparator get aID bID =
     (let a = job_or_zero get aID; b = job_or_zero get bID in Priority a > Priority b)"

definition DelayComparator :: comparator_fun where
  "DelayComparator get aID bID =
     (let a = job_or_zero get aID; b = job_or_zero get bID in NextRunAt a < NextRunAt b)"

section \<open>Queues\<close>

record job_queue =
  items :: "int list"
  notify :: bool
  depth :: int

definition heap_Init :: "('a \<Rightarrow> 'a \<Rightarrow> bool) \<Rightarrow> 'a list \<Rightarrow> 'a list" where
  "heap_Init cmp xs = fold (\<lambda>i. heap_down cmp i (length xs)) (rev [0 ..< length xs div 2]) xs"

definition NewJobQueue :: "(int \<Rightarrow> int \<Rightarrow> bool) \<Rightarrow> job_queue" where
  "NewJobQueue cmp = \<lparr>items = heap_Init cmp [], notify = False, depth = 0\<rparr>"

definition Enqueue :: "(int \<Rightarrow> int \<Rightarrow> bool) \<Rightarrow> int \<Rightarrow> job_queue \<Rightarrow> job_queue" where
  "Enqueue cmp i q =
     q\<lparr>items := heap_Push cmp i (items q), depth := depth q + 1, notify := True\<rparr>"

definition Dequeue :: "(int \<Rightarrow> int \<Rightarrow> bool) \<Rightarrow> job_queue \<Rightarrow> (int \<times> job_queue) option" where
  "Dequeue cmp q =
     (if length (items q) = 0 then None
      else let (i, rest) = heap_Pop cmp (items q)
           in Some (i, q\<lparr>items := rest, depth := depth q - 1\<rparr>))"

definition Peek :: "job_queue \<Rightarrow> int option" where
  "Peek q = (if length (items q) = 0 then None else Some (items q ! 0))"

text \<open>Receiving from the channel that \<open>Wait\<close> returns, when a notification is there.\<close>

definition Wait :: "job_queue \<Rightarrow> job_queue option" where
  "Wait q = (if notify q then Some (q\<lparr>notify := False\<rparr>) else None)"

section \<open>What a queue promises its clients\<close>

text \<open>
  The contract the scheduler relies on, whatever the comparator: no ID is lost or made up,
  \<open>Peek\<close> shows what \<open>Dequeue\<close> takes, and an enqueued ID raises the notification.
\<close>

locale id_queue =
  fixes enq :: "int \<Rightarrow> 'q \<Rightarrow> 'q"
    and deq :: "'q \<Rightarrow> (int \<times> 'q) option"
    and peek :: "'q \<Rightarrow> int option"
    and ids :: "'q \<Rightarrow> int multiset"
    and ready :: "'q \<Rightarrow> bool"
  assumes ids_enq: "ids (enq i q) = add_mset i (ids q)"
    and ids_deq: "deq q = Some (i, q') \<Longrightarrow> ids q = add_mset i (ids q')"
    and deq_None: "deq q = None \<longleftrightarrow> ids q = {#}"
    and peek_deq: "peek q = map_option fst (deq q)"
    and ready_enq: "ready (enq i q)"
begin

lemma deq_mem: "deq q = Some (i, q') \<Longrightarrow> i \<in># ids q"
  using ids_deq by fastforce

lemma deq_rest: "deq q = Some (i, q') \<Longrightarrow> set_mset (ids q) = insert i (set_mset (ids q'))"
  using ids_deq by fastforce

lemma deq_size: "deq q = Some (i, q') \<Longrightarrow> size (ids q) = Suc (size (ids q'))"
  using ids_deq by fastforce

lemma peek_None: "peek q = None \<longleftrightarrow> ids q = {#}"
  by (simp add: peek_deq deq_None)

lemma peek_mem: "peek q = Some i \<Longrightarrow> i \<in># ids q"
  using deq_mem by (auto simp: peek_deq)

text \<open>Enqueueing a list of IDs one after the other adds exactly these IDs.\<close>

lemma ids_enq_all: "ids (fold enq is q) = ids q + mset is"
  by (induction "is" arbitrary: q) (simp_all add: ids_enq)

end

text \<open>
  An ordered queue also has an invariant, under which \<open>Dequeue\<close> takes an ID that no
  other queued ID precedes.
\<close>

locale ordered_id_queue = id_queue +
  fixes prec :: "int \<Rightarrow> int \<Rightarrow> bool"
    and invar :: "'a \<Rightarrow> bool"
  assumes invar_enq: "invar q \<Longrightarrow> invar (enq i q)"
    and invar_deq: "invar q \<Longrightarrow> deq q = Some (i, q') \<Longrightarrow> invar q'"
    and deq_first: "invar q \<Longrightarrow> deq q = Some (i, q') \<Longrightarrow> k \<in># ids q \<Longrightarrow> \<not> prec k i"
begin

text \<open>Dequeueing until the queue is empty.\<close>

inductive drains :: "'a \<Rightarrow> int list \<Rightarrow> bool" where
  drained: "deq q = None \<Longrightarrow> drains q []"
| drain: "deq q = Some (i, q') \<Longrightarrow> drains q' is \<Longrightarrow> drains q (i # is)"

lemma drains_ids: "drains q is \<Longrightarrow> mset is = ids q"
  by (induction rule: drains.induct) (auto simp: deq_None ids_deq)

lemma drains_ordered: "drains q is \<Longrightarrow> invar q \<Longrightarrow> sorted_wrt (\<lambda>a b. \<not> prec b a) is"
proof (induction rule: drains.induct)
  case (drain q i q' "is")
  have "\<not> prec k i" if "k \<in> set is" for k
  proof -
    have "k \<in># ids q'" using that drains_ids [OF drain.hyps(2)] by (metis set_mset_mset)
    then show ?thesis using deq_first [OF drain.prems drain.hyps(1)] ids_deq [OF drain.hyps(1)]
      by simp
  qed
  then show ?case using drain invar_deq by auto
qed simp

lemma drains_exists: "\<exists>is. drains q is"
proof (induction "size (ids q)" arbitrary: q)
  case 0
  then show ?case using drained deq_None by (metis size_eq_0_iff_empty)
next
  case (Suc n)
  then obtain i q' where d: "deq q = Some (i, q')" using deq_None
    by (metis nat.distinct(1) not_None_eq size_empty surj_pair)
  then have "n = size (ids q')" using Suc.hyps(2) deq_size by fastforce
  then show ?case using Suc.hyps(1) drain [OF d] by blast
qed

end

section \<open>The queues keep the contract\<close>

definition queue_ids :: "job_queue \<Rightarrow> int multiset" where
  "queue_ids q = mset (items q)"

lemma queue_ids_Enqueue: "queue_ids (Enqueue cmp i q) = add_mset i (queue_ids q)"
  by (simp add: queue_ids_def Enqueue_def)

lemma Dequeue_Some:
  "Dequeue cmp q = Some (i, q') \<longleftrightarrow>
     items q \<noteq> [] \<and> i = items q ! 0 \<and>
     q' = q\<lparr>items := snd (heap_Pop cmp (items q)), depth := depth q - 1\<rparr>"
  using heap_Pop_spec(1) [of "items q" cmp]
  by (cases "heap_Pop cmp (items q)") (auto simp: Dequeue_def)

lemma Dequeue_None: "Dequeue cmp q = None \<longleftrightarrow> items q = []"
  by (auto simp: Dequeue_def split: prod.splits)

interpretation jq: id_queue "Enqueue cmp" "Dequeue cmp" Peek queue_ids notify for cmp
proof unfold_locales
  fix i q q'
  show "queue_ids (Enqueue cmp i q) = add_mset i (queue_ids q)"
    by (rule queue_ids_Enqueue)
  show "Dequeue cmp q = None \<longleftrightarrow> queue_ids q = {#}"
    by (simp add: Dequeue_None queue_ids_def)
  show "Peek q = map_option fst (Dequeue cmp q)"
    using heap_Pop_spec(1) [of "items q" cmp] by (auto simp: Peek_def Dequeue_def split: prod.splits)
  show "notify (Enqueue cmp i q)" by (simp add: Enqueue_def)
  assume "Dequeue cmp q = Some (i, q')"
  then show "queue_ids q = add_mset i (queue_ids q')"
    using heap_Pop_spec(2) [of "items q" cmp] by (simp add: Dequeue_Some queue_ids_def)
qed

text \<open>The two comparators are strict weak orders, for every content of the store.\<close>

interpretation prio: comparator "PriorityComparator get" for get
  by unfold_locales (auto simp: PriorityComparator_def Let_def)

interpretation delay: comparator "DelayComparator get" for get
  by unfold_locales (auto simp: DelayComparator_def Let_def)

definition prio_inv :: "job_lookup \<Rightarrow> job_queue \<Rightarrow> bool" where
  "prio_inv get q \<longleftrightarrow> prio.is_heap get (items q)"

definition delay_inv :: "job_lookup \<Rightarrow> job_queue \<Rightarrow> bool" where
  "delay_inv get q \<longleftrightarrow> delay.is_heap get (items q)"

interpretation pq: ordered_id_queue "Enqueue (PriorityComparator get)"
  "Dequeue (PriorityComparator get)" Peek queue_ids notify "PriorityComparator get" "prio_inv get" for get
proof unfold_locales
  fix q q' i k
  show "prio_inv get (Enqueue (PriorityComparator get) i q)" if "prio_inv get q"
    using that prio.is_heap_Push by (simp add: prio_inv_def Enqueue_def)
  assume inv: "prio_inv get q" and d: "Dequeue (PriorityComparator get) q = Some (i, q')"
  then show "prio_inv get q'"
    using prio.is_heap_Pop by (simp add: prio_inv_def Dequeue_Some)
  assume "k \<in># queue_ids q"
  then show "\<not> PriorityComparator get k i"
    using inv d prio.heap_Pop_min [of get "items q" k]
      heap_Pop_spec(1) [of "items q" "PriorityComparator get"]
    by (auto simp: prio_inv_def Dequeue_Some queue_ids_def prio.le_def)
qed

interpretation dq: ordered_id_queue "Enqueue (DelayComparator get)"
  "Dequeue (DelayComparator get)" Peek queue_ids notify "DelayComparator get" "delay_inv get" for get
proof unfold_locales
  fix q q' i k
  show "delay_inv get (Enqueue (DelayComparator get) i q)" if "delay_inv get q"
    using that delay.is_heap_Push by (simp add: delay_inv_def Enqueue_def)
  assume inv: "delay_inv get q" and d: "Dequeue (DelayComparator get) q = Some (i, q')"
  then show "delay_inv get q'"
    using delay.is_heap_Pop by (simp add: delay_inv_def Dequeue_Some)
  assume "k \<in># queue_ids q"
  then show "\<not> DelayComparator get k i"
    using inv d delay.heap_Pop_min [of get "items q" k]
      heap_Pop_spec(1) [of "items q" "DelayComparator get"]
    by (auto simp: delay_inv_def Dequeue_Some queue_ids_def delay.le_def)
qed

text \<open>
  The comparator reads the store, so a change of the store could break the order of a
  queue. It does not as long as the queued jobs keep the field the comparator looks at.
\<close>

lemma prio_inv_cong:
  assumes "\<And>i. i \<in># queue_ids q \<Longrightarrow> Priority (job_or_zero get' i) = Priority (job_or_zero get i)"
  shows "prio_inv get' q = prio_inv get q"
proof -
  have "prio.le get' (items q ! a) (items q ! b) = prio.le get (items q ! a) (items q ! b)"
    if "a < length (items q)" "b < length (items q)" for a b
    using that assms by (simp add: prio.le_def PriorityComparator_def queue_ids_def)
  then show ?thesis
    by (simp add: prio_inv_def prio.is_heap_def prio.heap_ok_def)
qed

lemma delay_inv_cong:
  assumes "\<And>i. i \<in># queue_ids q \<Longrightarrow> NextRunAt (job_or_zero get' i) = NextRunAt (job_or_zero get i)"
  shows "delay_inv get' q = delay_inv get q"
proof -
  have "delay.le get' (items q ! a) (items q ! b) = delay.le get (items q ! a) (items q ! b)"
    if "a < length (items q)" "b < length (items q)" for a b
    using that assms by (simp add: delay.le_def DelayComparator_def queue_ids_def)
  then show ?thesis
    by (simp add: delay_inv_def delay.is_heap_def delay.heap_ok_def)
qed

lemma queue_ids_New [simp]: "queue_ids (NewJobQueue cmp) = {#}"
  by (simp add: queue_ids_def NewJobQueue_def heap_Init_def)

lemma prio_inv_New [simp]: "prio_inv get (NewJobQueue cmp)"
  by (simp add: prio_inv_def NewJobQueue_def heap_Init_def)

lemma delay_inv_New [simp]: "delay_inv get (NewJobQueue cmp)"
  by (simp add: delay_inv_def NewJobQueue_def heap_Init_def)

text \<open>The gauge follows the queue.\<close>

definition depth_ok :: "job_queue \<Rightarrow> bool" where
  "depth_ok q \<longleftrightarrow> depth q = int (size (queue_ids q))"

lemma depth_ok_New [simp]: "depth_ok (NewJobQueue cmp)"
  by (simp add: depth_ok_def) (simp add: NewJobQueue_def)

lemma depth_ok_Enqueue [simp, wf_intros]: "depth_ok q \<Longrightarrow> depth_ok (Enqueue cmp i q)"
  by (simp add: depth_ok_def queue_ids_Enqueue) (simp add: Enqueue_def)

lemma depth_ok_Dequeue:
  assumes "depth_ok q" and d: "Dequeue cmp q = Some (i, q')"
  shows "depth_ok q'"
proof -
  have "depth q' = depth q - 1" using d by (simp add: Dequeue_Some)
  then show ?thesis using assms(1) jq.deq_size [OF d] by (simp add: depth_ok_def)
qed

section \<open>Draining a queue\<close>

function drain :: "(int \<Rightarrow> int \<Rightarrow> bool) \<Rightarrow> job_queue \<Rightarrow> int list" where
  "drain cmp q = (case Dequeue cmp q of None \<Rightarrow> [] | Some (i, q') \<Rightarrow> i # drain cmp q')"
  by pat_completeness auto

termination
  by (relation "measure (\<lambda>(cmp, q). size (queue_ids q))") (auto dest: jq.deq_size)

declare drain.simps [simp del]

lemma drain_drains: "pq.drains get q (drain (PriorityComparator get) q)"
  and drain_drains_delay: "dq.drains get q (drain (DelayComparator get) q)"
proof (induction "size (queue_ids q)" arbitrary: q rule: less_induct)
  case less
  {
    case 1
    then show ?case using less.hyps(1) jq.deq_size [of "PriorityComparator get" q]
      by (subst drain.simps) (auto intro: pq.drains.intros split: option.split)
  next
    case 2
    then show ?case using less.hyps(2) jq.deq_size [of "DelayComparator get" q]
      by (subst drain.simps) (auto intro: dq.drains.intros split: option.split)
  }
qed

lemma prio_inv_enqueue_all: "prio_inv get q \<Longrightarrow> prio_inv get (fold (Enqueue (PriorityComparator get)) is q)"
  by (induction "is" arbitrary: q) (simp_all add: pq.invar_enq)

lemma delay_inv_enqueue_all: "delay_inv get q \<Longrightarrow> delay_inv get (fold (Enqueue (DelayComparator get)) is q)"
  by (induction "is" arbitrary: q) (simp_all add: dq.invar_enq)

text \<open>
  C15. Whatever jobs are enqueued in the priority queue and in whatever order, taking them
  out one after the other returns each enqueued ID exactly as often as it was enqueued, in
  the order of non-increasing priority.
\<close>

theorem priority_queue_drains_in_order:
  "let out = drain (PriorityComparator get) (fold (Enqueue (PriorityComparator get)) is (NewJobQueue (PriorityComparator get)))
   in mset out = mset is \<and>
      sorted_wrt (\<lambda>a b. Priority (job_or_zero get b) \<le> Priority (job_or_zero get a)) out"
proof -
  let ?q = "fold (Enqueue (PriorityComparator get)) is (NewJobQueue (PriorityComparator get))"
  have d: "pq.drains get ?q (drain (PriorityComparator get) ?q)" by (rule drain_drains)
  have "mset (drain (PriorityComparator get) ?q) = mset is"
    using pq.drains_ids [OF d] by (simp add: jq.ids_enq_all)
  moreover have "sorted_wrt (\<lambda>a b. \<not> PriorityComparator get b a) (drain (PriorityComparator get) ?q)"
    using pq.drains_ordered [OF d] by (simp add: prio_inv_enqueue_all)
  ultimately show ?thesis by (simp add: Let_def PriorityComparator_def not_less)
qed

text \<open>
  The delay queue returns each enqueued ID exactly as often as it was enqueued, in the
  order of non-decreasing next-run times.
\<close>

theorem delay_queue_drains_in_order:
  "let out = drain (DelayComparator get) (fold (Enqueue (DelayComparator get)) is (NewJobQueue (DelayComparator get)))
   in mset out = mset is \<and>
      sorted_wrt (\<lambda>a b. NextRunAt (job_or_zero get a) \<le> NextRunAt (job_or_zero get b)) out"
proof -
  let ?q = "fold (Enqueue (DelayComparator get)) is (NewJobQueue (DelayComparator get))"
  have d: "dq.drains get ?q (drain (DelayComparator get) ?q)" by (rule drain_drains_delay)
  have "mset (drain (DelayComparator get) ?q) = mset is"
    using dq.drains_ids [OF d] by (simp add: jq.ids_enq_all)
  moreover have "sorted_wrt (\<lambda>a b. \<not> DelayComparator get b a) (drain (DelayComparator get) ?q)"
    using dq.drains_ordered [OF d] by (simp add: delay_inv_enqueue_all)
  ultimately show ?thesis by (simp add: Let_def DelayComparator_def not_less)
qed

end
