(* ===== verification/Lease_Manager.thy ===== *)
theory Lease_Manager
  imports Job_Model
begin

text \<open>
  The execution leases of the active leader (\<open>src/internal/job/lease.go\<close>): a map from
  job IDs to leases. The mutex makes each method atomic; the pointer \<open>Get\<close> returns is
  only read by its callers.
\<close>

record lease =
  lJobID :: int
  lWorkerID :: int
  lTerm :: nat
  lAttempt :: int
  lStartedAt :: time

type_synonym lease_manager = "(int, lease) gomap"

definition NewLeaseManager :: lease_manager where
  "NewLeaseManager = []"

definition Acquire :: "time \<Rightarrow> int \<Rightarrow> int \<Rightarrow> nat \<Rightarrow> int \<Rightarrow> lease_manager \<Rightarrow> lease_manager" where
  "Acquire now jobID workerID term attempt lm =
     mput jobID \<lparr>lJobID = jobID, lWorkerID = workerID, lTerm = term, lAttempt = attempt,
       lStartedAt = now\<rparr> lm"

definition lease_Get :: "int \<Rightarrow> lease_manager \<Rightarrow> lease option" where
  "lease_Get jobID lm = map_of lm jobID"

definition Release :: "int \<Rightarrow> lease_manager \<Rightarrow> lease_manager" where
  "Release jobID lm = mdel jobID lm"

text \<open>
  The loop deletes entries while it ranges over the map; Go visits every entry that is not
  deleted before it is reached, so each lease is looked at once.
\<close>

fun release_loop :: "int \<Rightarrow> (int \<times> lease) list \<Rightarrow> int list \<times> lease_manager \<Rightarrow> int list \<times> lease_manager" where
  "release_loop w [] (released, lm) = (released, lm)"
| "release_loop w ((jobID, l) # es) (released, lm) =
     (if lWorkerID l = w then release_loop w es (released @ [jobID], mdel jobID lm)
      else release_loop w es (released, lm))"

definition ReleaseByWorker :: "order_choice \<Rightarrow> int \<Rightarrow> lease_manager \<Rightarrow> int list \<times> lease_manager" where
  "ReleaseByWorker ord workerID lm = release_loop workerID (range_order ord lm) ([], lm)"

definition Clear :: "lease_manager \<Rightarrow> lease_manager" where
  "Clear lm = []"

section \<open>Invariant\<close>

text \<open>Every lease is stored under its own job ID.\<close>

definition lease_inv :: "lease_manager \<Rightarrow> bool" where
  "lease_inv lm \<longleftrightarrow> wf_map lm \<and> (\<forall>i l. map_of lm i = Some l \<longrightarrow> lJobID l = i)"

lemma lease_inv_New [simp, wf_intros]: "lease_inv NewLeaseManager"
  by (simp add: lease_inv_def NewLeaseManager_def)

lemma lease_inv_Acquire [simp, wf_intros]: "lease_inv lm \<Longrightarrow> lease_inv (Acquire now j w t a lm)"
  by (auto simp: lease_inv_def Acquire_def)

lemma lease_inv_Release [simp, wf_intros]: "lease_inv lm \<Longrightarrow> lease_inv (Release j lm)"
  by (auto simp: lease_inv_def Release_def)

lemma lease_inv_Clear [simp, wf_intros]: "lease_inv (Clear lm)"
  by (simp add: lease_inv_def Clear_def)

lemma lease_Get_Acquire:
  "lease_Get i (Acquire now j w t a lm) =
     (if i = j then Some \<lparr>lJobID = j, lWorkerID = w, lTerm = t, lAttempt = a, lStartedAt = now\<rparr>
      else lease_Get i lm)"
  by (simp add: lease_Get_def Acquire_def)

lemma lease_Get_New [simp]: "lease_Get i NewLeaseManager = None"
  by (simp add: lease_Get_def NewLeaseManager_def)

lemma lease_Get_Release: "lease_Get i (Release j lm) = (if i = j then None else lease_Get i lm)"
  by (simp add: lease_Get_def Release_def)

lemma lease_Get_Clear [simp]: "lease_Get i (Clear lm) = None"
  by (simp add: lease_Get_def Clear_def)

section \<open>Releasing the leases of a worker\<close>

lemma release_loop_spec:
  assumes "wf_map es"
  shows "release_loop w es (rs, lm) =
     (rs @ map fst (filter (\<lambda>(i, l). lWorkerID l = w) es), snd (release_loop w es (rs, lm)))
   \<and> map_of (snd (release_loop w es (rs, lm))) i =
       (if \<exists>l. map_of es i = Some l \<and> lWorkerID l = w then None else map_of lm i)
   \<and> (wf_map lm \<longrightarrow> wf_map (snd (release_loop w es (rs, lm))))"
  using assms
proof (induction es arbitrary: rs lm)
  case Nil
  then show ?case by simp
next
  case (Cons e es)
  obtain j l where e: "e = (j, l)" by fastforce
  from Cons.prems e have wf: "wf_map es" and fresh: "map_of es j = None"
    by (auto simp: wf_map_def map_of_eq_None_iff)
  show ?case
  proof (cases "lWorkerID l = w")
    case True
    with e fresh Cons.IH [OF wf, of "rs @ [j]" "mdel j lm"] show ?thesis by auto
  next
    case False
    with e fresh Cons.IH [OF wf, of rs lm] show ?thesis by auto
  qed
qed

lemma ReleaseByWorker_Get:
  assumes "lease_inv lm"
  shows "lease_Get i (snd (ReleaseByWorker ord w lm)) =
     (case lease_Get i lm of
        None \<Rightarrow> None | Some l \<Rightarrow> if lWorkerID l = w then None else Some l)"
  using assms release_loop_spec [of "range_order ord lm" w "[]" lm i]
  by (auto simp: ReleaseByWorker_def lease_Get_def lease_inv_def map_of_range_order
      split: option.splits)

lemma ReleaseByWorker_ids:
  assumes "lease_inv lm"
  shows "i \<in> set (fst (ReleaseByWorker ord w lm)) \<longleftrightarrow>
     (\<exists>l. lease_Get i lm = Some l \<and> lWorkerID l = w)"
proof -
  have wf: "wf_map (range_order ord lm)" using assms by (simp add: lease_inv_def)
  have "fst (ReleaseByWorker ord w lm) = map fst (filter (\<lambda>(i, l). lWorkerID l = w) (range_order ord lm))"
    using release_loop_spec [OF wf, of w "[]" lm] by (metis ReleaseByWorker_def append_Nil fst_conv)
  then show ?thesis
    using assms by (force simp: lease_Get_def lease_inv_def wf_map_mem image_iff)
qed

lemma ReleaseByWorker_distinct:
  assumes "lease_inv lm"
  shows "distinct (fst (ReleaseByWorker ord w lm))"
proof -
  have wf: "wf_map (range_order ord lm)" using assms by (simp add: lease_inv_def)
  have "fst (ReleaseByWorker ord w lm) = map fst (filter (\<lambda>(i, l). lWorkerID l = w) (range_order ord lm))"
    using release_loop_spec [OF wf, of w "[]" lm] by (metis ReleaseByWorker_def append_Nil fst_conv)
  then show ?thesis using wf by (simp add: wf_map_def distinct_map_filter)
qed

lemma lease_inv_ReleaseByWorker [simp, wf_intros]:
  assumes "lease_inv lm"
  shows "lease_inv (snd (ReleaseByWorker ord w lm))"
proof -
  have wf: "wf_map (range_order ord lm)" using assms by (simp add: lease_inv_def)
  have "wf_map (snd (ReleaseByWorker ord w lm))"
    using assms release_loop_spec [OF wf, of w "[]" lm]
    by (simp add: lease_inv_def ReleaseByWorker_def)
  moreover have "lJobID l = i" if "map_of (snd (ReleaseByWorker ord w lm)) i = Some l" for i l
    using that assms ReleaseByWorker_Get [OF assms, of i ord w]
    by (auto simp: lease_Get_def lease_inv_def split: option.splits if_splits)
  ultimately show ?thesis by (simp add: lease_inv_def)
qed

section \<open>Failover of a worker\<close>

text \<open>
  Releasing the leases of a dead worker returns the IDs of exactly the jobs it held,
  each once, removes exactly these leases and keeps every other lease as it was, whatever
  the order in which the map is visited.
\<close>

theorem release_by_worker_exact:
  assumes "lease_inv lm"
  shows "let (released, lm') = ReleaseByWorker ord w lm
    in distinct released \<and>
       set released = {i. \<exists>l. lease_Get i lm = Some l \<and> lWorkerID l = w} \<and>
       (\<forall>i. lease_Get i lm' = (if i \<in> set released then None else lease_Get i lm)) \<and> lease_inv lm'"
proof -
  obtain rel lm' where r: "ReleaseByWorker ord w lm = (rel, lm')" by fastforce
  have "lease_Get i lm' = (if i \<in> set rel then None else lease_Get i lm)" for i
    using ReleaseByWorker_Get [OF assms, of i ord w] ReleaseByWorker_ids [OF assms, of i ord w] r
    by (auto split: option.splits)
  then show ?thesis
    using ReleaseByWorker_distinct [OF assms, of ord w] ReleaseByWorker_ids [OF assms, of _ ord w]
      lease_inv_ReleaseByWorker [OF assms, of ord w] r by (simp add: set_eq_iff)
qed

theorem release_by_worker_exact_witness:
  "let lm = Acquire 7 3 2 1 1 (Acquire 6 2 1 1 1 (Acquire 5 1 2 1 1 NewLeaseManager));
       (released, lm') = ReleaseByWorker [1] 2 lm
   in lease_inv lm \<and> distinct released \<and> set released = {1, 3} \<and> lease_Get 2 lm' \<noteq> None"
proof -
  let ?lm = "Acquire 7 3 2 1 1 (Acquire 6 2 1 1 1 (Acquire 5 1 2 1 1 NewLeaseManager))"
  have "lease_inv ?lm" by simp
  moreover have "{i. \<exists>l. lease_Get i ?lm = Some l \<and> lWorkerID l = 2} = {1, 3}"
    by (auto simp: lease_Get_Acquire split: if_splits)
  moreover have "lease_Get 2 ?lm \<noteq> None" by (simp add: lease_Get_Acquire)
  ultimately show ?thesis
    using release_by_worker_exact [of ?lm "[1]" 2] by (auto simp: Let_def split: prod.splits)
qed

end
