(* ===== verification/Retry_Policy.thy ===== *)
theory Retry_Policy
  imports Job_Model
begin

text \<open>
  The retry policy (\<open>src/internal/retry/policy.go\<close>). Shifting by a negative count
  panics in Go, which is \<open>None\<close>; the shift and the product are 64-bit signed and wrap.
\<close>

definition ShouldRetry :: "job \<Rightarrow> bool" where
  "ShouldRetry j \<longleftrightarrow> RetryCount j < MaxRetries j"

definition Backoff :: "job \<Rightarrow> duration \<Rightarrow> duration option" where
  "Backoff j maxBackoff =
     (if RetryCount j < 0 then None
      else let delay = wrap64 (Second * wrap64 (2 ^ nat (RetryCount j)))
           in Some (if delay > maxBackoff then maxBackoff else delay))"

definition NextRetryTime :: "job \<Rightarrow> duration \<Rightarrow> time \<Rightarrow> time option" where
  "NextRetryTime j maxBackoff now = map_option (\<lambda>d. now + d) (Backoff j maxBackoff)"

text \<open>The intended delay: \<open>2 ^ n\<close> seconds, at most the configured maximum.\<close>

definition backoff_spec :: "nat \<Rightarrow> duration \<Rightarrow> duration" where
  "backoff_spec n maxBackoff = min (Second * 2 ^ n) maxBackoff"

lemma pow2_le_33: "n \<le> 33 \<Longrightarrow> (2 :: int) ^ n \<le> 2 ^ 33"
  by (rule power_increasing) simp_all

lemma Backoff_exact:
  assumes "0 \<le> RetryCount j" and "RetryCount j \<le> 33"
  shows "Backoff j m = Some (backoff_spec (nat (RetryCount j)) m)"
proof -
  define p where "p = (2 :: int) ^ nat (RetryCount j)"
  have "1 \<le> p" "p \<le> 2 ^ 33"
    using assms pow2_le_33 [of "nat (RetryCount j)"] by (simp_all add: p_def)
  then have "in_int64 p" and "in_int64 (Second * p)"
    by (simp_all add: in_int64_def Second_def)
  then show ?thesis using assms
    by (simp add: Backoff_def backoff_spec_def min_def Let_def p_def [symmetric])
qed

lemma backoff_spec_bounds: "0 < m \<Longrightarrow> 0 < backoff_spec n m \<and> backoff_spec n m \<le> m"
  by (simp add: backoff_spec_def Second_def)

lemma NextRetryTime_future:
  assumes "0 \<le> RetryCount j" "RetryCount j \<le> 33" "0 < m"
  shows "\<exists>t. NextRetryTime j m now = Some t \<and> now < t \<and> t \<le> now + m"
  using Backoff_exact [OF assms(1,2), of m] backoff_spec_bounds [OF assms(3)]
  by (auto simp: NextRetryTime_def)

lemma Backoff_34:
  assumes "RetryCount j = 34" and "0 \<le> m"
  shows "Backoff j m = Some (- 1266874889709551616)"
  using assms by (simp add: Backoff_def wrap64_def Second_def Let_def)

lemma Backoff_monotone:
  assumes "0 \<le> RetryCount i" "RetryCount i \<le> RetryCount j" "RetryCount j \<le> 33"
  shows "the (Backoff i m) \<le> the (Backoff j m)"
proof -
  have "(2 :: int) ^ nat (RetryCount i) \<le> 2 ^ nat (RetryCount j)"
    using assms by (intro power_increasing) (auto simp: nat_mono)
  then have "Second * 2 ^ nat (RetryCount i) \<le> Second * 2 ^ nat (RetryCount j)"
    by (rule mult_left_mono) (simp add: Second_def)
  then have "backoff_spec (nat (RetryCount i)) m \<le> backoff_spec (nat (RetryCount j)) m"
    unfolding backoff_spec_def by (rule min.mono) simp
  then show ?thesis
    using assms Backoff_exact [of i m] Backoff_exact [of j m] by simp
qed

section \<open>The delay before a retry\<close>

text \<open>
  C30. For up to 33 earlier retries the next attempt is due after \<open>2 ^ n\<close> seconds, or
  after the maximal backoff when that is shorter; the computation neither panics nor wraps.
\<close>

theorem next_retry_time_exact:
  assumes "0 \<le> RetryCount j" "RetryCount j \<le> 33"
  shows "NextRetryTime j maxBackoff now = Some (now + min (Second * 2 ^ nat (RetryCount j)) maxBackoff)"
  using Backoff_exact [OF assms] by (simp add: NextRetryTime_def backoff_spec_def)

theorem next_retry_time_exact_witness:
  "NextRetryTime (zero_job\<lparr>RetryCount := 3\<rparr>) Minute 100 = Some (100 + 8 * Second)"
  using next_retry_time_exact [of "zero_job\<lparr>RetryCount := 3\<rparr>" Minute 100] by (simp add: duration_defs)

text \<open>
  The product of the backoff wraps: at 34 earlier retries the delay is negative
  whatever the maximal backoff, so the next attempt would be due in the past, although the
  code means the delay to be capped by \<open>maxBackoff\<close>.
\<close>

theorem backoff_wraps_at_34:
  assumes "RetryCount j = 34" "0 \<le> maxBackoff"
  shows "\<exists>t. NextRetryTime j maxBackoff now = Some t \<and> t < now"
  using Backoff_34 [OF assms] by (simp add: NextRetryTime_def)

theorem backoff_wraps_at_34_witness:
  "\<exists>t. NextRetryTime (zero_job\<lparr>RetryCount := 34\<rparr>) Minute 0 = Some t \<and> t < 0"
  using backoff_wraps_at_34 [of "zero_job\<lparr>RetryCount := 34\<rparr>" Minute 0] by (simp add: duration_defs)

end
