(* ===== verification/Cron_Model.thy ===== *)
theory Cron_Model
  imports Job_Model "HOL-Library.List_Lexorder" "HOL-Library.Char_ord"
begin

text \<open>
  Recurring jobs (\<open>src/internal/cron/cron.go\<close>): the validation of a cron job, the next
  run of a schedule, and one tick of the scheduler loop. A time zone is its fixed offset
  from UTC in nanoseconds, so zone changes within the year are left out; \<open>now\<close> is the
  reading of the clock.
\<close>

record cron_job =
  cID :: string
  cSchedule :: string
  cType :: string
  cPriority :: int
  cNextRun :: time

type_synonym cron_scheduler = "(string, cron_job) gomap"

definition cron_New :: cron_scheduler where
  "cron_New = []"

section \<open>The next run of a schedule\<close>

definition nextRun :: "duration \<Rightarrow> string \<Rightarrow> time \<Rightarrow> time" where
  "nextRun off schedule from =
     (let schedule = TrimSpace schedule;
          fromMin = from - from mod Minute
      in if schedule = ''* * * * *'' then fromMin + Minute
         else if HasPrefix schedule ''*/'' then
           let fields = Fields schedule
           in if length fields \<noteq> 5 then 0
              else case Atoi (TrimPrefix (fields ! 0) ''*/'') of
                     Inl _ \<Rightarrow> 0
                   | Inr interval \<Rightarrow>
                       if interval \<le> 0 then 0
                       else let local_time = fromMin + off;
                                hour_start = local_time - local_time mod Hour;
                                currentMin = local_time mod Hour div Minute;
                                nextMin = wrap64 ((currentMin div interval + 1) * interval)
                            in if nextMin \<ge> 60 then hour_start + Hour - off
                               else hour_start + nextMin * Minute - off
         else 0)"

text \<open>
  The instants a schedule \<open>*/n * * * *\<close> stands for: full minutes of the local clock whose
  minute of the hour is a multiple of \<open>n\<close>.
\<close>

definition aligned :: "duration \<Rightarrow> int \<Rightarrow> time \<Rightarrow> bool" where
  "aligned off n t \<longleftrightarrow> (t + off) mod Minute = 0 \<and> ((t + off) mod Hour div Minute) mod n = 0"

lemma next_multiple:
  assumes "0 < (n :: int)" "0 \<le> c"
  shows "c < (c div n + 1) * n" "(c div n + 1) * n \<le> c + n"
    and "\<And>m. c < m \<Longrightarrow> m mod n = 0 \<Longrightarrow> (c div n + 1) * n \<le> m"
proof -
  have c: "c = c div n * n + c mod n" and r: "0 \<le> c mod n" "c mod n < n"
    using assms by simp_all
  have e: "(c div n + 1) * n = c div n * n + n" by (simp add: distrib_right)
  show "c < (c div n + 1) * n" "(c div n + 1) * n \<le> c + n"
    using c r e by linarith+
  fix m assume m: "c < m" "m mod n = 0"
  then have "m = m div n * n" by (metis add.right_neutral div_mult_mod_eq)
  moreover have "c div n < m div n"
  proof (rule ccontr)
    assume "\<not> c div n < m div n"
    then have "m div n * n \<le> c div n * n" using assms(1) by simp
    then show False using c r m(1) \<open>m = m div n * n\<close> by linarith
  qed
  ultimately show "(c div n + 1) * n \<le> m"
    using assms(1) by (metis mult_right_mono zless_imp_add1_zle less_imp_le)
qed

definition next_aligned :: "duration \<Rightarrow> int \<Rightarrow> time \<Rightarrow> time" where
  "next_aligned off n from =
     (let local_time = from - from mod Minute + off;
          hour_start = local_time - local_time mod Hour;
          nextMin = (local_time mod Hour div Minute div n + 1) * n
      in if nextMin \<ge> 60 then hour_start + Hour - off else hour_start + nextMin * Minute - off)"

lemma nextRun_every_n:
  assumes "TrimSpace schedule = s" "HasPrefix s ''*/''" "length (Fields s) = 5"
    and "Atoi (TrimPrefix (Fields s ! 0) ''*/'') = Inr n" "0 < n"
  shows "nextRun off schedule from = next_aligned off n from"
proof -
  define c where "c = (from - from mod Minute + off) mod Hour div Minute"
  have c: "0 \<le> c" "c < 60" by (simp_all add: c_def Hour_def Minute_def)
  have "s \<noteq> ''* * * * *''" using assms(2) by auto
  moreover have "in_int64 ((c div n + 1) * n)"
  proof (cases "n < 60")
    case True
    then show ?thesis using next_multiple(1,2) [of n c] assms(5) c by (simp add: in_int64_def)
  next
    case False
    then show ?thesis using Atoi_range [OF assms(4)] c by simp
  qed
  ultimately show ?thesis
    using assms by (simp add: nextRun_def next_aligned_def Let_def c_def [symmetric])
qed

text \<open>
  \<open>next_aligned\<close> is the first aligned instant after \<open>from\<close>, for every zone whose offset
  is a whole number of minutes.
\<close>

lemma next_aligned_first:
  fixes "from" :: time
  assumes n: "0 < n" and off: "off mod Minute = 0"
  defines "t \<equiv> next_aligned off n from"
  shows "from < t" and "aligned off n t" and "t \<le> from + Hour"
    and "\<And>u. from < u \<Longrightarrow> aligned off n u \<Longrightarrow> t \<le> u"
proof -
  define l where "l = from - from mod Minute + off"
  define c where "c = l mod Hour div Minute"
  define m where "m = (c div n + 1) * n"
  define h where "h = l - l mod Hour"
  have lm: "l mod Minute = 0" using off by (simp add: l_def mod_add_eq [symmetric])
  have c: "0 \<le> c" "c < 60" by (simp_all add: c_def Hour_def Minute_def)
  have l: "l = h + c * Minute"
  proof -
    have "l mod Hour mod Minute = 0"
      using lm mod_mod_cancel [of Minute Hour l] by (simp add: Hour_def Minute_def)
    then have "l mod Hour = c * Minute" by (metis add.right_neutral c_def div_mult_mod_eq)
    then show ?thesis by (simp add: h_def)
  qed
  have hH: "h mod Hour = 0" by (simp add: h_def)
  have m: "c < m" using next_multiple [OF n c(1)] by (simp add: m_def)
  have t: "t = (if m \<ge> 60 then h + Hour - off else h + m * Minute - off)"
    by (simp add: t_def next_aligned_def Let_def l_def [symmetric] c_def [symmetric]
        h_def [symmetric] m_def [symmetric])
  have from1: "from < l - off + Minute" "l - off \<le> from"
    by (simp_all add: l_def Minute_def)
  have tge: "l + Minute \<le> t + off"
    using t l m c by (simp add: Hour_def Minute_def)
  then show "from < t" using from1 by linarith
  show "t \<le> from + Hour" using from1 t l c by (simp add: Hour_def Minute_def)
  have hM: "h mod Minute = 0"
    using hH mod_mod_cancel [of Minute Hour h] by (simp add: Hour_def Minute_def)
  show "aligned off n t"
  proof (cases "m \<ge> 60")
    case True
    then have "t + off = h + Hour" using t by simp
    then show ?thesis using hH hM by (simp add: aligned_def mod_add_eq [symmetric] Hour_def Minute_def)
  next
    case False
    then have e: "t + off = h + m * Minute" using t by simp
    have "(h + m * Minute) mod Hour = m * Minute"
      using hH False m c by (simp add: mod_add_eq [symmetric] Hour_def Minute_def)
    moreover have "(h + m * Minute) mod Minute = 0" using hM by simp
    ultimately show ?thesis using e by (simp add: aligned_def m_def Minute_def)
  qed
  fix u assume u: "from < u" "aligned off n u"
  show "t \<le> u"
  proof (rule ccontr)
    assume "\<not> t \<le> u"
    then have ut: "u + off < t + off" by simp
    define k where "k = (u + off - h) div Minute"
    have "(u + off - h) mod Minute = 0"
      using u(2) hM by (simp add: aligned_def mod_diff_eq [symmetric])
    then have k: "u + off = h + k * Minute" by (metis add.commute add.right_neutral diff_add_cancel div_mult_mod_eq k_def)
    have "l < u + off" using from1 u(1) by linarith
    then have ck: "c < k" using k l by (simp add: Minute_def)
    have km: "k < 60" "k < m" using ut t k by (auto simp: Hour_def Minute_def split: if_splits)
    have "(u + off) mod Hour = k * Minute"
      using k hH ck km c by (simp add: mod_add_eq [symmetric] Hour_def Minute_def)
    then have "k mod n = 0" using u(2) by (simp add: aligned_def Minute_def)
    then show False using next_multiple(3) [OF n c(1) ck] km by (simp add: m_def)
  qed
qed

lemma nextRun_every_minute:
  assumes "TrimSpace schedule = ''* * * * *''"
  shows "nextRun off schedule from = from - from mod Minute + Minute"
  using assms by (simp add: nextRun_def)

text \<open>The schedules that \<open>nextRun\<close> accepts, with the interval they stand for.\<close>

definition schedule_interval :: "string \<Rightarrow> int option" where
  "schedule_interval schedule =
     (let s = TrimSpace schedule
      in if s = ''* * * * *'' then Some 1
         else if HasPrefix s ''*/'' \<and> length (Fields s) = 5 then
           (case Atoi (TrimPrefix (Fields s ! 0) ''*/'') of
              Inl _ \<Rightarrow> None | Inr n \<Rightarrow> if n \<le> 0 then None else Some n)
         else None)"

lemma nextRun_unsupported: "schedule_interval s = None \<Longrightarrow> nextRun off s from = 0"
  by (auto simp: nextRun_def schedule_interval_def Let_def split: if_splits sum.splits)

lemma nextRun_supported:
  assumes "schedule_interval s = Some n"
  shows "0 < n" and "s' = TrimSpace s \<Longrightarrow> s' \<noteq> ''* * * * *'' \<Longrightarrow> nextRun off s from = next_aligned off n from"
proof -
  show "0 < n"
    using assms by (auto simp: schedule_interval_def Let_def split: if_splits sum.splits)
  show "nextRun off s from = next_aligned off n from" if "s' = TrimSpace s" "s' \<noteq> ''* * * * *''"
    using assms that
    by (intro nextRun_every_n [of s s'])
      (auto simp: schedule_interval_def Let_def split: if_splits sum.splits)
qed

lemma nextRun_later:
  assumes "schedule_interval s = Some n" "off mod Minute = 0"
  shows "from < nextRun off s from" and "nextRun off s from \<le> from + Hour"
proof -
  have "from < nextRun off s from \<and> nextRun off s from \<le> from + Hour"
  proof (cases "TrimSpace s = ''* * * * *''")
    case True
    then show ?thesis by (simp add: nextRun_every_minute Minute_def Hour_def)
  next
    case False
    then show ?thesis
      using nextRun_supported(1) [OF assms(1)] nextRun_supported(2) [OF assms(1) refl False]
        next_aligned_first(1,3) [of n off "from"] assms(2) by simp
  qed
  then show "from < nextRun off s from" "nextRun off s from \<le> from + Hour" by simp_all
qed

section \<open>The cron scheduler\<close>

definition cron_Add :: "duration \<Rightarrow> time \<Rightarrow> cron_job \<Rightarrow> cron_scheduler \<Rightarrow> error option \<times> cron_scheduler" where
  "cron_Add off now j s =
     (if TrimSpace (cID j) = [] then (Some ECronID, s)
      else if TrimSpace (cType j) = [] then (Some ECronType, s)
      else if cPriority j < 0 then (Some ECronPriority, s)
      else let nxt = nextRun off (cSchedule j) now
           in if nxt = 0 then (Some ECronSchedule, s)
              else if map_of s (cID j) \<noteq> None then (Some ECronExists, s)
              else (None, mput (cID j) (j\<lparr>cNextRun := nxt\<rparr>) s))"

definition cron_Remove :: "string \<Rightarrow> cron_scheduler \<Rightarrow> cron_scheduler" where
  "cron_Remove i s = mdel i s"

definition cron_List :: "order_choice \<Rightarrow> cron_scheduler \<Rightarrow> cron_job list" where
  "cron_List ord s = sort_key cID (map snd (range_order ord s))"

text \<open>
  One tick: under the lock, every job whose next run has come is moved to its following
  run and copied to the list of due jobs; the caller submits these.
\<close>

fun tick_loop :: "duration \<Rightarrow> time \<Rightarrow> (string \<times> cron_job) list \<Rightarrow> cron_job list \<times> cron_scheduler \<Rightarrow> cron_job list \<times> cron_scheduler" where
  "tick_loop off now [] (due, s) = (due, s)"
| "tick_loop off now ((k, cj) # es) (due, s) =
     (if now < cNextRun cj then tick_loop off now es (due, s)
      else let cj' = cj\<lparr>cNextRun := nextRun off (cSchedule cj) (cNextRun cj)\<rparr>
           in tick_loop off now es (due @ [cj'], mput k cj' s))"

definition cron_tick :: "duration \<Rightarrow> order_choice \<Rightarrow> time \<Rightarrow> cron_scheduler \<Rightarrow> cron_job list \<times> cron_scheduler" where
  "cron_tick off ord now s = tick_loop off now (range_order ord s) ([], s)"

text \<open>Every scheduled job is valid and stored under its own ID.\<close>

definition cron_inv :: "cron_scheduler \<Rightarrow> bool" where
  "cron_inv s \<longleftrightarrow> wf_map s \<and> (\<forall>k c. map_of s k = Some c \<longrightarrow>
     cID c = k \<and> TrimSpace (cID c) \<noteq> [] \<and> TrimSpace (cType c) \<noteq> [] \<and> 0 \<le> cPriority c \<and>
     schedule_interval (cSchedule c) \<noteq> None)"

lemma cron_inv_New [simp, wf_intros]: "cron_inv cron_New"
  by (simp add: cron_inv_def cron_New_def)

lemma cron_inv_Add [wf_intros]: "cron_inv s \<Longrightarrow> cron_inv (snd (cron_Add off now j s))"
  using nextRun_unsupported [of "cSchedule j" off now]
  by (auto simp: cron_inv_def cron_Add_def Let_def)

lemma cron_inv_Remove [wf_intros]: "cron_inv s \<Longrightarrow> cron_inv (cron_Remove i s)"
  by (auto simp: cron_inv_def cron_Remove_def)

lemma cron_Add_error: "fst (cron_Add off now j s) = Some e \<Longrightarrow> snd (cron_Add off now j s) = s"
  by (auto simp: cron_Add_def Let_def split: if_splits)

text \<open>The effect of a tick on one entry.\<close>

definition advance :: "duration \<Rightarrow> time \<Rightarrow> cron_job \<Rightarrow> cron_job" where
  "advance off now c =
     (if now < cNextRun c then c else c\<lparr>cNextRun := nextRun off (cSchedule c) (cNextRun c)\<rparr>)"

lemma tick_loop_spec:
  assumes "wf_map es"
  shows "fst (tick_loop off now es (due, s)) =
      due @ map (advance off now \<circ> snd) (filter (\<lambda>(k, c). cNextRun c \<le> now) es)
    \<and> map_of (snd (tick_loop off now es (due, s))) k =
      (case map_of es k of Some c \<Rightarrow> if cNextRun c \<le> now then Some (advance off now c) else map_of s k
       | None \<Rightarrow> map_of s k)
    \<and> (wf_map s \<longrightarrow> wf_map (snd (tick_loop off now es (due, s))))"
  using assms
proof (induction es arbitrary: due s)
  case (Cons e es)
  obtain j c where e: "e = (j, c)" by fastforce
  from Cons.prems e have wf: "wf_map es" and fresh: "map_of es j = None"
    by (auto simp: wf_map_def map_of_eq_None_iff)
  show ?case
  proof (cases "now < cNextRun c")
    case True
    with e fresh Cons.IH [OF wf, of due s] show ?thesis by (auto split: option.splits)
  next
    case False
    let ?c = "c\<lparr>cNextRun := nextRun off (cSchedule c) (cNextRun c)\<rparr>"
    from False e fresh Cons.IH [OF wf, of "due @ [?c]" "mput j ?c s"] show ?thesis
      by (auto simp: Let_def advance_def split: option.splits)
  qed
qed simp

lemma cron_tick_lookup:
  assumes "cron_inv s"
  shows "map_of (snd (cron_tick off ord now s)) k = map_option (advance off now) (map_of s k)"
  using assms tick_loop_spec [of "range_order ord s" off now "[]" s k]
  by (auto simp: cron_tick_def cron_inv_def map_of_range_order advance_def split: option.splits)

lemma cron_tick_due:
  assumes "cron_inv s"
  shows "mset (fst (cron_tick off ord now s)) =
    image_mset (advance off now \<circ> snd) (filter_mset (\<lambda>(k, c). cNextRun c \<le> now) (mset s))"
proof -
  have "fst (cron_tick off ord now s) =
      map (advance off now \<circ> snd) (filter (\<lambda>(k, c). cNextRun c \<le> now) (range_order ord s))"
    using assms tick_loop_spec [of "range_order ord s" off now "[]" s]
    by (simp add: cron_tick_def cron_inv_def)
  then show ?thesis by simp
qed

lemma cron_inv_tick [wf_intros]:
  assumes "cron_inv s"
  shows "cron_inv (snd (cron_tick off ord now s))"
proof -
  have "wf_map (snd (cron_tick off ord now s))"
    using assms tick_loop_spec [of "range_order ord s" off now "[]" s]
    by (simp add: cron_tick_def cron_inv_def)
  then show ?thesis
    using assms by (fastforce simp: cron_inv_def cron_tick_lookup [OF assms] advance_def)
qed

section \<open>Properties\<close>

lemma every_minute_first:
  assumes "off mod Minute = 0"
  shows "from < from - from mod Minute + Minute" "aligned off 1 (from - from mod Minute + Minute)"
    "\<And>u. from < u \<Longrightarrow> aligned off 1 u \<Longrightarrow> from - from mod Minute + Minute \<le> u"
proof -
  have m: "0 \<le> from mod Minute" "from mod Minute < Minute" by (simp_all add: Minute_def)
  then show "from < from - from mod Minute + Minute" by linarith
  have "(from - from mod Minute + Minute) mod Minute = 0"
    by (simp add: mod_add_eq [symmetric] mod_diff_left_eq [symmetric])
  then show "aligned off 1 (from - from mod Minute + Minute)"
    using assms mod_add_eq [of "from - from mod Minute + Minute" Minute off] by (simp add: aligned_def)
  fix u assume u: "from < u" "aligned off 1 u"
  have "(u + off) mod Minute = u mod Minute"
    using assms mod_add_right_eq [of u off Minute] by simp
  then have "u mod Minute = 0" using u(2) by (simp add: aligned_def)
  then have u': "u div Minute * Minute = u" using div_mult_mod_eq [of u Minute] by simp
  have f': "from div Minute * Minute + from mod Minute = from" by (rule div_mult_mod_eq)
  have "from div Minute * Minute < u div Minute * Minute" using u' f' u(1) m by linarith
  then have "from div Minute + 1 \<le> u div Minute" by (simp add: Minute_def)
  then have "(from div Minute + 1) * Minute \<le> u div Minute * Minute" by (simp add: Minute_def)
  then have "from div Minute * Minute + Minute \<le> u" using u' by (simp add: distrib_right)
  then show "from - from mod Minute + Minute \<le> u" using f' by linarith
qed

text \<open>
  C24. For a supported schedule (every minute, or every \<open>n\<close> minutes), in a zone whose
  offset is a whole number of minutes, the next run is the first instant after \<open>from\<close> that
  falls on a minute of the hour divisible by \<open>n\<close>.
\<close>

theorem next_run_is_first_aligned:
  assumes "schedule_interval s = Some n" "off mod Minute = 0"
  shows "from < nextRun off s from \<and> aligned off n (nextRun off s from) \<and>
    (\<forall>u. from < u \<longrightarrow> aligned off n u \<longrightarrow> nextRun off s from \<le> u)"
proof (cases "TrimSpace s = ''* * * * *''")
  case True
  then have "n = 1" using assms(1) by (simp add: schedule_interval_def)
  then show ?thesis using True every_minute_first [OF assms(2), of "from"] by (simp add: nextRun_every_minute)
next
  case False
  then show ?thesis
    using nextRun_supported(1) [OF assms(1)] nextRun_supported(2) [OF assms(1) refl False]
      next_aligned_first [of n off "from"] assms(2) by simp
qed

theorem next_run_is_first_aligned_witness:
  "schedule_interval ''*/15 * * * *'' = Some 15 \<and>
   aligned 0 15 (nextRun 0 ''*/15 * * * *'' (7 * Minute + 3)) \<and> nextRun 0 ''*/15 * * * *'' (7 * Minute + 3) \<le> 15 * Minute"
proof -
  have h: "schedule_interval ''*/15 * * * *'' = Some 15" by code_simp
  have "aligned 0 15 (15 * Minute)" by (simp add: aligned_def duration_defs)
  then show ?thesis
    using h next_run_is_first_aligned [OF h, of 0 "7 * Minute + 3"] by (simp add: duration_defs)
qed



end
