(* ===== verification/Store_Spec.thy ===== *)
theory Store_Spec
  imports Cron_Model
begin

text \<open>
  The storage interface (\<open>src/internal/store/store.go\<close>). A Go interface value is a record
  of its methods over the type \<open>'s\<close> of the backend's state; the clients (scheduler,
  engine, consensus) take such a record as an argument, as they take the interface in the
  source. What they rely on is stated twice: as operations on an abstract store
  (\<open>astore\<close>, three finite maps) and as the locale \<open>job_store\<close>, which says that a backend
  refines them.
\<close>

section \<open>The interface\<close>

record 's store_ops =
  st_Add :: "job \<Rightarrow> 's \<Rightarrow> error option \<times> 's"
  st_Get :: "'s \<Rightarrow> int \<Rightarrow> job option"
  st_List :: "order_choice \<Rightarrow> 's \<Rightarrow> job list"
  st_ListByStatus :: "order_choice \<Rightarrow> status \<Rightarrow> 's \<Rightarrow> error + job list"
  st_Update :: "job \<Rightarrow> 's \<Rightarrow> error option \<times> 's"
  st_Delete :: "int \<Rightarrow> 's \<Rightarrow> (bool \<times> error option) \<times> 's"
  st_Cancel :: "int \<Rightarrow> 's \<Rightarrow> error option \<times> 's"
  st_AddCron :: "cron_job \<Rightarrow> 's \<Rightarrow> error option \<times> 's"
  st_DeleteCron :: "string \<Rightarrow> 's \<Rightarrow> (bool \<times> error option) \<times> 's"
  st_ListCrons :: "order_choice \<Rightarrow> 's \<Rightarrow> error + cron_job list"
  st_AddDLQ :: "job \<Rightarrow> 's \<Rightarrow> error option \<times> 's"
  st_ListDLQ :: "order_choice \<Rightarrow> 's \<Rightarrow> error + job list"
  st_FindByIdempotencyKey :: "string \<Rightarrow> 's \<Rightarrow> job option"

section \<open>The abstract store\<close>

record astore =
  aJobs :: "int \<Rightarrow> job option"
  aDLQ :: "int \<Rightarrow> job option"
  aCrons :: "string \<Rightarrow> cron_job option"

definition aPut :: "job \<Rightarrow> astore \<Rightarrow> astore" where
  "aPut j a = a\<lparr>aJobs := (aJobs a)(ID j \<mapsto> j)\<rparr>"

definition aUpdate :: "job \<Rightarrow> astore \<Rightarrow> astore option" where
  "aUpdate j a =
     (case aJobs a (ID j) of
        None \<Rightarrow> None
      | Some old \<Rightarrow> if IsValidTransition (Status old) (Status j) then Some (aPut j a) else None)"

definition aCancel :: "int \<Rightarrow> astore \<Rightarrow> astore option" where
  "aCancel i a =
     (case aJobs a i of
        None \<Rightarrow> None
      | Some j \<Rightarrow> if terminal (Status j) then None else Some (aPut (j\<lparr>Status := Cancelled\<rparr>) a))"

definition aDelete :: "int \<Rightarrow> astore \<Rightarrow> astore" where
  "aDelete i a = a\<lparr>aJobs := (aJobs a)(i := None)\<rparr>"

text \<open>
  Well-formed contents: every job is stored under its own ID, a Go \<open>int\<close>, and no two jobs carry the
  same non-empty idempotency key.
\<close>

definition aInv :: "astore \<Rightarrow> bool" where
  "aInv a \<longleftrightarrow> (\<forall>i j. aJobs a i = Some j \<longrightarrow> ID j = i \<and> in_int64 i) \<and>
     (\<forall>i j i' j'. aJobs a i = Some j \<longrightarrow> aJobs a i' = Some j' \<longrightarrow>
        IdempotencyKey j = IdempotencyKey j' \<longrightarrow> IdempotencyKey j \<noteq> [] \<longrightarrow> i = i')"

text \<open>A job can be added to a well-formed store when its ID, a Go \<open>int\<close>, and its key are new.\<close>

definition aFresh :: "job \<Rightarrow> astore \<Rightarrow> bool" where
  "aFresh j a \<longleftrightarrow> in_int64 (ID j) \<and> aJobs a (ID j) = None \<and>
     (\<forall>i j'. aJobs a i = Some j' \<longrightarrow> IdempotencyKey j \<noteq> [] \<longrightarrow> IdempotencyKey j' \<noteq> IdempotencyKey j)"

text \<open>An update keeps the index of the keys when it keeps the key.\<close>

definition aSameKey :: "job \<Rightarrow> astore \<Rightarrow> bool" where
  "aSameKey j a \<longleftrightarrow> (\<forall>old. aJobs a (ID j) = Some old \<longrightarrow> IdempotencyKey old = IdempotencyKey j)"

lemma aInv_put_fresh: "aInv a \<Longrightarrow> aFresh j a \<Longrightarrow> aInv (aPut j a)"
  unfolding aInv_def aFresh_def aPut_def by (simp, metis)

lemma aInv_put_same:
  "aInv a \<Longrightarrow> aJobs a (ID j) = Some old \<Longrightarrow> IdempotencyKey old = IdempotencyKey j \<Longrightarrow> aInv (aPut j a)"
  unfolding aInv_def aPut_def by (simp, metis)

lemma aInv_delete: "aInv a \<Longrightarrow> aInv (aDelete i a)"
  by (auto simp: aInv_def aDelete_def)

lemma aInv_update: "aInv a \<Longrightarrow> aSameKey j a \<Longrightarrow> aUpdate j a = Some a' \<Longrightarrow> aInv a'"
  by (auto simp: aUpdate_def aSameKey_def intro: aInv_put_same split: option.splits if_splits)

lemma aInv_cancel:
  assumes "aInv a" "aCancel i a = Some a'"
  shows "aInv a'"
proof -
  obtain j where "aJobs a i = Some j" "a' = aPut (j\<lparr>Status := Cancelled\<rparr>) a"
    using assms(2) by (auto simp: aCancel_def split: option.splits if_splits)
  moreover from this have "ID j = i" using assms(1) by (simp add: aInv_def)
  ultimately show ?thesis using aInv_put_same [OF assms(1), of "j\<lparr>Status := Cancelled\<rparr>" j] by simp
qed

definition named :: "status \<Rightarrow> bool" where
  "named st \<longleftrightarrow> st \<in> {Pending, Scheduled, Completed, Failed, Cancelled}"

section \<open>Sequences of calls\<close>

text \<open>
  The calls that change a store, their execution on a backend (with whether they were
  accepted) and their effect on the abstract store (\<open>None\<close>: rejected). \<open>call_ok\<close> is what a
  caller must respect for the index of the idempotency keys to stay exact.
\<close>

datatype store_call =
    CallAdd job | CallUpdate job | CallDelete int | CallCancel int
  | CallAddDLQ job | CallAddCron cron_job | CallDeleteCron string

fun run_call :: "'s store_ops \<Rightarrow> store_call \<Rightarrow> 's \<Rightarrow> bool \<times> 's" where
  "run_call so (CallAdd j) s = (let (e, s') = st_Add so j s in (e = None, s'))"
| "run_call so (CallUpdate j) s = (let (e, s') = st_Update so j s in (e = None, s'))"
| "run_call so (CallDelete i) s = (let ((_, e), s') = st_Delete so i s in (e = None, s'))"
| "run_call so (CallCancel i) s = (let (e, s') = st_Cancel so i s in (e = None, s'))"
| "run_call so (CallAddDLQ j) s = (let (e, s') = st_AddDLQ so j s in (e = None, s'))"
| "run_call so (CallAddCron c) s = (let (e, s') = st_AddCron so c s in (e = None, s'))"
| "run_call so (CallDeleteCron k) s = (let ((_, e), s') = st_DeleteCron so k s in (e = None, s'))"

fun acall :: "store_call \<Rightarrow> astore \<Rightarrow> astore option" where
  "acall (CallAdd j) a = (if aJobs a (ID j) = None then Some (aPut j a) else None)"
| "acall (CallUpdate j) a = aUpdate j a"
| "acall (CallDelete i) a = Some (aDelete i a)"
| "acall (CallCancel i) a = aCancel i a"
| "acall (CallAddDLQ j) a = Some (a\<lparr>aDLQ := (aDLQ a)(ID j \<mapsto> j)\<rparr>)"
| "acall (CallAddCron c) a = Some (a\<lparr>aCrons := (aCrons a)(cID c \<mapsto> c)\<rparr>)"
| "acall (CallDeleteCron k) a = Some (a\<lparr>aCrons := (aCrons a)(k := None)\<rparr>)"

fun call_ok :: "store_call \<Rightarrow> astore \<Rightarrow> bool" where
  "call_ok (CallAdd j) a \<longleftrightarrow> aFresh j a"
| "call_ok (CallUpdate j) a \<longleftrightarrow> aSameKey j a"
| "call_ok _ a \<longleftrightarrow> True"

definition acall_total :: "store_call \<Rightarrow> astore \<Rightarrow> astore" where
  "acall_total c a = (case acall c a of None \<Rightarrow> a | Some a' \<Rightarrow> a')"

fun calls_ok :: "store_call list \<Rightarrow> astore \<Rightarrow> bool" where
  "calls_ok [] a \<longleftrightarrow> True"
| "calls_ok (c # cs) a \<longleftrightarrow> call_ok c a \<and> calls_ok cs (acall_total c a)"

definition run_calls :: "'s store_ops \<Rightarrow> store_call list \<Rightarrow> 's \<Rightarrow> 's" where
  "run_calls so cs s = fold (\<lambda>c s. snd (run_call so c s)) cs s"

section \<open>The contract of a backend\<close>

locale job_store =
  fixes so :: "'s store_ops"
    and inv :: "'s \<Rightarrow> bool"
    and abs :: "'s \<Rightarrow> astore"
  assumes inv_abs: "inv s \<Longrightarrow> aInv (abs s)"
    and Get_abs: "inv s \<Longrightarrow> st_Get so s = aJobs (abs s)"
    and List_abs: "inv s \<Longrightarrow> set (st_List so ord s) = ran (aJobs (abs s))"
    and ListByStatus_abs: "inv s \<Longrightarrow> named st \<Longrightarrow> st_ListByStatus so ord st s = Inr js \<Longrightarrow>
      distinct (map ID js) \<and> set js = {j \<in> ran (aJobs (abs s)). Status j = st}"
    and Add_err: "inv s \<Longrightarrow> st_Add so j s = (Some e, s') \<Longrightarrow> s' = s"
    and Add_ok: "inv s \<Longrightarrow> aFresh j (abs s) \<Longrightarrow> st_Add so j s = (None, s') \<Longrightarrow>
      inv s' \<and> abs s' = aPut j (abs s)"
    and Update_err: "inv s \<Longrightarrow> st_Update so j s = (Some e, s') \<Longrightarrow> s' = s"
    and Update_ok: "inv s \<Longrightarrow> st_Update so j s = (None, s') \<Longrightarrow> aUpdate j (abs s) = Some (abs s')"
    and Update_inv: "inv s \<Longrightarrow> aSameKey j (abs s) \<Longrightarrow> st_Update so j s = (None, s') \<Longrightarrow> inv s'"
    and Cancel_err: "inv s \<Longrightarrow> st_Cancel so i s = (Some e, s') \<Longrightarrow> s' = s"
    and Cancel_ok: "inv s \<Longrightarrow> st_Cancel so i s = (None, s') \<Longrightarrow>
      inv s' \<and> aCancel i (abs s) = Some (abs s')"
    and Delete_err: "inv s \<Longrightarrow> st_Delete so i s = ((b, Some e), s') \<Longrightarrow> s' = s"
    and Delete_ok: "inv s \<Longrightarrow> st_Delete so i s = ((b, None), s') \<Longrightarrow>
      inv s' \<and> abs s' = aDelete i (abs s) \<and> b = (aJobs (abs s) i \<noteq> None)"
    and AddDLQ_err: "inv s \<Longrightarrow> st_AddDLQ so j s = (Some e, s') \<Longrightarrow> s' = s"
    and AddDLQ_ok: "inv s \<Longrightarrow> st_AddDLQ so j s = (None, s') \<Longrightarrow>
      inv s' \<and> abs s' = (abs s)\<lparr>aDLQ := (aDLQ (abs s))(ID j \<mapsto> j)\<rparr>"
    and ListDLQ_abs: "inv s \<Longrightarrow> st_ListDLQ so ord s = Inr js \<Longrightarrow> set js = ran (aDLQ (abs s))"
    and AddCron_err: "inv s \<Longrightarrow> st_AddCron so c s = (Some e, s') \<Longrightarrow> s' = s"
    and AddCron_ok: "inv s \<Longrightarrow> st_AddCron so c s = (None, s') \<Longrightarrow>
      inv s' \<and> abs s' = (abs s)\<lparr>aCrons := (aCrons (abs s))(cID c \<mapsto> c)\<rparr>"
    and DeleteCron_err: "inv s \<Longrightarrow> st_DeleteCron so k s = ((b, Some e), s') \<Longrightarrow> s' = s"
    and DeleteCron_ok: "inv s \<Longrightarrow> st_DeleteCron so k s = ((b, None), s') \<Longrightarrow>
      inv s' \<and> abs s' = (abs s)\<lparr>aCrons := (aCrons (abs s))(k := None)\<rparr> \<and> b = (aCrons (abs s) k \<noteq> None)"
    and ListCrons_abs: "inv s \<Longrightarrow> st_ListCrons so ord s = Inr cs \<Longrightarrow> set cs = ran (aCrons (abs s))"
    and Find_abs: "inv s \<Longrightarrow> st_FindByIdempotencyKey so k s = Some j \<longleftrightarrow>
      k \<noteq> [] \<and> aJobs (abs s) (ID j) = Some j \<and> IdempotencyKey j = k"
begin

lemma Get_ID: "inv s \<Longrightarrow> st_Get so s i = Some j \<Longrightarrow> ID j = i"
  using inv_abs Get_abs by (simp add: aInv_def)

lemma Update_cases:
  assumes "inv s"
  obtains (rejected) e where "st_Update so j s = (Some e, s)"
  | (stored) s' old where "st_Update so j s = (None, s')" "st_Get so s (ID j) = Some old"
      "IsValidTransition (Status old) (Status j)" "abs s' = aPut j (abs s)"
proof (cases "st_Update so j s")
  case (Pair r s')
  show ?thesis
  proof (cases r)
    case None
    with Pair assms Update_ok [of s j s'] show ?thesis
      by (auto simp: aUpdate_def Get_abs split: option.splits if_splits intro: stored)
  next
    case (Some e)
    with Pair Update_err [OF assms, of j e s'] show ?thesis by (auto intro: rejected)
  qed
qed

lemma Update_snd_inv:
  assumes "inv s" "aSameKey j (abs s)"
  shows "inv (snd (st_Update so j s))"
proof (cases "st_Update so j s")
  case (Pair r s')
  then show ?thesis using assms Update_err [of s j _ s'] Update_inv [of s j s'] by (cases r) auto
qed

lemma AddDLQ_snd:
  assumes "inv s"
  shows "inv (snd (st_AddDLQ so j s)) \<and> aJobs (abs (snd (st_AddDLQ so j s))) = aJobs (abs s)"
proof (cases "st_AddDLQ so j s")
  case (Pair r s')
  then show ?thesis using assms AddDLQ_err [of s j _ s'] AddDLQ_ok [of s j s'] by (cases r) auto
qed

lemma Cancel_snd_inv:
  assumes "inv s"
  shows "inv (snd (st_Cancel so i s))"
proof (cases "st_Cancel so i s")
  case (Pair r s')
  then show ?thesis using assms Cancel_err [of s i _ s'] Cancel_ok [of s i s'] by (cases r) auto
qed

text \<open>
  The status of a stored job moves along the transition table: an update or a cancellation
  never takes a job out of a terminal state.
\<close>

lemma Update_status:
  assumes "inv s" "st_Get so s i = Some j"
  shows "\<exists>j'. aJobs (abs (snd (st_Update so u s))) i = Some j' \<and> IsValidTransition (Status j) (Status j')"
  using assms(1)
proof (cases rule: Update_cases [of s u])
  case (rejected e)
  then show ?thesis using assms by (simp add: Get_abs)
next
  case (stored s' old)
  then show ?thesis using assms by (auto simp: aPut_def Get_abs)
qed

lemma Cancel_status:
  assumes "inv s" "st_Get so s i = Some j" "named (Status j)"
  shows "\<exists>j'. aJobs (abs (snd (st_Cancel so k s))) i = Some j' \<and> IsValidTransition (Status j) (Status j')"
proof (cases "st_Cancel so k s")
  case (Pair r s')
  show ?thesis
  proof (cases r)
    case None
    then obtain x where x: "aJobs (abs s) k = Some x" "\<not> terminal (Status x)"
        "abs s' = aPut (x\<lparr>Status := Cancelled\<rparr>) (abs s)"
      using Pair Cancel_ok [OF assms(1), of k s'] by (auto simp: aCancel_def split: option.splits if_splits)
    then have "ID x = k" using inv_abs [OF assms(1)] by (simp add: aInv_def)
    with x Pair assms show ?thesis
      by (cases "i = k") (auto simp: aPut_def Get_abs named_def terminal_def)
  next
    case (Some e)
    with Pair Cancel_err [OF assms(1), of k e s'] assms show ?thesis by (auto simp: Get_abs)
  qed
qed

lemma ListByStatus_ids:
  assumes "inv s" "named st" "st_ListByStatus so ord st s = Inr js"
  shows "i \<in> set (map ID js) \<longleftrightarrow> (\<exists>j. st_Get so s i = Some j \<and> Status j = st)"
proof -
  have "set js = {j \<in> ran (aJobs (abs s)). Status j = st}"
    using ListByStatus_abs [OF assms] by simp
  moreover have "\<And>k j. aJobs (abs s) k = Some j \<Longrightarrow> ID j = k"
    using inv_abs [OF assms(1)] by (simp add: aInv_def)
  ultimately show ?thesis using assms(1) by (auto simp: Get_abs ran_def)
qed

end

text \<open>Every call takes effect as the abstract store says or leaves the backend as it was.\<close>

context job_store
begin

lemma run_call_atomic:
  assumes "inv s" "call_ok c (abs s)" "run_call so c s = (ok, s')"
  shows "inv s' \<and> (if ok then acall c (abs s) = Some (abs s') else s' = s)"
proof (cases c)
  case (CallAdd j)
  then show ?thesis using assms Add_ok [OF assms(1), of j s'] Add_err [OF assms(1), of j _ s']
    by (cases "fst (st_Add so j s)") (auto simp: aFresh_def split: prod.splits)
next
  case (CallUpdate j)
  then show ?thesis
    using assms Update_ok [OF assms(1), of j s'] Update_inv [OF assms(1), of j s'] Update_err [OF assms(1), of j _ s']
    by (cases "fst (st_Update so j s)") (auto split: prod.splits)
next
  case (CallDelete i)
  then show ?thesis using assms Delete_ok [OF assms(1), of i _ s'] Delete_err [OF assms(1), of i _ _ s']
    by (cases "snd (fst (st_Delete so i s))") (auto split: prod.splits)
next
  case (CallCancel i)
  then show ?thesis using assms Cancel_ok [OF assms(1), of i s'] Cancel_err [OF assms(1), of i _ s']
    by (cases "fst (st_Cancel so i s)") (auto split: prod.splits)
next
  case (CallAddDLQ j)
  then show ?thesis using assms AddDLQ_ok [OF assms(1), of j s'] AddDLQ_err [OF assms(1), of j _ s']
    by (cases "fst (st_AddDLQ so j s)") (auto split: prod.splits)
next
  case (CallAddCron x)
  then show ?thesis using assms AddCron_ok [OF assms(1), of x s'] AddCron_err [OF assms(1), of x _ s']
    by (cases "fst (st_AddCron so x s)") (auto split: prod.splits)
next
  case (CallDeleteCron k)
  then show ?thesis using assms DeleteCron_ok [OF assms(1), of k _ s'] DeleteCron_err [OF assms(1), of k _ _ s']
    by (cases "snd (fst (st_DeleteCron so k s))") (auto split: prod.splits)
qed

end

text \<open>
  A backend without faults also accepts whatever the abstract operations accept. The
  in-memory store is one.
\<close>

locale reliable_store = job_store +
  assumes Add_succeeds: "inv s \<Longrightarrow> aJobs (abs s) (ID j) = None \<Longrightarrow> fst (st_Add so j s) = None"
    and Update_succeeds: "inv s \<Longrightarrow> aUpdate j (abs s) \<noteq> None \<Longrightarrow> fst (st_Update so j s) = None"
    and Cancel_succeeds: "inv s \<Longrightarrow> aCancel i (abs s) \<noteq> None \<Longrightarrow> fst (st_Cancel so i s) = None"
    and ListByStatus_succeeds: "inv s \<Longrightarrow> \<exists>js. st_ListByStatus so ord st s = Inr js"
    and Delete_succeeds: "inv s \<Longrightarrow> snd (fst (st_Delete so i s)) = None"
    and AddDLQ_succeeds: "inv s \<Longrightarrow> fst (st_AddDLQ so j s) = None"
    and AddCron_succeeds: "inv s \<Longrightarrow> fst (st_AddCron so c s) = None"
    and DeleteCron_succeeds: "inv s \<Longrightarrow> snd (fst (st_DeleteCron so k s)) = None"
begin

lemma Update_effect:
  assumes "inv s"
  shows "abs (snd (st_Update so j s)) = (case aUpdate j (abs s) of None \<Rightarrow> abs s | Some a \<Rightarrow> a)"
    and "fst (st_Update so j s) = None \<longleftrightarrow> aUpdate j (abs s) \<noteq> None"
proof -
  obtain r s' where p: "st_Update so j s = (r, s')" by fastforce
  show "fst (st_Update so j s) = None \<longleftrightarrow> aUpdate j (abs s) \<noteq> None"
    using p Update_succeeds [OF assms, of j] Update_ok [OF assms, of j s'] by (cases r; cases "aUpdate j (abs s)") auto
  then show "abs (snd (st_Update so j s)) = (case aUpdate j (abs s) of None \<Rightarrow> abs s | Some a \<Rightarrow> a)"
    using p Update_err [OF assms, of j _ s'] Update_ok [OF assms, of j s'] by (cases r; cases "aUpdate j (abs s)") auto
qed

lemma run_call_accepted:
  assumes "inv s" "call_ok c (abs s)"
  shows "fst (run_call so c s) \<longleftrightarrow> acall c (abs s) \<noteq> None"
proof
  assume "fst (run_call so c s)"
  then show "acall c (abs s) \<noteq> None"
    using run_call_atomic [OF assms, of True "snd (run_call so c s)"] by (cases "run_call so c s") auto
next
  assume a: "acall c (abs s) \<noteq> None"
  show "fst (run_call so c s)"
  proof (cases c)
    case (CallAdd j)
    then show ?thesis using a Add_succeeds [OF assms(1), of j] by (auto split: prod.splits if_splits)
  next
    case (CallUpdate j)
    then show ?thesis using a Update_succeeds [OF assms(1), of j] by (auto split: prod.splits)
  next
    case (CallDelete i)
    then show ?thesis using Delete_succeeds [OF assms(1), of i] by (auto split: prod.splits)
  next
    case (CallCancel i)
    then show ?thesis using a Cancel_succeeds [OF assms(1), of i] by (auto split: prod.splits)
  next
    case (CallAddDLQ j)
    then show ?thesis using AddDLQ_succeeds [OF assms(1), of j] by (auto split: prod.splits)
  next
    case (CallAddCron x)
    then show ?thesis using AddCron_succeeds [OF assms(1), of x] by (auto split: prod.splits)
  next
    case (CallDeleteCron k)
    then show ?thesis using DeleteCron_succeeds [OF assms(1), of k] by (auto split: prod.splits)
  qed
qed

lemma run_call_refines:
  assumes "inv s" "call_ok c (abs s)"
  shows "inv (snd (run_call so c s)) \<and> abs (snd (run_call so c s)) = acall_total c (abs s)"
proof -
  obtain ok s' where r: "run_call so c s = (ok, s')" by fastforce
  show ?thesis
    using run_call_atomic [OF assms r] run_call_accepted [OF assms] r
    by (auto simp: acall_total_def split: if_splits option.splits)
qed

lemma run_calls_refine:
  "inv s \<Longrightarrow> calls_ok cs (abs s) \<Longrightarrow>
    inv (run_calls so cs s) \<and> abs (run_calls so cs s) = fold acall_total cs (abs s)"
proof (induction cs arbitrary: s)
  case (Cons c cs)
  then show ?case using run_call_refines [of s c] by (simp add: run_calls_def)
qed (simp add: run_calls_def)

end

end
