(* ===== verification/Broker.thy ===== *)
theory Broker
  imports Go_Strings
begin

text \<open>
  Topic subscriptions and the choice of a worker (\<open>src/internal/broker/broker.go\<close>). A
  worker client is its ID together with a number that stands for the identity of the Go
  object behind the interface. The choice rotates the channel of available workers and
  loses none of them.
\<close>

datatype worker_client = Client (cl_ID: int) (cl_ref: nat)

record broker =
  workerTopics :: "(int, string goset) gomap"
  workerIsAll :: "(int, bool) gomap"

definition broker_New :: broker where
  "broker_New = \<lparr>workerTopics = [], workerIsAll = []\<rparr>"

text \<open>The loop of \<open>RegisterWorker\<close> over the topics; a wildcard ends it.\<close>

fun topic_loop :: "string list \<Rightarrow> string goset \<Rightarrow> bool \<Rightarrow> string goset \<times> bool" where
  "topic_loop [] topicSet isAll = (topicSet, isAll)"
| "topic_loop (t # ts) topicSet isAll =
     (let trimmed = TrimSpace t
      in if trimmed = ''*'' \<or> trimmed = ''all'' \<or> trimmed = [] then (topicSet, True)
         else topic_loop ts (mput trimmed () topicSet) isAll)"

definition RegisterWorker :: "int \<Rightarrow> string list \<Rightarrow> broker \<Rightarrow> broker" where
  "RegisterWorker workerID topics b =
     (let (topicSet, isAll) = topic_loop topics [] (topics = [])
      in b\<lparr>workerTopics := mput workerID topicSet (workerTopics b),
           workerIsAll := mput workerID isAll (workerIsAll b)\<rparr>)"

definition UnregisterWorker :: "int \<Rightarrow> broker \<Rightarrow> broker" where
  "UnregisterWorker workerID b =
     b\<lparr>workerTopics := mdel workerID (workerTopics b), workerIsAll := mdel workerID (workerIsAll b)\<rparr>"

definition CanHandle :: "broker \<Rightarrow> int \<Rightarrow> string \<Rightarrow> bool" where
  "CanHandle b workerID jobType =
     (if map_of (workerIsAll b) workerID = Some True then True
      else case map_of (workerTopics b) workerID of
             None \<Rightarrow> True
           | Some topics \<Rightarrow> map_of topics jobType \<noteq> None)"

text \<open>
  \<open>SelectWorker\<close>: at most as many receives as there were entries, then the skipped workers
  are sent back without blocking.
\<close>

fun select_loop ::
  "broker \<Rightarrow> string \<Rightarrow> nat \<Rightarrow> worker_client channel \<Rightarrow> worker_client list
    \<Rightarrow> worker_client option \<times> worker_client channel \<times> worker_client list" where
  "select_loop b jobType 0 avail skipped = (None, avail, skipped)"
| "select_loop b jobType (Suc n) avail skipped =
     (case try_recv avail of
        None \<Rightarrow> (None, avail, skipped)
      | Some (w, avail') \<Rightarrow>
          if CanHandle b (cl_ID w) jobType then (Some w, avail', skipped)
          else select_loop b jobType n avail' (skipped @ [w]))"

fun put_back :: "'a list \<Rightarrow> 'a channel \<Rightarrow> 'a channel" where
  "put_back [] c = c"
| "put_back (w # ws) c = put_back ws (snd (try_send w c))"

definition SelectWorker ::
  "broker \<Rightarrow> string \<Rightarrow> worker_client channel \<Rightarrow> worker_client option \<times> worker_client channel" where
  "SelectWorker b jobType avail =
     (let n = length (buf avail)
      in if n = 0 then (None, avail)
         else let (w, avail', skipped) = select_loop b jobType n avail []
              in (w, put_back skipped avail'))"

section \<open>Subscriptions\<close>

text \<open>What a list of topics means, as the comment of \<open>RegisterWorker\<close> puts it.\<close>

definition wildcard :: "string \<Rightarrow> bool" where
  "wildcard t \<longleftrightarrow> TrimSpace t \<in> {''*'', ''all'', []}"

definition serves :: "string list \<Rightarrow> string \<Rightarrow> bool" where
  "serves topics jobType \<longleftrightarrow>
     topics = [] \<or> (\<exists>t \<in> set topics. wildcard t) \<or> jobType \<in> TrimSpace ` set topics"

lemma topic_loop_all: "snd (topic_loop ts s a) \<longleftrightarrow> a \<or> (\<exists>t \<in> set ts. wildcard t)"
  by (induction ts arbitrary: s) (auto simp: Let_def wildcard_def)

lemma topic_loop_set:
  "\<forall>t \<in> set ts. \<not> wildcard t \<Longrightarrow>
    map_of (fst (topic_loop ts s a)) x \<noteq> None \<longleftrightarrow> x \<in> TrimSpace ` set ts \<or> map_of s x \<noteq> None"
  by (induction ts arbitrary: s) (auto simp: Let_def wildcard_def)

lemma CanHandle_Register_same:
  "CanHandle (RegisterWorker w topics b) w jobType \<longleftrightarrow> serves topics jobType"
proof (cases "topics = [] \<or> (\<exists>t \<in> set topics. wildcard t)")
  case True
  then show ?thesis using topic_loop_all [of topics "[]" "topics = []"]
    by (auto simp: CanHandle_def RegisterWorker_def serves_def Let_def split: prod.splits)
next
  case False
  then have "\<not> snd (topic_loop topics [] (topics = []))" using topic_loop_all by blast
  moreover have "map_of (fst (topic_loop topics [] (topics = []))) jobType \<noteq> None \<longleftrightarrow>
      jobType \<in> TrimSpace ` set topics"
    using topic_loop_set [of topics "[]" "topics = []" jobType] False by auto
  ultimately show ?thesis using False
    by (auto simp: CanHandle_def RegisterWorker_def serves_def Let_def split: prod.splits)
qed

lemma CanHandle_Register_other:
  "w' \<noteq> w \<Longrightarrow> CanHandle (RegisterWorker w topics b) w' jobType = CanHandle b w' jobType"
  by (simp add: CanHandle_def RegisterWorker_def Let_def split: prod.splits)

lemma Register_other:
  "w' \<noteq> w \<Longrightarrow> map_of (workerTopics (RegisterWorker w topics b)) w' = map_of (workerTopics b) w'"
  "w' \<noteq> w \<Longrightarrow> map_of (workerIsAll (RegisterWorker w topics b)) w' = map_of (workerIsAll b) w'"
  by (simp_all add: RegisterWorker_def Let_def split: prod.splits)

lemma CanHandle_Unregister:
  "CanHandle (UnregisterWorker w b) w' jobType \<longleftrightarrow> w' = w \<or> CanHandle b w' jobType"
  by (auto simp: CanHandle_def UnregisterWorker_def)

lemma Unregister_lookup [simp]:
  "map_of (workerTopics (UnregisterWorker w b)) = (map_of (workerTopics b))(w := None)"
  "map_of (workerIsAll (UnregisterWorker w b)) = (map_of (workerIsAll b))(w := None)"
  by (simp_all add: UnregisterWorker_def)

section \<open>The choice of a worker\<close>

lemma put_back_room:
  "length (buf c) + length ws \<le> cap c \<Longrightarrow> put_back ws c = c\<lparr>buf := buf c @ ws\<rparr>"
  by (induction ws arbitrary: c) (simp_all add: try_send_def)

lemma select_loop_spec:
  "length (buf c) \<le> n \<Longrightarrow>
    select_loop b t n c sk =
      (case dropWhile (\<lambda>w. \<not> CanHandle b (cl_ID w) t) (buf c) of
         [] \<Rightarrow> (None, c\<lparr>buf := []\<rparr>, sk @ buf c)
       | w # vs \<Rightarrow> (Some w, c\<lparr>buf := vs\<rparr>, sk @ takeWhile (\<lambda>w. \<not> CanHandle b (cl_ID w) t) (buf c)))"
proof (induction n arbitrary: c sk)
  case 0
  then show ?case by simp
next
  case (Suc n)
  show ?case
  proof (cases "buf c")
    case Nil
    then show ?thesis by (simp add: try_recv_def)
  next
    case (Cons w ws)
    then show ?thesis using Suc.prems Suc.IH [of "c\<lparr>buf := ws\<rparr>" "sk @ [w]"]
      by (cases "CanHandle b (cl_ID w) t"; cases "dropWhile (\<lambda>w. \<not> CanHandle b (cl_ID w) t) ws")
        (simp_all add: try_recv_def del: dropWhile_eq_Nil_conv)
  qed
qed

text \<open>
  The worker chosen is the first capable one; those before it move to the end of the
  channel and every other worker stays.
\<close>

lemma SelectWorker_rotates:
  assumes "chan_ok avail"
  shows "SelectWorker b t avail =
    (case dropWhile (\<lambda>w. \<not> CanHandle b (cl_ID w) t) (buf avail) of
       [] \<Rightarrow> (None, avail)
     | w # vs \<Rightarrow> (Some w, avail\<lparr>buf := vs @ takeWhile (\<lambda>w. \<not> CanHandle b (cl_ID w) t) (buf avail)\<rparr>))"
proof -
  let ?no = "\<lambda>w. \<not> CanHandle b (cl_ID w) t"
  have split: "takeWhile ?no (buf avail) @ dropWhile ?no (buf avail) = buf avail" by simp
  then have len: "length (takeWhile ?no (buf avail)) + length (dropWhile ?no (buf avail)) = length (buf avail)"
    by (metis length_append)
  show ?thesis
  proof (cases "dropWhile ?no (buf avail)")
    case Nil
    then have "put_back (buf avail) (avail\<lparr>buf := []\<rparr>) = avail"
      using assms by (simp add: put_back_room chan_ok_def)
    then show ?thesis using Nil
      by (simp add: SelectWorker_def select_loop_spec Let_def del: dropWhile_eq_Nil_conv)
  next
    case (Cons w vs)
    then have "length vs + length (takeWhile ?no (buf avail)) \<le> cap avail"
      using len assms by (simp add: chan_ok_def)
    then show ?thesis using Cons
      by (auto simp: SelectWorker_def select_loop_spec Let_def put_back_room)
  qed
qed

lemma SelectWorker_cases:
  assumes "chan_ok avail" "SelectWorker b t avail = (r, avail')"
  obtains (none) "r = None" "avail' = avail" "\<forall>w \<in> set (buf avail). \<not> CanHandle b (cl_ID w) t"
  | (some) w us vs where "r = Some w" "CanHandle b (cl_ID w) t" "buf avail = us @ w # vs"
      "avail' = avail\<lparr>buf := vs @ us\<rparr>" "\<forall>u \<in> set us. \<not> CanHandle b (cl_ID u) t"
proof (cases "dropWhile (\<lambda>w. \<not> CanHandle b (cl_ID w) t) (buf avail)")
  case Nil
  then have "\<forall>w \<in> set (buf avail). \<not> CanHandle b (cl_ID w) t" by simp
  moreover have "SelectWorker b t avail = (None, avail)"
    using Nil assms(1) by (simp add: SelectWorker_rotates del: dropWhile_eq_Nil_conv)
  ultimately show ?thesis using assms(2) none by simp
next
  case (Cons w vs)
  let ?us = "takeWhile (\<lambda>w. \<not> CanHandle b (cl_ID w) t) (buf avail)"
  have "buf avail = ?us @ w # vs" using Cons by (metis takeWhile_dropWhile_id)
  moreover have "CanHandle b (cl_ID w) t" using Cons by (metis dropWhile_eq_Cons_conv)
  moreover have "\<forall>u \<in> set ?us. \<not> CanHandle b (cl_ID u) t" by (metis set_takeWhileD)
  ultimately show ?thesis using assms Cons by (intro some [of w ?us vs]) (auto simp: SelectWorker_rotates)
qed

lemma SelectWorker_workers:
  assumes "chan_ok avail" "SelectWorker b t avail = (r, avail')"
  shows "mset (buf avail) = mset (buf avail') + (case r of None \<Rightarrow> {#} | Some w \<Rightarrow> {#w#}) \<and>
    chan_ok avail' \<and> cap avail' = cap avail"
  using assms
proof (cases rule: SelectWorker_cases)
  case none
  then show ?thesis using assms by simp
next
  case (some w us vs)
  then show ?thesis using assms by (simp add: chan_ok_def)
qed

section \<open>Properties\<close>

text \<open>
  C23. Selecting a worker returns the first capable one of the channel and puts every other
  worker back, in the same cyclic order; when no worker is capable the channel is left as
  it was. No worker is lost or duplicated.
\<close>

theorem select_worker_first_capable:
  assumes "chan_ok avail"
  shows "case SelectWorker b jobType avail of
      (None, avail') \<Rightarrow> avail' = avail \<and> (\<forall>w \<in> set (buf avail). \<not> CanHandle b (cl_ID w) jobType)
    | (Some w, avail') \<Rightarrow> CanHandle b (cl_ID w) jobType \<and>
        (\<exists>us vs. buf avail = us @ w # vs \<and> avail' = avail\<lparr>buf := vs @ us\<rparr> \<and>
          (\<forall>u \<in> set us. \<not> CanHandle b (cl_ID u) jobType))"
proof -
  obtain r avail' where r: "SelectWorker b jobType avail = (r, avail')" by fastforce
  from assms r show ?thesis
  proof (cases rule: SelectWorker_cases)
    case none
    then show ?thesis using r by simp
  next
    case (some w us vs)
    then show ?thesis using r by auto
  qed
qed

theorem select_worker_first_capable_witness:
  "let b = RegisterWorker 2 [''email''] (RegisterWorker 1 [''video''] broker_New);
       c = put_back [Client 1 0, Client 2 0] (make_chan 100)
   in chan_ok c \<and> \<not> CanHandle b 1 ''email'' \<and> CanHandle b 2 ''email'' \<and>
      SelectWorker b ''email'' c = (Some (Client 2 0), c\<lparr>buf := [Client 1 0]\<rparr>)"
proof -
  let ?b = "RegisterWorker 2 [''email''] (RegisterWorker 1 [''video''] broker_New)"
  let ?c = "put_back [Client 1 0, Client 2 0] (make_chan 100)"
  have c: "chan_ok ?c" by (simp add: chan_ok_def try_send_def make_chan_def)
  have buf: "buf ?c = [Client 1 0, Client 2 0]" by (simp add: try_send_def make_chan_def)
  have n1: "\<not> CanHandle ?b 1 ''email''" and n2: "CanHandle ?b 2 ''email''" by code_simp+
  obtain r c' where r: "SelectWorker ?b ''email'' ?c = (r, c')" by fastforce
  then have "r = Some (Client 2 0) \<and> c' = ?c\<lparr>buf := [Client 1 0]\<rparr>"
    using select_worker_first_capable [OF c, of ?b "''email''"] buf n1 n2
    by (auto simp: Cons_eq_append_conv split: option.splits)
  then show ?thesis using c n1 n2 r by simp
qed

text \<open>
  What a worker registered for is what it is given: after \<open>RegisterWorker\<close> the broker
  lets the worker handle a job type exactly when its list of topics is empty, contains a
  wildcard (\<open>*\<close>, \<open>all\<close> or a blank) or contains the type; the capabilities of every other
  worker stay as they were.
\<close>

theorem register_worker_capabilities:
  "CanHandle (RegisterWorker w topics b) w' jobType \<longleftrightarrow>
     (if w' = w then serves topics jobType else CanHandle b w' jobType)"
  by (simp add: CanHandle_Register_same CanHandle_Register_other)

end
