(* ===== verification/Worker_Manager.thy ===== *)
theory Worker_Manager
  imports Broker
begin

text \<open>
  The registry of workers (\<open>src/internal/workermanager/manager.go\<close>): registration,
  heartbeats, the channel of available workers and the liveness monitor. The gauge
  \<open>metrics.ActiveWorkers\<close> is part of the state because the operations move it.
\<close>

record worker_info =
  wiClient :: worker_client
  wiLastHeartbeat :: time
  wiAlive :: bool
  wiTopics :: "string list"
  wiAddress :: string

record node_snapshot =
  nsID :: int
  nsAddress :: string
  nsAlive :: bool
  nsLastHeartbeat :: time
  nsTopics :: "string list"

record manager =
  workers :: "(int, worker_info) gomap"
  Available :: "worker_client channel"
  DeadWorkers :: "int channel"
  mgrBroker :: broker
  ActiveWorkers :: int

definition deadWorkersBufSize :: nat where
  "deadWorkersBufSize = 100"

definition NewManager :: manager where
  "NewManager =
     \<lparr>workers = [], Available = make_chan 100, DeadWorkers = make_chan deadWorkersBufSize,
      mgrBroker = broker_New, ActiveWorkers = 0\<rparr>"

definition Register :: "time \<Rightarrow> worker_client \<Rightarrow> string \<Rightarrow> string list \<Rightarrow> manager \<Rightarrow> manager" where
  "Register now w address topics m =
     m\<lparr>workers := mput (cl_ID w)
          \<lparr>wiClient = w, wiLastHeartbeat = now, wiAlive = True, wiTopics = topics, wiAddress = address\<rparr>
          (workers m),
       ActiveWorkers := ActiveWorkers m + 1,
       mgrBroker := RegisterWorker (cl_ID w) topics (mgrBroker m)\<rparr>"

definition MakeAvailable :: "worker_client \<Rightarrow> manager \<Rightarrow> manager" where
  "MakeAvailable w m = m\<lparr>Available := snd (try_send w (Available m))\<rparr>"

definition Remove :: "int \<Rightarrow> manager \<Rightarrow> manager" where
  "Remove i m =
     (let m1 =
        (case map_of (workers m) i of
           None \<Rightarrow> m
         | Some info \<Rightarrow>
             m\<lparr>ActiveWorkers := (if wiAlive info then ActiveWorkers m - 1 else ActiveWorkers m),
               workers := mdel i (workers m)\<rparr>)
      in m1\<lparr>mgrBroker := UnregisterWorker i (mgrBroker m1)\<rparr>)"

definition mgr_Get :: "manager \<Rightarrow> int \<Rightarrow> worker_client option" where
  "mgr_Get m i = map_option wiClient (map_of (workers m) i)"

definition mgr_Count :: "manager \<Rightarrow> int" where
  "mgr_Count m = int (length (workers m))"

definition mgr_List :: "order_choice \<Rightarrow> manager \<Rightarrow> worker_client list" where
  "mgr_List ord m = map (wiClient \<circ> snd) (filter (wiAlive \<circ> snd) (range_order ord (workers m)))"

definition Nodes :: "order_choice \<Rightarrow> manager \<Rightarrow> node_snapshot list" where
  "Nodes ord m =
     map (\<lambda>(i, info). \<lparr>nsID = i, nsAddress = wiAddress info, nsAlive = wiAlive info,
                        nsLastHeartbeat = wiLastHeartbeat info, nsTopics = wiTopics info\<rparr>)
       (range_order ord (workers m))"

definition Heartbeat :: "time \<Rightarrow> int \<Rightarrow> manager \<Rightarrow> manager" where
  "Heartbeat now i m =
     (case map_of (workers m) i of
        None \<Rightarrow> m
      | Some info \<Rightarrow>
          m\<lparr>workers := mput i (info\<lparr>wiLastHeartbeat := now, wiAlive := True\<rparr>) (workers m),
            ActiveWorkers := (if wiAlive info then ActiveWorkers m else ActiveWorkers m + 1)\<rparr>)"

text \<open>The period of the monitor's ticker and one tick of it.\<close>

definition monitor_interval :: "duration \<Rightarrow> duration" where
  "monitor_interval timeout =
     (let interval = (if 0 \<le> timeout then timeout div 2 else - ((- timeout) div 2))
      in if interval < 100 * Millisecond then 100 * Millisecond else interval)"

definition monitor_visit :: "time \<Rightarrow> duration \<Rightarrow> int \<times> worker_info \<Rightarrow> manager \<Rightarrow> manager" where
  "monitor_visit now timeout e m =
     (if time_Sub now (wiLastHeartbeat (snd e)) > timeout \<and> wiAlive (snd e) then
        m\<lparr>workers := mput (fst e) ((snd e)\<lparr>wiAlive := False\<rparr>) (workers m),
          ActiveWorkers := ActiveWorkers m - 1,
          DeadWorkers := snd (try_send (cl_ID (wiClient (snd e))) (DeadWorkers m))\<rparr>
      else m)"

definition monitor_tick :: "time \<Rightarrow> duration \<Rightarrow> order_choice \<Rightarrow> manager \<Rightarrow> manager" where
  "monitor_tick now timeout ord m = fold (monitor_visit now timeout) (range_order ord (workers m)) m"

section \<open>The invariant\<close>

text \<open>
  Every worker is registered under its own ID, the broker knows exactly the registered
  workers with the topics they registered with, and both channels respect their
  capacities.
\<close>

definition broker_agrees :: "manager \<Rightarrow> bool" where
  "broker_agrees m \<longleftrightarrow>
     (\<forall>i info t. map_of (workers m) i = Some info \<longrightarrow>
        (CanHandle (mgrBroker m) i t \<longleftrightarrow> serves (wiTopics info) t)) \<and>
     (\<forall>i. map_of (workers m) i = None \<longrightarrow>
        map_of (workerTopics (mgrBroker m)) i = None \<and> map_of (workerIsAll (mgrBroker m)) i = None)"

definition manager_inv :: "manager \<Rightarrow> bool" where
  "manager_inv m \<longleftrightarrow> wf_map (workers m) \<and>
     (\<forall>i info. map_of (workers m) i = Some info \<longrightarrow> cl_ID (wiClient info) = i) \<and>
     broker_agrees m \<and> chan_ok (Available m) \<and> chan_ok (DeadWorkers m)"

lemma manager_inv_New [simp, wf_intros]: "manager_inv NewManager"
  by (simp add: manager_inv_def NewManager_def broker_agrees_def broker_New_def)

lemma manager_inv_Register [simp, wf_intros]:
  assumes "manager_inv m"
  shows "manager_inv (Register now w address topics m)"
proof -
  have "broker_agrees (Register now w address topics m)"
    using assms
    by (simp add: manager_inv_def broker_agrees_def Register_def CanHandle_Register_same
        CanHandle_Register_other Register_other)
  then show ?thesis using assms by (auto simp: manager_inv_def Register_def)
qed

lemma manager_inv_MakeAvailable [simp, wf_intros]: "manager_inv m \<Longrightarrow> manager_inv (MakeAvailable w m)"
  by (simp add: manager_inv_def MakeAvailable_def broker_agrees_def)

lemma manager_inv_Remove [simp, wf_intros]:
  assumes "manager_inv m"
  shows "manager_inv (Remove i m)"
proof -
  have "broker_agrees (Remove i m)"
    using assms unfolding broker_agrees_def manager_inv_def
    by (auto simp: Remove_def Let_def CanHandle_Unregister split: option.splits)
  then show ?thesis using assms by (auto simp: manager_inv_def Remove_def Let_def split: option.splits)
qed

lemma manager_inv_Heartbeat [simp, wf_intros]: "manager_inv m \<Longrightarrow> manager_inv (Heartbeat now i m)"
  by (fastforce simp: manager_inv_def Heartbeat_def broker_agrees_def split: option.splits)

section \<open>The monitor\<close>

definition expired :: "time \<Rightarrow> duration \<Rightarrow> worker_info \<Rightarrow> bool" where
  "expired now timeout info \<longleftrightarrow> time_Sub now (wiLastHeartbeat info) > timeout"

definition lost :: "time \<Rightarrow> duration \<Rightarrow> int \<times> worker_info \<Rightarrow> bool" where
  "lost now timeout e \<longleftrightarrow> expired now timeout (snd e) \<and> wiAlive (snd e)"

lemma monitor_visit_lost:
  "monitor_visit now timeout e m =
     (if lost now timeout e then
        m\<lparr>workers := mput (fst e) ((snd e)\<lparr>wiAlive := False\<rparr>) (workers m),
          ActiveWorkers := ActiveWorkers m - 1,
          DeadWorkers := snd (try_send (cl_ID (wiClient (snd e))) (DeadWorkers m))\<rparr>
      else m)"
  by (simp add: monitor_visit_def lost_def expired_def)

lemma monitor_fold_lookup:
  "distinct (map fst es) \<Longrightarrow>
    map_of (workers (fold (monitor_visit now timeout) es m)) i =
      (case map_of es i of
         None \<Rightarrow> map_of (workers m) i
       | Some info \<Rightarrow> if lost now timeout (i, info) then Some (info\<lparr>wiAlive := False\<rparr>) else map_of (workers m) i)"
proof (induction es arbitrary: m)
  case (Cons e es)
  then have "map_of es (fst e) = None" by (simp add: map_of_eq_None_iff)
  then show ?case using Cons by (cases e) (auto simp: monitor_visit_lost split: option.splits)
qed simp

lemma monitor_fold_frames:
  "DeadWorkers (fold (monitor_visit now timeout) es m) =
     put_back (map (cl_ID \<circ> wiClient \<circ> snd) (filter (lost now timeout) es)) (DeadWorkers m)"
  "ActiveWorkers (fold (monitor_visit now timeout) es m) =
     ActiveWorkers m - int (length (filter (lost now timeout) es))"
  "mgrBroker (fold (monitor_visit now timeout) es m) = mgrBroker m"
  "Available (fold (monitor_visit now timeout) es m) = Available m"
  "wf_map (workers m) \<Longrightarrow> wf_map (workers (fold (monitor_visit now timeout) es m))"
  by (induction es arbitrary: m) (auto simp: monitor_visit_lost)

text \<open>
  One tick marks exactly the workers whose last heartbeat is older than the timeout and
  leaves the others untouched, in whatever order the map is visited.
\<close>

lemma monitor_tick_lookup:
  assumes "wf_map (workers m)"
  shows "map_of (workers (monitor_tick now timeout ord m)) i =
    map_option (\<lambda>info. if expired now timeout info then info\<lparr>wiAlive := False\<rparr> else info) (map_of (workers m) i)"
proof -
  have "distinct (map fst (range_order ord (workers m)))"
    using assms by (simp flip: wf_map_def)
  moreover have "map_of (range_order ord (workers m)) = map_of (workers m)"
    using assms by (rule map_of_range_order)
  ultimately show ?thesis
    by (auto simp: monitor_tick_def monitor_fold_lookup lost_def split: option.splits)
qed

lemma manager_inv_monitor [simp, wf_intros]:
  assumes "manager_inv m"
  shows "manager_inv (monitor_tick now timeout ord m)"
proof -
  have chan: "chan_ok c \<Longrightarrow> chan_ok (put_back xs c)" for xs and c :: "int channel"
    by (induction xs arbitrary: c) simp_all
  have wf: "wf_map (workers m)" using assms by (simp add: manager_inv_def)
  have fr: "mgrBroker (monitor_tick now timeout ord m) = mgrBroker m"
    "Available (monitor_tick now timeout ord m) = Available m"
    "chan_ok (DeadWorkers (monitor_tick now timeout ord m))"
    "wf_map (workers (monitor_tick now timeout ord m))"
    using assms chan wf by (simp_all add: monitor_tick_def monitor_fold_frames manager_inv_def)
  have "broker_agrees (monitor_tick now timeout ord m)"
    using assms by (auto simp: manager_inv_def broker_agrees_def fr monitor_tick_lookup [OF wf] split: if_splits)
  then show ?thesis using assms
    by (auto simp: manager_inv_def fr monitor_tick_lookup [OF wf] split: if_splits)
qed

section \<open>The gauge of active workers\<close>

definition alive_ids :: "manager \<Rightarrow> int set" where
  "alive_ids m = {i. \<exists>info. map_of (workers m) i = Some info \<and> wiAlive info}"

text \<open>How far the gauge is above the number of live workers.\<close>

definition drift :: "manager \<Rightarrow> int" where
  "drift m = ActiveWorkers m - int (card (alive_ids m))"

lemma finite_alive_ids [simp]: "finite (alive_ids m)"
proof -
  have "alive_ids m \<subseteq> fst ` set (workers m)" by (auto simp: alive_ids_def mem_dom_map)
  then show ?thesis by (rule finite_subset) simp
qed

lemma drift_Register:
  "drift (Register now w address topics m) = drift m + (if cl_ID w \<in> alive_ids m then 1 else 0)"
proof -
  have "alive_ids (Register now w address topics m) = insert (cl_ID w) (alive_ids m)"
    by (auto simp: alive_ids_def Register_def)
  then show ?thesis by (auto simp: drift_def Register_def insert_absorb)
qed

lemma drift_MakeAvailable: "drift (MakeAvailable w m) = drift m"
  by (simp add: drift_def MakeAvailable_def alive_ids_def)

lemma drift_Remove: "drift (Remove i m) = drift m"
proof -
  have "alive_ids (Remove i m) = alive_ids m - {i}"
    by (auto simp: alive_ids_def Remove_def Let_def split: option.splits)
  moreover have "ActiveWorkers (Remove i m) = ActiveWorkers m - (if i \<in> alive_ids m then 1 else 0)"
    by (auto simp: alive_ids_def Remove_def Let_def split: option.splits)
  moreover have "int (card (alive_ids m - {i})) = int (card (alive_ids m)) - (if i \<in> alive_ids m then 1 else 0)"
    using card_Diff1_less [of "alive_ids m" i] card_Diff_singleton [of i "alive_ids m"] by auto
  ultimately show ?thesis by (simp add: drift_def)
qed

lemma drift_Heartbeat: "drift (Heartbeat now i m) = drift m"
proof (cases "map_of (workers m) i")
  case None
  then show ?thesis by (simp add: Heartbeat_def)
next
  case (Some info)
  then have "alive_ids (Heartbeat now i m) = insert i (alive_ids m)"
    by (auto simp: alive_ids_def Heartbeat_def)
  moreover have "wiAlive info \<longleftrightarrow> i \<in> alive_ids m" using Some by (simp add: alive_ids_def)
  ultimately show ?thesis using Some by (auto simp: drift_def Heartbeat_def insert_absorb)
qed

lemma drift_monitor:
  assumes "wf_map (workers m)"
  shows "drift (monitor_tick now timeout ord m) = drift m"
proof -
  let ?es = "filter (lost now timeout) (range_order ord (workers m))"
  have d: "distinct (map fst ?es)" using assms wf_map_range_order [of ord "workers m"]
    unfolding wf_map_def by (intro distinct_map_filter) simp
  have mem: "i \<in> set (map fst ?es) \<longleftrightarrow> (\<exists>info. map_of (workers m) i = Some info \<and> lost now timeout (i, info))" for i
    using wf_map_mem [OF assms] by force
  have "i \<in> alive_ids (monitor_tick now timeout ord m) \<longleftrightarrow> i \<in> alive_ids m - set (map fst ?es)" for i
    by (cases "map_of (workers m) i")
      (auto simp: alive_ids_def monitor_tick_lookup [OF assms] mem lost_def simp del: set_map)
  then have "alive_ids (monitor_tick now timeout ord m) = alive_ids m - set (map fst ?es)" by blast
  moreover have sub: "set (map fst ?es) \<subseteq> alive_ids m"
    by (auto simp: alive_ids_def mem lost_def simp del: set_map)
  moreover have "card (set (map fst ?es)) = length ?es" using distinct_card [OF d] by simp
  ultimately have "int (card (alive_ids (monitor_tick now timeout ord m))) = int (card (alive_ids m)) - int (length ?es)"
    using card_Diff_subset [of "set (map fst ?es)" "alive_ids m"] card_mono [OF finite_alive_ids sub] by simp
  then show ?thesis by (simp add: drift_def monitor_tick_def monitor_fold_frames)
qed

section \<open>Properties\<close>

text \<open>
  C29. A tick of the monitor marks as dead exactly the workers whose last heartbeat is older
  than the timeout, leaves every other field and worker as it was, keeps the registry
  consistent with the broker, and queues the IDs of the workers that have just died, in the
  order visited, as far as the channel of dead workers has room.
\<close>

theorem monitor_tick_marks_expired:
  assumes "manager_inv m"
  shows "manager_inv (monitor_tick now timeout ord m) \<and>
    (\<forall>i. map_of (workers (monitor_tick now timeout ord m)) i =
       map_option (\<lambda>info. if time_Sub now (wiLastHeartbeat info) > timeout then info\<lparr>wiAlive := False\<rparr> else info)
         (map_of (workers m) i)) \<and>
    DeadWorkers (monitor_tick now timeout ord m) =
      put_back (map (cl_ID \<circ> wiClient \<circ> snd)
        (filter (\<lambda>e. time_Sub now (wiLastHeartbeat (snd e)) > timeout \<and> wiAlive (snd e)) (range_order ord (workers m))))
        (DeadWorkers m)"
proof -
  have "lost now timeout = (\<lambda>e. time_Sub now (wiLastHeartbeat (snd e)) > timeout \<and> wiAlive (snd e))"
    by (auto simp: lost_def expired_def fun_eq_iff)
  then have "DeadWorkers (monitor_tick now timeout ord m) =
      put_back (map (cl_ID \<circ> wiClient \<circ> snd)
        (filter (\<lambda>e. time_Sub now (wiLastHeartbeat (snd e)) > timeout \<and> wiAlive (snd e)) (range_order ord (workers m))))
        (DeadWorkers m)"
    by (simp add: monitor_tick_def monitor_fold_frames)
  moreover have "wf_map (workers m)" using assms by (simp add: manager_inv_def)
  ultimately show ?thesis
    using manager_inv_monitor [OF assms] monitor_tick_lookup [of m now timeout ord] by (simp add: expired_def)
qed

theorem monitor_tick_marks_expired_witness:
  "let m = Register 100 (Client 2 0) ''b'' [] (Register 0 (Client 1 0) ''a'' [] NewManager)
   in manager_inv m \<and> buf (DeadWorkers (monitor_tick 110 50 [] m)) = [1]"
proof -
  let ?m = "Register 100 (Client 2 0) ''b'' [] (Register 0 (Client 1 0) ''a'' [] NewManager)"
  have i: "manager_inv ?m" by simp
  show ?thesis using i monitor_tick_marks_expired [OF i, of 110 50 "[]"]
    by (simp add: Register_def NewManager_def time_Sub_def deadWorkersBufSize_def make_chan_def try_send_def)
qed

text \<open>
  The gauge of active workers counts the live workers except for one operation: every
  registration of an ID that is already registered and alive raises it by one for good.
  Removal, heartbeats, the monitor and \<open>MakeAvailable\<close> keep the difference between the
  gauge and the number of live workers.
\<close>

theorem active_workers_drift:
  assumes "manager_inv m"
  shows "drift (Register now w address topics m) = drift m + (if cl_ID w \<in> alive_ids m then 1 else 0) \<and>
    drift (Remove i m) = drift m \<and> drift (Heartbeat now i m) = drift m \<and>
    drift (MakeAvailable w m) = drift m \<and> drift (monitor_tick now timeout ord m) = drift m"
  using assms by (simp add: drift_Register drift_Remove drift_Heartbeat drift_MakeAvailable drift_monitor manager_inv_def)

theorem active_workers_drift_witness:
  "let m = Register 0 (Client 1 0) ''a'' [] NewManager
   in manager_inv m \<and> drift m = 0 \<and> drift (Register 5 (Client 1 1) ''a'' [] m) = 1"
proof -
  let ?m = "Register 0 (Client 1 0) ''a'' [] NewManager"
  have n: "manager_inv NewManager" and i: "manager_inv ?m" by simp_all
  have "drift NewManager = 0" "1 \<notin> alive_ids NewManager" "1 \<in> alive_ids ?m"
    by (simp_all add: drift_def NewManager_def alive_ids_def Register_def)
  then show ?thesis
    using active_workers_drift [OF n, of 0 "Client 1 0" "''a''" "[]"]
      active_workers_drift [OF i, of 5 "Client 1 1" "''a''" "[]"] i by simp
qed

end
