(* ===== verification/Scheduler.thy ===== *)
theory Scheduler
  imports Job_Queue Lease_Manager Retry_Policy Store_Spec Worker_Manager
begin

text \<open>
  The scheduler (\<open>src/internal/scheduler/scheduler.go\<close>) with the in-memory dead-letter
  queue (\<open>src/internal/dlq/dlq.go\<close>). One definition models the body of each loop: what the
  goroutine does between two receives. The channels \<open>Available\<close> and \<open>DeadWorkers\<close> and the
  broker are those of the worker manager, which the scheduler shares; \<open>sHasBroker\<close> says
  whether the scheduler's broker pointer is set. The store is any backend \<open>so\<close>, and the
  outcome of \<open>w.Submit\<close> is an argument.
\<close>

section \<open>Dead-letter queue\<close>

type_synonym dead_letter_queue = "(int, job) gomap"

definition dlq_New :: dead_letter_queue where
  "dlq_New = []"

definition dlq_Add :: "job \<Rightarrow> dead_letter_queue \<Rightarrow> dead_letter_queue" where
  "dlq_Add j d = mput (ID j) j d"

definition dlq_Get :: "int \<Rightarrow> dead_letter_queue \<Rightarrow> job option" where
  "dlq_Get i d = map_of d i"

definition dlq_List :: "order_choice \<Rightarrow> dead_letter_queue \<Rightarrow> job list" where
  "dlq_List ord d = map snd (range_order ord d)"

definition dlq_Delete :: "int \<Rightarrow> dead_letter_queue \<Rightarrow> dead_letter_queue" where
  "dlq_Delete i d = mdel i d"

section \<open>State\<close>

record 's scheduler =
  PriorityQueue :: job_queue
  DelayQueue :: job_queue
  Results :: "result channel"
  sStore :: 's
  sDLQ :: dead_letter_queue
  Leases :: lease_manager
  Manager :: manager
  sHasBroker :: bool

definition NewScheduler :: "'s \<Rightarrow> nat \<Rightarrow> bool \<Rightarrow> 's scheduler" where
  "NewScheduler st resultBuffer br =
     \<lparr>PriorityQueue = NewJobQueue (\<lambda>_ _. False), DelayQueue = NewJobQueue (\<lambda>_ _. False),
      Results = make_chan resultBuffer, sStore = st, sDLQ = dlq_New, Leases = NewLeaseManager,
      Manager = NewManager, sHasBroker = br\<rparr>"

definition sched_get :: "'s store_ops \<Rightarrow> 's scheduler \<Rightarrow> job_lookup" where
  "sched_get so s = st_Get so (sStore s)"

datatype queue_ref = ThePriorityQueue | TheDelayQueue

definition enqueueJob :: "'s store_ops \<Rightarrow> int \<Rightarrow> queue_ref \<Rightarrow> 's scheduler \<Rightarrow> 's scheduler" where
  "enqueueJob so jobID q s =
     (case q of
        ThePriorityQueue \<Rightarrow>
          s\<lparr>PriorityQueue := Enqueue (PriorityComparator (sched_get so s)) jobID (PriorityQueue s)\<rparr>
      | TheDelayQueue \<Rightarrow>
          s\<lparr>DelayQueue := Enqueue (DelayComparator (sched_get so s)) jobID (DelayQueue s)\<rparr>)"

section \<open>Rebuilding the queues\<close>

definition RebuildQueuesFromStore ::
  "'s store_ops \<Rightarrow> order_choice \<Rightarrow> order_choice \<Rightarrow> 's scheduler \<Rightarrow> error option \<times> 's scheduler" where
  "RebuildQueuesFromStore so ord1 ord2 s =
     (case st_ListByStatus so ord1 Pending (sStore s) of
        Inl e \<Rightarrow> (Some e, s)
      | Inr pendingJobs \<Rightarrow>
          let s1 = fold (\<lambda>j. enqueueJob so (ID j) ThePriorityQueue) pendingJobs s
          in case st_ListByStatus so ord2 Scheduled (sStore s1) of
               Inl e \<Rightarrow> (Some e, s1)
             | Inr scheduledJobs \<Rightarrow>
                 (None, fold (\<lambda>j. enqueueJob so (ID j) TheDelayQueue) scheduledJobs s1))"

section \<open>Dispatch\<close>

definition schedulingWaitTimeMs :: "time \<Rightarrow> job \<Rightarrow> int" where
  "schedulingWaitTimeMs now j =
     (if NextRunAt j = 0 then 0
      else let wait = time_Sub now (NextRunAt j)
           in if wait < 0 then 0 else wait div Millisecond)"

text \<open>\<open>done\<close> is whether the context has ended, \<open>submit\<close> the outcome of \<open>w.Submit\<close>.\<close>

definition Dispatch ::
  "'s store_ops \<Rightarrow> bool \<Rightarrow> time \<Rightarrow> (worker_client \<Rightarrow> job \<Rightarrow> error option) \<Rightarrow> job \<Rightarrow> 's scheduler \<Rightarrow> bool \<times> 's scheduler" where
  "Dispatch so done now submit j s =
     (if done then (False, s)
      else
        let m = Manager s;
            (r, avail) =
              (if sHasBroker s then SelectWorker (mgrBroker m) (Type j) (Available m)
               else case try_recv (Available m) of
                      None \<Rightarrow> (None, Available m)
                    | Some (w, c) \<Rightarrow> (Some w, c));
            s1 = s\<lparr>Manager := m\<lparr>Available := avail\<rparr>\<rparr>
        in case r of
             None \<Rightarrow> (False, enqueueJob so (ID j) ThePriorityQueue s1)
           | Some w \<Rightarrow>
               let attempt = (case lease_Get (ID j) (Leases s1) of
                                None \<Rightarrow> 1
                              | Some l \<Rightarrow> wrap64 (lAttempt l + 1));
                   s2 = s1\<lparr>Leases := Acquire now (ID j) (cl_ID w) 1 attempt (Leases s1)\<rparr>
               in case submit w j of
                    None \<Rightarrow> (True, s2)
                  | Some e \<Rightarrow>
                      (False, enqueueJob so (ID j) ThePriorityQueue (s2\<lparr>Leases := Release (ID j) (Leases s2)\<rparr>)))"

text \<open>
  One iteration of the inner loop of \<open>dispatchLoop\<close>; \<open>Exit\<close> when the queue is empty,
  \<open>Return\<close> when the context has ended.
\<close>

datatype loop_status = Continue | Exit | Return

definition dispatch_iter ::
  "'s store_ops \<Rightarrow> bool \<Rightarrow> time \<Rightarrow> (worker_client \<Rightarrow> job \<Rightarrow> error option) \<Rightarrow> 's scheduler \<Rightarrow> loop_status \<times> 's scheduler" where
  "dispatch_iter so done now submit s =
     (case Dequeue (PriorityComparator (sched_get so s)) (PriorityQueue s) of
        None \<Rightarrow> (Exit, s)
      | Some (i, q) \<Rightarrow>
          let s1 = s\<lparr>PriorityQueue := q\<rparr>
          in case sched_get so s1 i of
               None \<Rightarrow> (Continue, s1)
             | Some j \<Rightarrow>
                 if Status j = Cancelled \<or> Status j = Completed \<or> Status j = Failed then (Continue, s1)
                 else
                   let (ok, s2) = Dispatch so done now submit j s1
                   in if \<not> ok \<and> done then (Return, s2) else (Continue, s2))"

section \<open>Results\<close>

definition MaxBackoff_default :: duration where
  "MaxBackoff_default = Minute"

text \<open>
  One result in \<open>resultLoop\<close>. Calling \<open>Error()\<close> on the nil error of an unsuccessful
  result panics, as does a negative shift in the backoff: \<open>None\<close>.
\<close>

definition handle_result :: "'s store_ops \<Rightarrow> time \<Rightarrow> result \<Rightarrow> 's scheduler \<Rightarrow> 's scheduler option" where
  "handle_result so now r s =
     (case sched_get so s (rJobID r) of
        None \<Rightarrow> Some s
      | Some j \<Rightarrow>
          if (case lease_Get (rJobID r) (Leases s) of
                None \<Rightarrow> False
              | Some l \<Rightarrow> rAttempt r > 0 \<and> rAttempt r \<noteq> lAttempt l)
          then Some s
          else
            let s1 = s\<lparr>Leases := Release (rJobID r) (Leases s)\<rparr>
            in if rSuccess r then
                 Some (s1\<lparr>sStore := snd (st_Update so (j\<lparr>Status := Completed\<rparr>) (sStore s1))\<rparr>)
               else if ShouldRetry j then
                 (let j1 = j\<lparr>RetryCount := wrap64 (RetryCount j + 1), Status := Scheduled\<rparr>
                  in case rError r of
                       None \<Rightarrow> None
                     | Some e \<Rightarrow>
                         let j2 = j1\<lparr>LastError := error_string e\<rparr>
                         in case NextRetryTime j2 MaxBackoff_default now of
                              None \<Rightarrow> None
                            | Some t \<Rightarrow>
                                let j3 = j2\<lparr>NextRunAt := t\<rparr>;
                                    s2 = s1\<lparr>sStore := snd (st_Update so j3 (sStore s1))\<rparr>
                                in Some (enqueueJob so (ID j3) TheDelayQueue s2))
               else
                 (case rError r of
                    None \<Rightarrow> None
                  | Some e \<Rightarrow>
                      let j1 = j\<lparr>Status := Failed, LastError := error_string e\<rparr>;
                          st1 = snd (st_Update so j1 (sStore s1));
                          st2 = snd (st_AddDLQ so j1 st1)
                      in Some (s1\<lparr>sStore := st2, sDLQ := dlq_Add j1 (sDLQ s1)\<rparr>)))"

section \<open>Delayed jobs\<close>

definition drop_delayed :: "'s store_ops \<Rightarrow> 's scheduler \<Rightarrow> 's scheduler" where
  "drop_delayed so s =
     (case Dequeue (DelayComparator (sched_get so s)) (DelayQueue s) of
        None \<Rightarrow> s
      | Some (i, q) \<Rightarrow> s\<lparr>DelayQueue := q\<rparr>)"

lemma drop_delayed_ids:
  "Peek (DelayQueue s) = Some i \<Longrightarrow>
    queue_ids (DelayQueue s) = add_mset i (queue_ids (DelayQueue (drop_delayed so s)))"
  using jq.ids_deq [of "DelayComparator (sched_get so s)" "DelayQueue s"]
    jq.peek_deq [of "DelayQueue s" "DelayComparator (sched_get so s)"]
  by (auto simp: drop_delayed_def split: option.splits)

lemma drop_delayed_size:
  "Peek (DelayQueue s) = Some i \<Longrightarrow>
    size (queue_ids (DelayQueue (drop_delayed so s))) < size (queue_ids (DelayQueue s))"
  using drop_delayed_ids [of s i so] by simp

lemma drop_delayed_frames [simp]:
  "sStore (drop_delayed so s) = sStore s" "PriorityQueue (drop_delayed so s) = PriorityQueue s"
  "Leases (drop_delayed so s) = Leases s" "sDLQ (drop_delayed so s) = sDLQ s"
  "Manager (drop_delayed so s) = Manager s" "Results (drop_delayed so s) = Results s"
  by (auto simp: drop_delayed_def split: option.splits)

lemma enqueueJob_frames [simp]:
  "sStore (enqueueJob so i q s) = sStore s" "Leases (enqueueJob so i q s) = Leases s"
  "sDLQ (enqueueJob so i q s) = sDLQ s" "Manager (enqueueJob so i q s) = Manager s"
  "Results (enqueueJob so i q s) = Results s"
  "sched_get so (enqueueJob so i q s) = sched_get so s"
  by (simp_all add: enqueueJob_def sched_get_def split: queue_ref.split)

lemma enqueueJob_ids [simp]:
  "queue_ids (PriorityQueue (enqueueJob so i q s)) =
     (if q = ThePriorityQueue then add_mset i (queue_ids (PriorityQueue s)) else queue_ids (PriorityQueue s))"
  "queue_ids (DelayQueue (enqueueJob so i q s)) =
     (if q = TheDelayQueue then add_mset i (queue_ids (DelayQueue s)) else queue_ids (DelayQueue s))"
  by (simp_all add: enqueueJob_def queue_ids_Enqueue split: queue_ref.split)

text \<open>
  \<open>ProcessDelayedJobs\<close>: one iteration (\<open>None\<close> where it returns) and the loop; the clock is
  read once in every iteration.
\<close>

definition delay_step :: "'s store_ops \<Rightarrow> time \<Rightarrow> 's scheduler \<Rightarrow> 's scheduler option" where
  "delay_step so now s =
     (case Peek (DelayQueue s) of
        None \<Rightarrow> None
      | Some i \<Rightarrow>
          (case sched_get so s i of
             None \<Rightarrow> Some (drop_delayed so s)
           | Some j \<Rightarrow>
               if now < NextRunAt j then None
               else
                 let s1 = drop_delayed so s
                 in case st_Update so (j\<lparr>Status := Pending\<rparr>) (sStore s1) of
                      (Some e, st) \<Rightarrow> Some (s1\<lparr>sStore := st\<rparr>)
                    | (None, st) \<Rightarrow> Some (enqueueJob so i ThePriorityQueue (s1\<lparr>sStore := st\<rparr>))))"

lemma delay_step_size:
  "delay_step so now s = Some s' \<Longrightarrow>
    size (queue_ids (DelayQueue s')) < size (queue_ids (DelayQueue s))"
  by (auto simp: delay_step_def Let_def intro: drop_delayed_size split: option.splits if_splits prod.splits)

function ProcessDelayedJobs :: "'s store_ops \<Rightarrow> (nat \<Rightarrow> time) \<Rightarrow> 's scheduler \<Rightarrow> 's scheduler" where
  "ProcessDelayedJobs so clock s =
     (case delay_step so (clock 0) s of
        None \<Rightarrow> s
      | Some s' \<Rightarrow> ProcessDelayedJobs so (\<lambda>n. clock (Suc n)) s')"
  by pat_completeness auto

termination
  by (relation "measure (\<lambda>(so, clock, s). size (queue_ids (DelayQueue s)))")
    (auto intro: delay_step_size)

declare ProcessDelayedJobs.simps [simp del]

text \<open>One iteration of \<open>delayLoop\<close>, up to where it waits for a notification or a timer.\<close>

definition delay_iter :: "'s store_ops \<Rightarrow> time \<Rightarrow> (nat \<Rightarrow> time) \<Rightarrow> 's scheduler \<Rightarrow> 's scheduler" where
  "delay_iter so now clock s =
     (case Peek (DelayQueue s) of
        None \<Rightarrow> s
      | Some i \<Rightarrow>
          (case sched_get so s i of
             None \<Rightarrow> drop_delayed so s
           | Some j \<Rightarrow> if time_Sub (NextRunAt j) now \<le> 0 then ProcessDelayedJobs so clock s else s))"

text \<open>
  What \<open>delayLoop\<close> then waits for, and what it does when it wakes: \<open>None\<close> is its return.
\<close>

datatype delay_wait = NoWait | ForNotice | ForTimer duration

definition delay_plan :: "'s store_ops \<Rightarrow> time \<Rightarrow> 's scheduler \<Rightarrow> delay_wait" where
  "delay_plan so now s =
     (case Peek (DelayQueue s) of
        None \<Rightarrow> ForNotice
      | Some i \<Rightarrow>
          (case sched_get so s i of
             None \<Rightarrow> NoWait
           | Some j \<Rightarrow> (let wait = time_Sub (NextRunAt j) now in if wait \<le> 0 then NoWait else ForTimer wait)))"

datatype delay_wake = CtxDone | TimerFired | Notified

definition delay_resume :: "'s store_ops \<Rightarrow> (nat \<Rightarrow> time) \<Rightarrow> delay_wake \<Rightarrow> 's scheduler \<Rightarrow> 's scheduler option" where
  "delay_resume so clock wake s =
     (case wake of
        CtxDone \<Rightarrow> None
      | TimerFired \<Rightarrow> Some (ProcessDelayedJobs so clock s)
      | Notified \<Rightarrow> Some s)"

section \<open>Recovery\<close>

definition recover_job :: "'s store_ops \<Rightarrow> int \<Rightarrow> 's scheduler \<Rightarrow> 's scheduler" where
  "recover_job so jobID s =
     (case sched_get so s jobID of
        None \<Rightarrow> s
      | Some j \<Rightarrow> if Status j = Pending then enqueueJob so jobID ThePriorityQueue s else s)"

definition recover_worker :: "'s store_ops \<Rightarrow> order_choice \<Rightarrow> int \<Rightarrow> 's scheduler \<Rightarrow> 's scheduler" where
  "recover_worker so ord workerID s =
     (let (releasedJobIDs, lm) = ReleaseByWorker ord workerID (Leases s)
      in fold (recover_job so) releasedJobIDs (s\<lparr>Leases := lm\<rparr>))"

section \<open>No job is lost\<close>

text \<open>
  What the loops must maintain together: a pending job is in the priority queue or a worker
  holds its lease, and a scheduled job is in the delay queue. The version with a hole
  excepts the job that a loop has in its hands.
\<close>

definition tracked_but :: "int set \<Rightarrow> 's store_ops \<Rightarrow> 's scheduler \<Rightarrow> bool" where
  "tracked_but X so s \<longleftrightarrow>
     (\<forall>i j. i \<notin> X \<longrightarrow> sched_get so s i = Some j \<longrightarrow>
        (Status j = Pending \<longrightarrow> i \<in># queue_ids (PriorityQueue s) \<or> lease_Get i (Leases s) \<noteq> None) \<and>
        (Status j = Scheduled \<longrightarrow> i \<in># queue_ids (DelayQueue s)))"

abbreviation tracked :: "'s store_ops \<Rightarrow> 's scheduler \<Rightarrow> bool" where
  "tracked \<equiv> tracked_but {}"

lemma tracked_but_mono: "tracked_but X so s \<Longrightarrow> X \<subseteq> Y \<Longrightarrow> tracked_but Y so s"
  by (auto simp: tracked_but_def)

lemma tracked_but_enqueue: "tracked_but X so s \<Longrightarrow> tracked_but X so (enqueueJob so i q s)"
  by (auto simp: tracked_but_def)

lemma tracked_insert:
  assumes "tracked_but (insert i X) so s"
    "\<And>j. sched_get so s i = Some j \<Longrightarrow>
      (Status j = Pending \<longrightarrow> i \<in># queue_ids (PriorityQueue s) \<or> lease_Get i (Leases s) \<noteq> None) \<and>
      (Status j = Scheduled \<longrightarrow> i \<in># queue_ids (DelayQueue s))"
  shows "tracked_but X so s"
  using assms unfolding tracked_but_def by (metis insertE)

lemma tracked_close:
  assumes "tracked_but (insert i X) so s"
    "\<And>j. sched_get so s i = Some j \<Longrightarrow> Status j \<noteq> Pending \<and> Status j \<noteq> Scheduled"
  shows "tracked_but X so s"
  using assms(1) by (rule tracked_insert) (use assms(2) in blast)

lemma tracked_fill_pending:
  assumes "tracked_but (insert i X) so s" "\<And>j. sched_get so s i = Some j \<Longrightarrow> Status j \<noteq> Scheduled"
  shows "tracked_but X so (enqueueJob so i ThePriorityQueue s)"
  using tracked_but_enqueue [OF assms(1)] by (rule tracked_insert) (use assms(2) in auto)

lemma tracked_fill_scheduled:
  assumes "tracked_but (insert i X) so s" "\<And>j. sched_get so s i = Some j \<Longrightarrow> Status j \<noteq> Pending"
  shows "tracked_but X so (enqueueJob so i TheDelayQueue s)"
  using tracked_but_enqueue [OF assms(1)] by (rule tracked_insert) (use assms(2) in auto)

text \<open>
  Dispatching a job that has just left the priority queue hands it to a worker under a
  lease or puts it back, as long as the context lives.
\<close>

lemma Dispatch_frames:
  assumes "Dispatch so d now submit j s = (ok, s')"
  shows "sStore s' = sStore s" "DelayQueue s' = DelayQueue s" "sDLQ s' = sDLQ s"
    "Results s' = Results s" "sched_get so s' = sched_get so s"
  using assms
  by (auto simp: Dispatch_def enqueueJob_def sched_get_def Let_def split: if_splits option.splits prod.splits)

lemma Dispatch_keeps:
  assumes "Dispatch so False now submit j s = (ok, s')"
  shows "ID j \<in># queue_ids (PriorityQueue s') \<or> lease_Get (ID j) (Leases s') \<noteq> None"
    and "set_mset (queue_ids (PriorityQueue s)) \<subseteq> set_mset (queue_ids (PriorityQueue s'))"
    and "i \<noteq> ID j \<Longrightarrow> lease_Get i (Leases s') = lease_Get i (Leases s)"
  using assms
  by (auto simp: Dispatch_def Let_def lease_Get_Acquire lease_Get_Release queue_ids_Enqueue enqueueJob_def
      split: if_splits option.splits prod.splits)

lemma tracked_Dispatch:
  assumes t: "tracked_but {ID j} so s" and d: "Dispatch so False now submit j s = (ok, s')"
    and dq: "Status j = Scheduled \<longrightarrow> ID j \<in># queue_ids (DelayQueue s)" and g: "sched_get so s (ID j) = Some j"
  shows "tracked so s'"
  unfolding tracked_but_def
proof (intro allI impI)
  fix i j'
  assume a: "sched_get so s' i = Some j'"
  show "(Status j' = Pending \<longrightarrow> i \<in># queue_ids (PriorityQueue s') \<or> lease_Get i (Leases s') \<noteq> None) \<and>
        (Status j' = Scheduled \<longrightarrow> i \<in># queue_ids (DelayQueue s'))"
  proof (cases "i = ID j")
    case True
    then have "j' = j" using a g Dispatch_frames(5) [OF d] by simp
    then show ?thesis using True Dispatch_keeps(1) [OF d] dq Dispatch_frames(2) [OF d] by auto
  next
    case False
    then show ?thesis
      using t a Dispatch_frames [OF d] Dispatch_keeps(2) [OF d] Dispatch_keeps(3) [OF d, of i]
      by (auto simp: tracked_but_def)
  qed
qed

lemma dispatch_iter_tracked:
  assumes t: "tracked so s" and id: "\<And>i j. sched_get so s i = Some j \<Longrightarrow> ID j = i"
    and r: "dispatch_iter so False now submit s = (st, s')"
  shows "tracked so s'"
proof (cases "Dequeue (PriorityComparator (sched_get so s)) (PriorityQueue s)")
  case None
  then show ?thesis using r t by (simp add: dispatch_iter_def)
next
  case (Some p)
  obtain i q where p: "p = (i, q)" by fastforce
  have q: "queue_ids (PriorityQueue s) = add_mset i (queue_ids q)"
    using jq.ids_deq Some p by blast
  let ?s1 = "s\<lparr>PriorityQueue := q\<rparr>"
  have g1: "sched_get so ?s1 = sched_get so s" by (simp add: sched_get_def)
  have t1: "tracked_but {i} so ?s1"
    using t q by (auto simp: tracked_but_def g1)
  show ?thesis
  proof (cases "sched_get so s i")
    case None
    then have "s' = ?s1" using r Some p g1 by (simp add: dispatch_iter_def)
    then show ?thesis using tracked_close [OF t1] None g1 by simp
  next
    case j: (Some j)
    show ?thesis
    proof (cases "Status j = Cancelled \<or> Status j = Completed \<or> Status j = Failed")
      case True
      then have "s' = ?s1" using r Some p g1 j by (simp add: dispatch_iter_def)
      then show ?thesis using tracked_close [OF t1] j True g1 by auto
    next
      case False
      then have "Dispatch so False now submit j ?s1 = (fst (Dispatch so False now submit j ?s1), s')"
        using r Some p g1 j by (simp add: dispatch_iter_def split: prod.splits)
      moreover have "Status j = Scheduled \<longrightarrow> i \<in># queue_ids (DelayQueue s)"
        using t j by (auto simp: tracked_but_def)
      ultimately show ?thesis using tracked_Dispatch [of j so ?s1] t1 id [OF j] j g1 by simp
    qed
  qed
qed

lemma recover_job_frames [simp]:
  "sStore (recover_job so i s) = sStore s" "Leases (recover_job so i s) = Leases s"
  "DelayQueue (recover_job so i s) = DelayQueue s" "sched_get so (recover_job so i s) = sched_get so s"
  by (auto simp: recover_job_def sched_get_def enqueueJob_def split: option.splits)

lemma recover_job_pending:
  "sched_get so s i = Some j \<Longrightarrow> Status j = Pending \<Longrightarrow> i \<in># queue_ids (PriorityQueue (recover_job so i s))"
  by (simp add: recover_job_def)

lemma tracked_recover_jobs:
  "tracked_but (set is) so s \<Longrightarrow>
    (\<And>i j. i \<in> set is \<Longrightarrow> sched_get so s i = Some j \<Longrightarrow> Status j = Scheduled \<Longrightarrow> i \<in># queue_ids (DelayQueue s)) \<Longrightarrow>
    tracked so (fold (recover_job so) is s)"
proof (induction "is" arbitrary: s)
  case (Cons i "is")
  have "tracked_but (insert i (set is)) so (recover_job so i s)"
    using Cons.prems(1) tracked_but_enqueue by (auto simp: recover_job_def split: option.split)
  then have "tracked_but (set is) so (recover_job so i s)"
    by (rule tracked_insert) (use Cons.prems(2) [of i] in \<open>auto simp: recover_job_pending\<close>)
  then show ?case using Cons.IH [of "recover_job so i s"] Cons.prems(2) by simp
qed simp

lemma tracked_recover_worker:
  assumes t: "tracked so s" and l: "lease_inv (Leases s)"
  shows "tracked so (recover_worker so ord w s)"
proof -
  obtain "is" lm where r: "ReleaseByWorker ord w (Leases s) = (is, lm)" by fastforce
  have g: "sched_get so (s\<lparr>Leases := lm\<rparr>) = sched_get so s" by (simp add: sched_get_def)
  have keep: "lease_Get i lm = lease_Get i (Leases s)" if "i \<notin> set is" for i
    using that ReleaseByWorker_Get [OF l, of i ord w] ReleaseByWorker_ids [OF l, of i ord w]
    by (auto simp: r split: option.splits)
  have "tracked_but (set is) so (s\<lparr>Leases := lm\<rparr>)"
    using t keep unfolding tracked_but_def g by simp
  moreover have "\<And>i j. sched_get so s i = Some j \<Longrightarrow> Status j = Scheduled \<Longrightarrow> i \<in># queue_ids (DelayQueue s)"
    using t by (auto simp: tracked_but_def)
  ultimately show ?thesis using tracked_recover_jobs [of "is" so "s\<lparr>Leases := lm\<rparr>"]
    by (simp add: recover_worker_def r sched_get_def)
qed

text \<open>What one result does, case by case.\<close>

definition retry_job :: "error \<Rightarrow> job \<Rightarrow> job" where
  "retry_job e j = j\<lparr>RetryCount := wrap64 (RetryCount j + 1), Status := Scheduled, LastError := error_string e\<rparr>"

definition failed_job :: "error \<Rightarrow> job \<Rightarrow> job" where
  "failed_job e j = j\<lparr>Status := Failed, LastError := error_string e\<rparr>"

lemma retry_job_simps [simp]:
  "ID (retry_job e j) = ID j" "IdempotencyKey (retry_job e j) = IdempotencyKey j"
  "Status (retry_job e j) = Scheduled" "RetryCount (retry_job e j) = wrap64 (RetryCount j + 1)"
  "ID (failed_job e j) = ID j" "IdempotencyKey (failed_job e j) = IdempotencyKey j"
  "Status (failed_job e j) = Failed"
  by (simp_all add: retry_job_def failed_job_def)

definition stale_result :: "'s scheduler \<Rightarrow> result \<Rightarrow> bool" where
  "stale_result s r \<longleftrightarrow>
     (\<exists>l. lease_Get (rJobID r) (Leases s) = Some l \<and> rAttempt r > 0 \<and> rAttempt r \<noteq> lAttempt l)"

lemma handle_result_unfold:
  assumes "sched_get so s (rJobID r) = Some j"
  shows "handle_result so now r s =
    (if stale_result s r then Some s
     else
       let s1 = s\<lparr>Leases := Release (rJobID r) (Leases s)\<rparr>
       in if rSuccess r then Some (s1\<lparr>sStore := snd (st_Update so (j\<lparr>Status := Completed\<rparr>) (sStore s))\<rparr>)
          else if ShouldRetry j then
            Option.bind (rError r) (\<lambda>e. Option.bind (NextRetryTime (retry_job e j) MaxBackoff_default now) (\<lambda>t.
              Some (enqueueJob so (ID j) TheDelayQueue
                (s1\<lparr>sStore := snd (st_Update so ((retry_job e j)\<lparr>NextRunAt := t\<rparr>) (sStore s))\<rparr>))))
          else
            Option.bind (rError r) (\<lambda>e. Some (s1\<lparr>sStore :=
              snd (st_AddDLQ so (failed_job e j) (snd (st_Update so (failed_job e j) (sStore s)))),
              sDLQ := dlq_Add (failed_job e j) (sDLQ s)\<rparr>)))"
  using assms
  by (auto simp: handle_result_def stale_result_def retry_job_def failed_job_def Let_def split: option.splits)

lemma handle_result_cases:
  assumes r: "handle_result so now r s = Some s'"
  obtains (ignored) "s' = s"
  | (succeeded) j where "sched_get so s (rJobID r) = Some j"
      "s' = s\<lparr>Leases := Release (rJobID r) (Leases s), sStore := snd (st_Update so (j\<lparr>Status := Completed\<rparr>) (sStore s))\<rparr>"
  | (retried) j e t where "sched_get so s (rJobID r) = Some j" "RetryCount j < MaxRetries j"
      "s' = enqueueJob so (ID j) TheDelayQueue (s\<lparr>Leases := Release (rJobID r) (Leases s),
         sStore := snd (st_Update so ((retry_job e j)\<lparr>NextRunAt := t\<rparr>) (sStore s))\<rparr>)"
  | (dead) j e where "sched_get so s (rJobID r) = Some j"
      "s' = s\<lparr>Leases := Release (rJobID r) (Leases s),
         sStore := snd (st_AddDLQ so (failed_job e j) (snd (st_Update so (failed_job e j) (sStore s)))),
         sDLQ := dlq_Add (failed_job e j) (sDLQ s)\<rparr>"
proof (cases "sched_get so s (rJobID r)")
  case None
  then show ?thesis using r ignored by (simp add: handle_result_def)
next
  case (Some j)
  show ?thesis
  proof (cases "stale_result s r")
    case True
    then show ?thesis using r ignored by (simp add: handle_result_unfold [OF Some])
  next
    case fresh: False
    show ?thesis
    proof (cases "rSuccess r")
      case True
      then show ?thesis using r fresh succeeded [OF Some] by (simp add: handle_result_unfold [OF Some])
    next
      case failed: False
      show ?thesis
      proof (cases "ShouldRetry j")
        case True
        then show ?thesis using r fresh failed retried [OF Some]
          by (auto simp: handle_result_unfold [OF Some] ShouldRetry_def bind_eq_Some_conv)
      next
        case False
        then show ?thesis using r fresh failed dead [OF Some]
          by (auto simp: handle_result_unfold [OF Some] bind_eq_Some_conv)
      qed
    qed
  qed
qed

text \<open>
  What the scheduler asks of its store. Rebuilding the queues works with any backend that can list its jobs; that the loops lose no
  job needs one without faults, since they only log a failed update.
\<close>

locale queue_source = job_store +
  assumes ListByStatus_lists: "inv s \<Longrightarrow> named st \<Longrightarrow> \<exists>js. st_ListByStatus so ord st s = Inr js"

locale scheduler_store = queue_source so inv abs + reliable_store so inv abs
  for so :: "'s store_ops" and inv :: "'s \<Rightarrow> bool" and abs :: "'s \<Rightarrow> astore"
begin

lemma Get_Update:
  assumes "inv s" "st_Get so s i = Some j" "ID j' = i" "IdempotencyKey j' = IdempotencyKey j"
  shows "inv (snd (st_Update so j' s))"
    and "st_Get so (snd (st_Update so j' s)) =
      (if IsValidTransition (Status j) (Status j') then (st_Get so s)(i \<mapsto> j') else st_Get so s)"
    and "fst (st_Update so j' s) = None \<longleftrightarrow> IsValidTransition (Status j) (Status j')"
proof -
  have a: "aJobs (abs s) i = Some j" using assms(1,2) by (simp add: Get_abs)
  show v: "inv (snd (st_Update so j' s))"
    using assms a by (intro Update_snd_inv) (simp_all add: aSameKey_def)
  show "fst (st_Update so j' s) = None \<longleftrightarrow> IsValidTransition (Status j) (Status j')"
    using Update_effect(2) [OF assms(1), of j'] a assms(3) by (simp add: aUpdate_def)
  show "st_Get so (snd (st_Update so j' s)) =
      (if IsValidTransition (Status j) (Status j') then (st_Get so s)(i \<mapsto> j') else st_Get so s)"
    using Update_effect(1) [OF assms(1), of j'] a assms(1,3) v by (simp add: Get_abs aUpdate_def aPut_def)
qed

lemma tracked_success:
  assumes "inv (sStore s)" "tracked so s" "sched_get so s i = Some j" "ID j = i"
  shows "tracked so (s\<lparr>Leases := Release i (Leases s),
    sStore := snd (st_Update so (j\<lparr>Status := Completed\<rparr>) (sStore s))\<rparr>)"
    (is "tracked so ?s")
proof (rule tracked_insert [of i])
  have g: "sched_get so ?s = (if IsValidTransition (Status j) Completed
      then (sched_get so s)(i \<mapsto> j\<lparr>Status := Completed\<rparr>) else sched_get so s)"
    using Get_Update(2) [OF assms(1), of i j "j\<lparr>Status := Completed\<rparr>"] assms by (simp add: sched_get_def)
  show "tracked_but {i} so ?s"
    using assms(2) unfolding tracked_but_def g by (simp add: lease_Get_Release)
  fix j' assume "sched_get so ?s i = Some j'"
  then show "(Status j' = Pending \<longrightarrow> i \<in># queue_ids (PriorityQueue ?s) \<or> lease_Get i (Leases ?s) \<noteq> None) \<and>
      (Status j' = Scheduled \<longrightarrow> i \<in># queue_ids (DelayQueue ?s))"
    using assms(2,3) unfolding g by (auto simp: tracked_but_def split: if_splits)
qed

lemma tracked_retry:
  assumes "inv (sStore s)" "tracked so s" "sched_get so s i = Some j" "ID j' = i"
    "IdempotencyKey j' = IdempotencyKey j" "Status j' = Scheduled"
  shows "tracked so (enqueueJob so i TheDelayQueue
    (s\<lparr>Leases := Release i (Leases s), sStore := snd (st_Update so j' (sStore s))\<rparr>))"
    (is "tracked so (enqueueJob so i TheDelayQueue ?s)")
proof (rule tracked_fill_scheduled)
  have g: "sched_get so ?s = (if IsValidTransition (Status j) Scheduled
      then (sched_get so s)(i \<mapsto> j') else sched_get so s)"
    using Get_Update(2) [OF assms(1), of i j j'] assms by (simp add: sched_get_def)
  show "tracked_but {i} so ?s"
    using assms(2) unfolding tracked_but_def g by (simp add: lease_Get_Release)
  show "Status x \<noteq> Pending" if "sched_get so ?s i = Some x" for x
    using that assms(3,6) unfolding g by (auto split: if_splits)
qed

lemma tracked_fail:
  assumes "inv (sStore s)" "tracked so s" "sched_get so s i = Some j" "ID j' = i"
    "IdempotencyKey j' = IdempotencyKey j" "Status j' = Failed"
  shows "tracked so (s\<lparr>Leases := Release i (Leases s),
    sStore := snd (st_AddDLQ so j' (snd (st_Update so j' (sStore s)))), sDLQ := d\<rparr>)"
    (is "tracked so ?s")
proof (rule tracked_insert [of i])
  let ?st = "snd (st_Update so j' (sStore s))"
  have v: "inv ?st" using Get_Update(1) [OF assms(1), of i j j'] assms by (simp add: sched_get_def)
  have "st_Get so (snd (st_AddDLQ so j' ?st)) = st_Get so ?st"
    using AddDLQ_snd [OF v, of j'] v by (simp add: Get_abs)
  then have g: "sched_get so ?s = (if IsValidTransition (Status j) Failed
      then (sched_get so s)(i \<mapsto> j') else sched_get so s)"
    using Get_Update(2) [OF assms(1), of i j j'] assms by (simp add: sched_get_def)
  show "tracked_but {i} so ?s"
    using assms(2) unfolding tracked_but_def g by (simp add: lease_Get_Release)
  fix x assume "sched_get so ?s i = Some x"
  then show "(Status x = Pending \<longrightarrow> i \<in># queue_ids (PriorityQueue ?s) \<or> lease_Get i (Leases ?s) \<noteq> None) \<and>
      (Status x = Scheduled \<longrightarrow> i \<in># queue_ids (DelayQueue ?s))"
    using assms(2,3,6) unfolding g by (auto simp: tracked_but_def split: if_splits)
qed

lemma handle_result_tracked:
  assumes inv: "inv (sStore s)" and t: "tracked so s" and r: "handle_result so now r s = Some s'"
  shows "tracked so s'" and "inv (sStore s')"
proof -
  have up: "inv (snd (st_Update so x (sStore s)))"
    if "sched_get so s (rJobID r) = Some j" "ID x = ID j" "IdempotencyKey x = IdempotencyKey j" for x j
    using Get_Update(1) [OF inv, of "rJobID r" j x] Get_ID [OF inv, of "rJobID r" j] that by (simp add: sched_get_def)
  have id: "ID j = rJobID r" if "sched_get so s (rJobID r) = Some j" for j
    using Get_ID [OF inv] that by (simp add: sched_get_def)
  have "tracked so s' \<and> inv (sStore s')"
    using r
  proof (cases rule: handle_result_cases)
    case ignored
    then show ?thesis using t inv by simp
  next
    case (succeeded j)
    then show ?thesis using tracked_success [OF inv t] up id by simp
  next
    case (retried j e tm)
    then show ?thesis using tracked_retry [OF inv t, of "rJobID r" j "(retry_job e j)\<lparr>NextRunAt := tm\<rparr>"] up id by simp
  next
    case (dead j e)
    then show ?thesis using tracked_fail [OF inv t, of "rJobID r" j "failed_job e j"] up [of j "failed_job e j"] id
        AddDLQ_snd [of "snd (st_Update so (failed_job e j) (sStore s))" "failed_job e j"] by simp
  qed
  then show "tracked so s'" "inv (sStore s')" by auto
qed

lemma delay_step_tracked:
  assumes inv: "inv (sStore s)" and t: "tracked so s" and r: "delay_step so now s = Some s'"
  shows "tracked so s' \<and> inv (sStore s')"
proof -
  obtain i where i: "Peek (DelayQueue s) = Some i" using r by (auto simp: delay_step_def split: option.splits)
  let ?s1 = "drop_delayed so s"
  have g1: "sched_get so ?s1 = sched_get so s" by (simp add: sched_get_def)
  have t1: "tracked_but {i} so ?s1"
    using t drop_delayed_ids [OF i, of so] unfolding tracked_but_def g1 by auto
  show ?thesis
  proof (cases "sched_get so s i")
    case None
    then show ?thesis using r i inv tracked_close [OF t1] g1 by (auto simp: delay_step_def)
  next
    case j: (Some j)
    let ?j = "j\<lparr>Status := Pending\<rparr>"
    have id: "ID j = i" using Get_ID [OF inv] j by (simp add: sched_get_def)
    obtain e st where u: "st_Update so ?j (sStore s) = (e, st)" by fastforce
    have gj: "st_Get so (sStore s) i = Some j" using j by (simp add: sched_get_def)
    let ?s2 = "?s1\<lparr>sStore := st\<rparr>"
    have st: "inv st" "sched_get so ?s2 = (if IsValidTransition (Status j) Pending then (sched_get so s)(i \<mapsto> ?j) else sched_get so s)"
      "e = None \<longleftrightarrow> IsValidTransition (Status j) Pending"
      using Get_Update [OF inv gj, of ?j] id u by (simp_all add: sched_get_def)
    have t2: "tracked_but {i} so ?s2" using t1 unfolding tracked_but_def g1 st(2) by simp
    show ?thesis
    proof (cases e)
      case None
      then have "tracked so (enqueueJob so i ThePriorityQueue ?s2)"
        using t2 st(3) by (intro tracked_fill_pending) (auto simp: st(2))
      then show ?thesis using r i j u None st(1) by (auto simp: delay_step_def split: if_splits)
    next
      case (Some x)
      then have nv: "\<not> IsValidTransition (Status j) Pending" using st(3) by simp
      then have "Status j \<noteq> Pending \<and> Status j \<noteq> Scheduled" by auto
      moreover have "sched_get so ?s2 i = Some j" using nv j by (simp add: st(2))
      ultimately have "tracked so ?s2" using tracked_close [OF t2] by simp
      then show ?thesis using r i j u Some st(1) by (auto simp: delay_step_def split: if_splits)
    qed
  qed
qed

lemma ProcessDelayedJobs_tracked:
  "inv (sStore s) \<Longrightarrow> tracked so s \<Longrightarrow>
    tracked so (ProcessDelayedJobs so clock s) \<and> inv (sStore (ProcessDelayedJobs so clock s))"
proof (induction "size (queue_ids (DelayQueue s))" arbitrary: s clock rule: less_induct)
  case less
  show ?case
  proof (cases "delay_step so (clock 0) s")
    case None
    then show ?thesis using less.prems by (simp add: ProcessDelayedJobs.simps [of so clock s])
  next
    case (Some s')
    then show ?thesis
      using delay_step_tracked [OF less.prems Some] less.hyps [OF delay_step_size [OF Some], of "\<lambda>n. clock (Suc n)"]
      by (simp add: ProcessDelayedJobs.simps [of so clock s])
  qed
qed

end

text \<open>
  Rebuilding the queues tracks every job, whatever the queues and leases were before: the
  state a leader starts from.
\<close>

lemma enqueue_all:
  "queue_ids (PriorityQueue (fold (\<lambda>j. enqueueJob so (ID j) q) js s)) =
     queue_ids (PriorityQueue s) + (if q = ThePriorityQueue then mset (map ID js) else {#})"
  "queue_ids (DelayQueue (fold (\<lambda>j. enqueueJob so (ID j) q) js s)) =
     queue_ids (DelayQueue s) + (if q = TheDelayQueue then mset (map ID js) else {#})"
  "sStore (fold (\<lambda>j. enqueueJob so (ID j) q) js s) = sStore s"
  "Leases (fold (\<lambda>j. enqueueJob so (ID j) q) js s) = Leases s"
  by (induction js arbitrary: s) auto

context queue_source
begin

lemma Rebuild_succeeds:
  assumes "inv (sStore s)"
  shows "\<exists>s'. RebuildQueuesFromStore so ord1 ord2 s = (None, s')"
proof -
  have n: "named Pending" "named Scheduled" by (simp_all add: named_def)
  obtain ps ds where "st_ListByStatus so ord1 Pending (sStore s) = Inr ps" "st_ListByStatus so ord2 Scheduled (sStore s) = Inr ds"
    using ListByStatus_lists [OF assms] n by blast
  then show ?thesis by (simp add: RebuildQueuesFromStore_def Let_def enqueue_all)
qed

lemma Rebuild_effect:
  assumes "inv (sStore s)" "RebuildQueuesFromStore so ord1 ord2 s = (None, s')"
  shows "\<exists>ps ds. distinct ps \<and> distinct ds \<and>
    set ps = {i. \<exists>j. sched_get so s i = Some j \<and> Status j = Pending} \<and>
    set ds = {i. \<exists>j. sched_get so s i = Some j \<and> Status j = Scheduled} \<and>
    queue_ids (PriorityQueue s') = queue_ids (PriorityQueue s) + mset ps \<and>
    queue_ids (DelayQueue s') = queue_ids (DelayQueue s) + mset ds \<and>
    sStore s' = sStore s \<and> Leases s' = Leases s"
proof -
  have n: "named Pending" "named Scheduled" by (simp_all add: named_def)
  obtain pj where p: "st_ListByStatus so ord1 Pending (sStore s) = Inr pj"
    using assms(2) by (auto simp: RebuildQueuesFromStore_def split: sum.splits)
  obtain dj where d: "st_ListByStatus so ord2 Scheduled (sStore s) = Inr dj"
    and s': "s' = fold (\<lambda>j. enqueueJob so (ID j) TheDelayQueue) dj
      (fold (\<lambda>j. enqueueJob so (ID j) ThePriorityQueue) pj s)"
    using assms(2) p by (auto simp: RebuildQueuesFromStore_def Let_def enqueue_all split: sum.splits)
  have "distinct (map ID pj)" "distinct (map ID dj)"
    using ListByStatus_abs [OF assms(1) n(1) p] ListByStatus_abs [OF assms(1) n(2) d] by auto
  moreover have "set (map ID pj) = {i. \<exists>j. sched_get so s i = Some j \<and> Status j = Pending}"
    "set (map ID dj) = {i. \<exists>j. sched_get so s i = Some j \<and> Status j = Scheduled}"
    by (simp_all add: set_eq_iff ListByStatus_ids [OF assms(1) n(1) p] ListByStatus_ids [OF assms(1) n(2) d]
        sched_get_def del: set_map)
  ultimately show ?thesis unfolding s'
    by (intro exI [of _ "map ID pj"] exI [of _ "map ID dj"]) (simp add: enqueue_all)
qed

lemma Rebuild_counts:
  assumes "inv (sStore s)" "RebuildQueuesFromStore so ord1 ord2 s = (None, s')"
  shows "count (queue_ids (PriorityQueue s')) i = count (queue_ids (PriorityQueue s)) i +
      (if \<exists>j. sched_get so s i = Some j \<and> Status j = Pending then 1 else 0)"
    and "count (queue_ids (DelayQueue s')) i = count (queue_ids (DelayQueue s)) i +
      (if \<exists>j. sched_get so s i = Some j \<and> Status j = Scheduled then 1 else 0)"
    and "sStore s' = sStore s" and "Leases s' = Leases s"
  using Rebuild_effect [OF assms] by (auto simp: distinct_count_atmost_1)

lemma Rebuild_tracked:
  assumes "inv (sStore s)" "RebuildQueuesFromStore so ord1 ord2 s = (None, s')"
  shows "tracked so s'"
  using Rebuild_effect [OF assms] by (force simp: tracked_but_def sched_get_def)

end

section \<open>Failed attempts\<close>

text \<open>
  What a failed attempt of a pending job does on a store without faults: a retry, or the
  end of the job when no retry is left; and how the delay queue gives a job back.
\<close>

lemma NextRetryTime_retry:
  assumes "0 \<le> RetryCount j" "RetryCount j < 33"
  shows "NextRetryTime (retry_job e j) MaxBackoff_default now =
    Some (now + backoff_spec (Suc (nat (RetryCount j))) Minute)"
proof -
  have w: "wrap64 (RetryCount j + 1) = RetryCount j + 1" using assms by (simp add: wrap64_def)
  have n: "nat (RetryCount j + 1) = Suc (nat (RetryCount j))" using assms(1) by simp
  have "Backoff (retry_job e j) Minute = Some (backoff_spec (Suc (nat (RetryCount j))) Minute)"
    using Backoff_exact [of "retry_job e j" Minute] assms unfolding retry_job_simps w n by simp
  then show ?thesis by (simp add: NextRetryTime_def MaxBackoff_default_def)
qed

context scheduler_store
begin

lemma retry_effect:
  assumes inv: "inv (sStore s)" and g: "sched_get so s (rJobID r) = Some j" and st: "Status j = Pending"
    and rc: "0 \<le> RetryCount j" "RetryCount j < MaxRetries j" "RetryCount j < 33"
    and r: "\<not> stale_result s r" "\<not> rSuccess r" "rError r = Some e"
  shows "\<exists>s'. handle_result so now r s = Some s' \<and> inv (sStore s') \<and>
    sched_get so s' = (sched_get so s)(rJobID r \<mapsto>
      (retry_job e j)\<lparr>NextRunAt := now + backoff_spec (Suc (nat (RetryCount j))) Minute\<rparr>) \<and>
    queue_ids (DelayQueue s') = add_mset (rJobID r) (queue_ids (DelayQueue s)) \<and>
    PriorityQueue s' = PriorityQueue s \<and> Leases s' = Release (rJobID r) (Leases s) \<and> sDLQ s' = sDLQ s"
proof -
  let ?i = "rJobID r" and ?t = "now + backoff_spec (Suc (nat (RetryCount j))) Minute"
  let ?j = "(retry_job e j)\<lparr>NextRunAt := ?t\<rparr>"
  have gs: "st_Get so (sStore s) ?i = Some j" using g by (simp add: sched_get_def)
  have id: "ID j = ?i" using Get_ID [OF inv gs] .
  have t: "NextRetryTime (retry_job e j) MaxBackoff_default now = Some ?t"
    using rc by (intro NextRetryTime_retry)
  let ?s1 = "s\<lparr>Leases := Release ?i (Leases s), sStore := snd (st_Update so ?j (sStore s))\<rparr>"
  have h: "handle_result so now r s = Some (enqueueJob so ?i TheDelayQueue ?s1)"
    using r rc(2) id t by (simp add: handle_result_unfold [OF g] ShouldRetry_def Let_def)
  have "sched_get so ?s1 = (sched_get so s)(?i \<mapsto> ?j)" "inv (sStore ?s1)"
    using Get_Update(1,2) [OF inv gs, of ?j] id st by (simp_all add: sched_get_def)
  then show ?thesis using h by (simp add: enqueueJob_def queue_ids_Enqueue sched_get_def)
qed

lemma fail_effect:
  assumes inv: "inv (sStore s)" and g: "sched_get so s (rJobID r) = Some j" and st: "Status j = Pending"
    and rc: "MaxRetries j \<le> RetryCount j"
    and r: "\<not> stale_result s r" "\<not> rSuccess r" "rError r = Some e"
  shows "\<exists>s'. handle_result so now r s = Some s' \<and> inv (sStore s') \<and>
    sched_get so s' = (sched_get so s)(rJobID r \<mapsto> failed_job e j) \<and>
    dlq_Get (rJobID r) (sDLQ s') = Some (failed_job e j) \<and>
    aDLQ (abs (sStore s')) (rJobID r) = Some (failed_job e j) \<and>
    PriorityQueue s' = PriorityQueue s \<and> DelayQueue s' = DelayQueue s \<and> Leases s' = Release (rJobID r) (Leases s)"
proof -
  let ?i = "rJobID r" and ?j = "failed_job e j"
  let ?st = "snd (st_Update so ?j (sStore s))"
  let ?s' = "s\<lparr>Leases := Release ?i (Leases s), sStore := snd (st_AddDLQ so ?j ?st), sDLQ := dlq_Add ?j (sDLQ s)\<rparr>"
  have gs: "st_Get so (sStore s) ?i = Some j" using g by (simp add: sched_get_def)
  have id: "ID j = ?i" using Get_ID [OF inv gs] .
  have h: "handle_result so now r s = Some ?s'"
    using r rc by (simp add: handle_result_unfold [OF g] ShouldRetry_def Let_def)
  have u: "inv ?st" "st_Get so ?st = (st_Get so (sStore s))(?i \<mapsto> ?j)"
    using Get_Update(1,2) [OF inv gs, of ?j] id st by simp_all
  have d: "inv (sStore ?s')" "aJobs (abs (sStore ?s')) = aJobs (abs ?st)"
    using AddDLQ_snd [OF u(1), of ?j] by simp_all
  obtain st2 where a: "st_AddDLQ so ?j ?st = (None, st2)"
    using AddDLQ_succeeds [OF u(1), of ?j] by (metis prod.collapse)
  have "aDLQ (abs (sStore ?s')) ?i = Some ?j" using AddDLQ_ok [OF u(1) a] a id by simp
  moreover have "sched_get so ?s' = (sched_get so s)(?i \<mapsto> ?j)"
    using d u Get_abs [OF d(1)] Get_abs [OF u(1)] by (simp add: sched_get_def)
  ultimately show ?thesis using h d(1) id by (simp add: dlq_Get_def dlq_Add_def)
qed

lemma promote_effect:
  assumes inv: "inv (sStore s)" and q: "queue_ids (DelayQueue s) = {#i#}"
    and g: "sched_get so s i = Some j" and st: "Status j = Scheduled" and due: "NextRunAt j \<le> clock 0"
  shows "\<exists>s'. ProcessDelayedJobs so clock s = s' \<and> inv (sStore s') \<and>
    sched_get so s' = (sched_get so s)(i \<mapsto> j\<lparr>Status := Pending\<rparr>) \<and>
    queue_ids (DelayQueue s') = {#} \<and>
    queue_ids (PriorityQueue s') = add_mset i (queue_ids (PriorityQueue s)) \<and>
    Leases s' = Leases s \<and> sDLQ s' = sDLQ s"
proof -
  let ?j = "j\<lparr>Status := Pending\<rparr>"
  have "Peek (DelayQueue s) \<noteq> None" using jq.peek_None q by simp
  then have p: "Peek (DelayQueue s) = Some i" using jq.peek_mem q by fastforce
  have gs: "st_Get so (sStore s) i = Some j" using g by (simp add: sched_get_def)
  have id: "ID j = i" using Get_ID [OF inv gs] .
  have "fst (st_Update so ?j (sStore s)) = None" using Get_Update(3) [OF inv gs, of ?j] id st by simp
  then obtain st2 where u: "st_Update so ?j (sStore s) = (None, st2)" by (metis prod.collapse)
  let ?s1 = "(drop_delayed so s)\<lparr>sStore := st2\<rparr>" and ?s' = "enqueueJob so i ThePriorityQueue ((drop_delayed so s)\<lparr>sStore := st2\<rparr>)"
  have e: "queue_ids (DelayQueue (drop_delayed so s)) = {#}" using drop_delayed_ids [OF p, of so] q by simp
  have step: "delay_step so (clock 0) s = Some ?s'" using p g due u by (simp add: delay_step_def)
  have "Peek (DelayQueue ?s') = None" using e by (simp add: jq.peek_None)
  then have "delay_step so (clock (Suc 0)) ?s' = None" by (simp add: delay_step_def)
  then have "ProcessDelayedJobs so clock s = ?s'"
    using step by (simp add: ProcessDelayedJobs.simps [of so clock s] ProcessDelayedJobs.simps [of so _ ?s'])
  moreover have "inv st2" "st_Get so st2 = (st_Get so (sStore s))(i \<mapsto> ?j)"
    using Get_Update(1,2) [OF inv gs, of ?j] id st u by simp_all
  ultimately show ?thesis using e by (simp add: sched_get_def)
qed

text \<open>One iteration of \<open>ProcessDelayedJobs\<close> takes the head off the queue and promotes its job if it can.\<close>

lemma delay_step_effect:
  assumes inv: "inv (sStore s)" and r: "delay_step so now s = Some s'"
  shows "\<exists>i. Peek (DelayQueue s) = Some i \<and> DelayQueue s' = DelayQueue (drop_delayed so s) \<and> inv (sStore s') \<and>
    (\<forall>k. k \<noteq> i \<longrightarrow> sched_get so s' k = sched_get so s k) \<and>
    queue_ids (PriorityQueue s) \<subseteq># queue_ids (PriorityQueue s') \<and>
    NextRunAt (job_or_zero (sched_get so s') i) = NextRunAt (job_or_zero (sched_get so s) i) \<and>
    (\<forall>j. sched_get so s i = Some j \<and> (Status j = Scheduled \<or> Status j = Pending) \<longrightarrow>
       sched_get so s' i = Some (j\<lparr>Status := Pending\<rparr>) \<and> i \<in># queue_ids (PriorityQueue s'))"
proof -
  obtain i where i: "Peek (DelayQueue s) = Some i" using r by (auto simp: delay_step_def split: option.splits)
  show ?thesis
  proof (cases "sched_get so s i")
    case None
    then have "s' = drop_delayed so s" using r i by (simp add: delay_step_def)
    then show ?thesis using i None inv by (intro exI [of _ i]) (simp add: sched_get_def)
  next
    case (Some j)
    let ?j = "j\<lparr>Status := Pending\<rparr>"
    have gs: "st_Get so (sStore s) i = Some j" using Some by (simp add: sched_get_def)
    have id: "ID j = i" using Get_ID [OF inv gs] .
    obtain e st where st: "st_Update so ?j (sStore s) = (e, st)" by fastforce
    have u: "inv st" "st_Get so st = (if IsValidTransition (Status j) Pending then (st_Get so (sStore s))(i \<mapsto> ?j) else st_Get so (sStore s))"
        "e = None \<longleftrightarrow> IsValidTransition (Status j) Pending"
      using Get_Update [OF inv gs, of ?j] id st by simp_all
    have s': "s' = (if e = None then enqueueJob so i ThePriorityQueue ((drop_delayed so s)\<lparr>sStore := st\<rparr>) else (drop_delayed so s)\<lparr>sStore := st\<rparr>)"
      using r i Some st by (auto simp: delay_step_def split: if_splits option.splits)
    show ?thesis
      by (rule exI [of _ i]) (use i gs u in \<open>auto simp: s' sched_get_def job_or_zero_def enqueueJob_def queue_ids_Enqueue\<close>)
  qed
qed

lemma delay_queue_head:
  assumes "delay_inv get q" "Peek q = Some i" "k \<in># queue_ids q"
  shows "NextRunAt (job_or_zero get i) \<le> NextRunAt (job_or_zero get k)"
proof -
  obtain q' where "Dequeue (DelayComparator get) q = Some (i, q')"
    using assms(2) jq.peek_deq [of q "DelayComparator get"] by (cases "Dequeue (DelayComparator get) q") auto
  then show ?thesis using dq.deq_first [OF assms(1) _ assms(3), of i q'] by (simp add: DelayComparator_def not_less)
qed

text \<open>The timer of the delay loop never runs past the time of a queued job.\<close>

lemma delay_timer_in_time:
  assumes "delay_inv (sched_get so s) (DelayQueue s)" "delay_plan so now s = ForTimer d" "k \<in># queue_ids (DelayQueue s)"
    "sched_get so s k = Some j"
  shows "0 < d" "now + d \<le> NextRunAt j"
proof -
  obtain i h where h: "Peek (DelayQueue s) = Some i" "sched_get so s i = Some h" "d = time_Sub (NextRunAt h) now" "0 < d"
    using assms(2) by (auto simp: delay_plan_def Let_def split: option.splits if_splits)
  then have "now + d \<le> NextRunAt h" by (auto simp: time_Sub_def)
  then show "0 < d" "now + d \<le> NextRunAt j"
    using h delay_queue_head [OF assms(1) h(1) assms(3)] assms(4) by (simp_all add: job_or_zero_def)
qed

lemma delay_inv_drop: "delay_inv (sched_get so s) (DelayQueue s) \<Longrightarrow> delay_inv (sched_get so s) (DelayQueue (drop_delayed so s))"
  using dq.invar_deq [of "sched_get so s" "DelayQueue s"] by (auto simp: drop_delayed_def split: option.splits)

lemma delay_step_None:
  assumes "delay_step so now s = None" "delay_inv (sched_get so s) (DelayQueue s)" "0 \<le> now" "k \<in># queue_ids (DelayQueue s)"
  shows "\<exists>j. sched_get so s k = Some j \<and> now < NextRunAt j"
proof -
  obtain i where i: "Peek (DelayQueue s) = Some i" using assms(4) jq.peek_None [of "DelayQueue s"] by (cases "Peek (DelayQueue s)") auto
  then obtain j where j: "sched_get so s i = Some j" "now < NextRunAt j"
    using assms(1) by (auto simp: delay_step_def Let_def split: option.splits if_splits prod.splits)
  then have "0 < NextRunAt (job_or_zero (sched_get so s) k) \<and> now < NextRunAt (job_or_zero (sched_get so s) k)"
    using delay_queue_head [OF assms(2) i assms(4)] assms(3) by (simp add: job_or_zero_def)
  then show ?thesis by (auto simp: job_or_zero_def zero_job_def split: option.splits)
qed

lemma ProcessDelayedJobs_due:
  assumes "inv (sStore s)" "delay_inv (sched_get so s) (DelayQueue s)" "0 \<le> now"
  shows "let s' = ProcessDelayedJobs so (\<lambda>_. now) s in
    (\<forall>k. k \<in># queue_ids (DelayQueue s') \<longrightarrow> (\<exists>j. sched_get so s' k = Some j \<and> now < NextRunAt j)) \<and>
    (\<forall>k j. k \<in># queue_ids (DelayQueue s) \<and> sched_get so s k = Some j \<and> (Status j = Scheduled \<or> Status j = Pending) \<and> NextRunAt j \<le> now \<longrightarrow>
        sched_get so s' k = Some (j\<lparr>Status := Pending\<rparr>) \<and> k \<in># queue_ids (PriorityQueue s')) \<and>
    (\<forall>k j. sched_get so s k = Some j \<and> Status j = Pending \<longrightarrow> sched_get so s' k = Some j) \<and>
    queue_ids (PriorityQueue s) \<subseteq># queue_ids (PriorityQueue s')"
  using assms
proof (induction "size (queue_ids (DelayQueue s))" arbitrary: s rule: less_induct)
  case less
  note inv = less.prems(1) and ord = less.prems(2)
  show ?case
  proof (cases "delay_step so now s")
    case None
    have late: "\<exists>j. sched_get so s k = Some j \<and> now < NextRunAt j" if "k \<in># queue_ids (DelayQueue s)" for k
      using delay_step_None [OF None ord less.prems(3) that] .
    then have "\<forall>k j. k \<in># queue_ids (DelayQueue s) \<and> sched_get so s k = Some j \<longrightarrow> now < NextRunAt j" by fastforce
    then show ?thesis using None late by (fastforce simp: ProcessDelayedJobs.simps [of so _ s] Let_def)
  next
    case (Some s1)
    obtain i where i: "Peek (DelayQueue s) = Some i" "DelayQueue s1 = DelayQueue (drop_delayed so s)" "inv (sStore s1)"
        "\<forall>k. k \<noteq> i \<longrightarrow> sched_get so s1 k = sched_get so s k" "queue_ids (PriorityQueue s) \<subseteq># queue_ids (PriorityQueue s1)"
        "NextRunAt (job_or_zero (sched_get so s1) i) = NextRunAt (job_or_zero (sched_get so s) i)"
        "\<forall>j. sched_get so s i = Some j \<and> (Status j = Scheduled \<or> Status j = Pending) \<longrightarrow>
           sched_get so s1 i = Some (j\<lparr>Status := Pending\<rparr>) \<and> i \<in># queue_ids (PriorityQueue s1)"
      using delay_step_effect [OF inv Some] by blast
    have q: "queue_ids (DelayQueue s) = add_mset i (queue_ids (DelayQueue s1))" using drop_delayed_ids [OF i(1), of so] i(2) by simp
    have "NextRunAt (job_or_zero (sched_get so s1) k) = NextRunAt (job_or_zero (sched_get so s) k)" for k
      using i(4,6) by (cases "k = i") (simp_all add: job_or_zero_def)
    then have ord1: "delay_inv (sched_get so s1) (DelayQueue s1)"
      using delay_inv_drop [OF ord] delay_inv_cong [of "DelayQueue s1" "sched_get so s1" "sched_get so s"] i(2) by simp
    let ?s' = "ProcessDelayedJobs so (\<lambda>_. now) s1"
    have p: "ProcessDelayedJobs so (\<lambda>_. now) s = ?s'" using Some by (simp add: ProcessDelayedJobs.simps [of so _ s])
    have IH: "\<forall>k. k \<in># queue_ids (DelayQueue ?s') \<longrightarrow> (\<exists>j. sched_get so ?s' k = Some j \<and> now < NextRunAt j)"
        "\<And>k j. k \<in># queue_ids (DelayQueue s1) \<Longrightarrow> sched_get so s1 k = Some j \<Longrightarrow> Status j = Scheduled \<or> Status j = Pending \<Longrightarrow> NextRunAt j \<le> now \<Longrightarrow>
          sched_get so ?s' k = Some (j\<lparr>Status := Pending\<rparr>) \<and> k \<in># queue_ids (PriorityQueue ?s')"
        "\<And>k j. sched_get so s1 k = Some j \<Longrightarrow> Status j = Pending \<Longrightarrow> sched_get so ?s' k = Some j"
        "queue_ids (PriorityQueue s1) \<subseteq># queue_ids (PriorityQueue ?s')"
      using less.hyps [OF delay_step_size [OF Some] i(3) ord1 less.prems(3)] by (simp_all only: Let_def) blast+
    have "sched_get so ?s' k = Some (j\<lparr>Status := Pending\<rparr>) \<and> k \<in># queue_ids (PriorityQueue ?s')"
      if k: "k \<in># queue_ids (DelayQueue s)" "sched_get so s k = Some j" "Status j = Scheduled \<or> Status j = Pending" "NextRunAt j \<le> now" for k j
    proof (cases "k = i")
      case True
      then have "sched_get so s1 i = Some (j\<lparr>Status := Pending\<rparr>)" "i \<in># queue_ids (PriorityQueue s1)" using i(7) k by auto
      then show ?thesis using True IH(3) [of i "j\<lparr>Status := Pending\<rparr>"] IH(4) by (auto dest: mset_subset_eqD)
    qed (use k q i(4) IH(2) in auto)
    moreover have "sched_get so ?s' k = Some j" if "sched_get so s k = Some j" "Status j = Pending" for k j
      using that i(4,7) IH(3) [of k j] by (cases "k = i") auto
    ultimately show ?thesis unfolding p Let_def using IH(1,4) i(5) subset_mset.order_trans by blast
  qed
qed

end

end
