(* ===== verification/Memory_Store.thy ===== *)
theory Memory_Store
  imports Store_Spec
begin

text \<open>
  The in-memory backend (\<open>src/internal/store/memory_store.go\<close>): the maps of the source with
  the secondary index by status and the index of idempotency keys. The invariant says that
  both indexes are exact; the backend refines the abstract store and never fails on what
  the abstract store accepts.
\<close>

section \<open>State and operations\<close>

record memory_store =
  mJobs :: "(int, job) gomap"
  mStatusIndex :: "(status, int goset) gomap"
  mCrons :: "(string, cron_job) gomap"
  mDLQ :: "(int, job) gomap"
  mIdempotencyIndex :: "(string, int) gomap"

definition NewMemoryStore :: memory_store where
  "NewMemoryStore = \<lparr>mJobs = [], mStatusIndex = [], mCrons = [], mDLQ = [], mIdempotencyIndex = []\<rparr>"

definition addToStatusIndex :: "status \<Rightarrow> int \<Rightarrow> memory_store \<Rightarrow> memory_store" where
  "addToStatusIndex st i s =
     s\<lparr>mStatusIndex := mput st
        (mput i () (case map_of (mStatusIndex s) st of None \<Rightarrow> [] | Some ids \<Rightarrow> ids)) (mStatusIndex s)\<rparr>"

definition removeFromStatusIndex :: "status \<Rightarrow> int \<Rightarrow> memory_store \<Rightarrow> memory_store" where
  "removeFromStatusIndex st i s =
     (case map_of (mStatusIndex s) st of
        None \<Rightarrow> s
      | Some ids \<Rightarrow> s\<lparr>mStatusIndex := mput st (mdel i ids) (mStatusIndex s)\<rparr>)"

definition mem_Add :: "job \<Rightarrow> memory_store \<Rightarrow> error option \<times> memory_store" where
  "mem_Add j s =
     (if map_of (mJobs s) (ID j) \<noteq> None then (Some (EJobExists (ID j)), s)
      else
        let s1 = s\<lparr>mJobs := mput (ID j) j (mJobs s)\<rparr>;
            s2 = (if IdempotencyKey j \<noteq> []
                  then s1\<lparr>mIdempotencyIndex := mput (IdempotencyKey j) (ID j) (mIdempotencyIndex s1)\<rparr>
                  else s1)
        in (None, addToStatusIndex (Status j) (ID j) s2))"

definition mem_Get :: "memory_store \<Rightarrow> int \<Rightarrow> job option" where
  "mem_Get s i = map_of (mJobs s) i"

definition mem_List :: "order_choice \<Rightarrow> memory_store \<Rightarrow> job list" where
  "mem_List ord s = map snd (range_order ord (mJobs s))"

definition mem_ListByStatus :: "order_choice \<Rightarrow> status \<Rightarrow> memory_store \<Rightarrow> error + job list" where
  "mem_ListByStatus ord st s =
     (case map_of (mStatusIndex s) st of
        None \<Rightarrow> Inr []
      | Some idsSet \<Rightarrow>
          Inr (List.map_filter (\<lambda>(i, _). map_of (mJobs s) i) (range_order ord idsSet)))"

definition mem_Update :: "job \<Rightarrow> memory_store \<Rightarrow> error option \<times> memory_store" where
  "mem_Update j s =
     (case map_of (mJobs s) (ID j) of
        None \<Rightarrow> (Some (EUpdateMissing (ID j)), s)
      | Some existing \<Rightarrow>
          if \<not> IsValidTransition (Status existing) (Status j)
          then (Some (EBadTransition (Status existing) (Status j) (ID j)), s)
          else
            let s1 = removeFromStatusIndex (Status existing) (ID j) s;
                s2 = s1\<lparr>mJobs := mput (ID j) j (mJobs s1)\<rparr>
            in (None, addToStatusIndex (Status j) (ID j) s2))"

definition mem_Delete :: "int \<Rightarrow> memory_store \<Rightarrow> (bool \<times> error option) \<times> memory_store" where
  "mem_Delete i s =
     (case map_of (mJobs s) i of
        None \<Rightarrow> ((False, None), s)
      | Some j \<Rightarrow>
          let s1 = removeFromStatusIndex (Status j) i s;
              s2 = (if IdempotencyKey j \<noteq> []
                    then s1\<lparr>mIdempotencyIndex := mdel (IdempotencyKey j) (mIdempotencyIndex s1)\<rparr>
                    else s1)
          in ((True, None), s2\<lparr>mJobs := mdel i (mJobs s2)\<rparr>))"

definition mem_Cancel :: "int \<Rightarrow> memory_store \<Rightarrow> error option \<times> memory_store" where
  "mem_Cancel i s =
     (case map_of (mJobs s) i of
        None \<Rightarrow> (Some EJobNotFound, s)
      | Some j \<Rightarrow>
          if Status j = Completed \<or> Status j = Failed \<or> Status j = Cancelled
          then (Some (EInTerminal (Status j)), s)
          else
            let s1 = removeFromStatusIndex (Status j) i s;
                j' = j\<lparr>Status := Cancelled\<rparr>;
                s2 = s1\<lparr>mJobs := mput i j' (mJobs s1)\<rparr>
            in (None, addToStatusIndex Cancelled i s2))"

definition mem_AddCron :: "cron_job \<Rightarrow> memory_store \<Rightarrow> error option \<times> memory_store" where
  "mem_AddCron c s = (None, s\<lparr>mCrons := mput (cID c) c (mCrons s)\<rparr>)"

definition mem_DeleteCron :: "string \<Rightarrow> memory_store \<Rightarrow> (bool \<times> error option) \<times> memory_store" where
  "mem_DeleteCron k s =
     (if map_of (mCrons s) k = None then ((False, None), s)
      else ((True, None), s\<lparr>mCrons := mdel k (mCrons s)\<rparr>))"

definition mem_ListCrons :: "order_choice \<Rightarrow> memory_store \<Rightarrow> error + cron_job list" where
  "mem_ListCrons ord s = Inr (map snd (range_order ord (mCrons s)))"

definition mem_AddDLQ :: "job \<Rightarrow> memory_store \<Rightarrow> error option \<times> memory_store" where
  "mem_AddDLQ j s = (None, s\<lparr>mDLQ := mput (ID j) j (mDLQ s)\<rparr>)"

definition mem_ListDLQ :: "order_choice \<Rightarrow> memory_store \<Rightarrow> error + job list" where
  "mem_ListDLQ ord s = Inr (map snd (range_order ord (mDLQ s)))"

definition mem_FindByIdempotencyKey :: "string \<Rightarrow> memory_store \<Rightarrow> job option" where
  "mem_FindByIdempotencyKey key s =
     (if key = [] then None
      else case map_of (mIdempotencyIndex s) key of
             None \<Rightarrow> None
           | Some i \<Rightarrow> map_of (mJobs s) i)"

definition memory_ops :: "memory_store store_ops" where
  "memory_ops =
     \<lparr>st_Add = mem_Add, st_Get = mem_Get, st_List = mem_List, st_ListByStatus = mem_ListByStatus,
      st_Update = mem_Update, st_Delete = mem_Delete, st_Cancel = mem_Cancel,
      st_AddCron = mem_AddCron, st_DeleteCron = mem_DeleteCron, st_ListCrons = mem_ListCrons,
      st_AddDLQ = mem_AddDLQ, st_ListDLQ = mem_ListDLQ,
      st_FindByIdempotencyKey = mem_FindByIdempotencyKey\<rparr>"

lemmas memory_op_defs =
  mem_Add_def mem_Get_def mem_List_def mem_ListByStatus_def mem_Update_def mem_Delete_def
  mem_Cancel_def mem_AddCron_def mem_DeleteCron_def mem_ListCrons_def mem_AddDLQ_def
  mem_ListDLQ_def mem_FindByIdempotencyKey_def

lemma memory_ops_simps [simp, go_simps]:
  "st_Add memory_ops = mem_Add" "st_Get memory_ops = mem_Get" "st_List memory_ops = mem_List"
  "st_ListByStatus memory_ops = mem_ListByStatus" "st_Update memory_ops = mem_Update"
  "st_Delete memory_ops = mem_Delete" "st_Cancel memory_ops = mem_Cancel"
  "st_AddCron memory_ops = mem_AddCron" "st_DeleteCron memory_ops = mem_DeleteCron"
  "st_ListCrons memory_ops = mem_ListCrons" "st_AddDLQ memory_ops = mem_AddDLQ"
  "st_ListDLQ memory_ops = mem_ListDLQ"
  "st_FindByIdempotencyKey memory_ops = mem_FindByIdempotencyKey"
  by (simp_all add: memory_ops_def)

section \<open>The invariant\<close>

definition mem_ids :: "status \<Rightarrow> memory_store \<Rightarrow> int goset" where
  "mem_ids st s = (case map_of (mStatusIndex s) st of None \<Rightarrow> [] | Some ids \<Rightarrow> ids)"

definition status_index_exact :: "memory_store \<Rightarrow> bool" where
  "status_index_exact s \<longleftrightarrow>
     (\<forall>st i. map_of (mem_ids st s) i \<noteq> None \<longleftrightarrow> (\<exists>j. map_of (mJobs s) i = Some j \<and> Status j = st))"

definition key_index_exact :: "memory_store \<Rightarrow> bool" where
  "key_index_exact s \<longleftrightarrow>
     (\<forall>k i. map_of (mIdempotencyIndex s) k = Some i \<longleftrightarrow>
        k \<noteq> [] \<and> (\<exists>j. map_of (mJobs s) i = Some j \<and> IdempotencyKey j = k))"

definition mem_wf :: "memory_store \<Rightarrow> bool" where
  "mem_wf s \<longleftrightarrow> wf_map (mJobs s) \<and> wf_map (mCrons s) \<and> wf_map (mDLQ s) \<and>
     (\<forall>st. wf_map (mem_ids st s)) \<and> (\<forall>i j. map_of (mJobs s) i = Some j \<longrightarrow> ID j = i \<and> in_int64 i)"

definition mem_inv :: "memory_store \<Rightarrow> bool" where
  "mem_inv s \<longleftrightarrow> mem_wf s \<and> status_index_exact s \<and> key_index_exact s"

definition mem_abs :: "memory_store \<Rightarrow> astore" where
  "mem_abs s = \<lparr>aJobs = map_of (mJobs s), aDLQ = map_of (mDLQ s), aCrons = map_of (mCrons s)\<rparr>"

lemma index_frames [simp]:
  "mJobs (addToStatusIndex st i s) = mJobs s" "mJobs (removeFromStatusIndex st i s) = mJobs s"
  "mCrons (addToStatusIndex st i s) = mCrons s" "mCrons (removeFromStatusIndex st i s) = mCrons s"
  "mDLQ (addToStatusIndex st i s) = mDLQ s" "mDLQ (removeFromStatusIndex st i s) = mDLQ s"
  "mIdempotencyIndex (addToStatusIndex st i s) = mIdempotencyIndex s"
  "mIdempotencyIndex (removeFromStatusIndex st i s) = mIdempotencyIndex s"
  by (auto simp: addToStatusIndex_def removeFromStatusIndex_def split: option.splits)

lemma mem_ids_add [simp]:
  "mem_ids st (addToStatusIndex st' i s) = (if st = st' then mput i () (mem_ids st s) else mem_ids st s)"
  by (simp add: mem_ids_def addToStatusIndex_def)

lemma mem_ids_remove [simp]:
  "mem_ids st (removeFromStatusIndex st' i s) = (if st = st' then mdel i (mem_ids st s) else mem_ids st s)"
  by (auto simp: mem_ids_def removeFromStatusIndex_def split: option.splits)

lemma mem_ids_frames [simp]:
  "mem_ids st (s\<lparr>mJobs := x\<rparr>) = mem_ids st s"
  "mem_ids st (s\<lparr>mCrons := y\<rparr>) = mem_ids st s"
  "mem_ids st (s\<lparr>mDLQ := x\<rparr>) = mem_ids st s"
  "mem_ids st (s\<lparr>mIdempotencyIndex := z\<rparr>) = mem_ids st s"
  by (simp_all add: mem_ids_def)

lemmas mem_inv_defs = mem_inv_def mem_wf_def status_index_exact_def key_index_exact_def

lemma mem_inv_New [simp, wf_intros]: "mem_inv NewMemoryStore"
  by (simp add: mem_inv_defs NewMemoryStore_def mem_ids_def)

lemma key_index_unique:
  assumes "key_index_exact s" "map_of (mJobs s) i = Some j" "map_of (mJobs s) i' = Some j'"
    "IdempotencyKey j = IdempotencyKey j'" "IdempotencyKey j \<noteq> []"
  shows "i = i'"
proof -
  have "map_of (mIdempotencyIndex s) (IdempotencyKey j) = Some i"
    and "map_of (mIdempotencyIndex s) (IdempotencyKey j) = Some i'"
    using assms by (auto simp: key_index_exact_def)
  then show ?thesis by simp
qed

lemma mem_inv_abs:
  assumes "mem_inv s"
  shows "aInv (mem_abs s)"
  using assms key_index_unique [of s] unfolding mem_inv_def mem_wf_def aInv_def mem_abs_def by simp

text \<open>
  The two ways a job enters the map: a new job, and a new version of a stored one under
  the same key.
\<close>

lemma mem_inv_fresh:
  assumes "mem_inv s" "aFresh j (mem_abs s)"
  shows "mem_inv (snd (mem_Add j s))"
proof -
  have n: "map_of (mJobs s) (ID j) = None" "in_int64 (ID j)"
    and k: "\<And>i j'. map_of (mJobs s) i = Some j' \<Longrightarrow> IdempotencyKey j \<noteq> [] \<Longrightarrow> IdempotencyKey j' \<noteq> IdempotencyKey j"
    using assms(2) by (auto simp: aFresh_def mem_abs_def)
  have "mem_wf (snd (mem_Add j s))"
    using assms(1) n by (auto simp: mem_inv_def mem_wf_def mem_Add_def Let_def)
  moreover have "status_index_exact (snd (mem_Add j s))"
    using assms(1) n by (auto simp: mem_inv_def status_index_exact_def mem_Add_def Let_def)
  moreover have "key_index_exact (snd (mem_Add j s))"
    using assms(1) n k by (auto simp: mem_inv_def key_index_exact_def mem_Add_def Let_def)
  ultimately show ?thesis by (simp add: mem_inv_def)
qed

definition mem_replace :: "job \<Rightarrow> job \<Rightarrow> memory_store \<Rightarrow> memory_store" where
  "mem_replace old j s =
     (let s1 = removeFromStatusIndex (Status old) (ID j) s
      in addToStatusIndex (Status j) (ID j) (s1\<lparr>mJobs := mput (ID j) j (mJobs s1)\<rparr>))"

lemma mem_abs_replace [simp]: "mem_abs (mem_replace old j s) = aPut j (mem_abs s)"
  by (simp add: mem_replace_def mem_abs_def aPut_def Let_def)

lemma mem_inv_replace:
  assumes "mem_inv s" "map_of (mJobs s) (ID j) = Some old" "IdempotencyKey old = IdempotencyKey j"
  shows "mem_inv (mem_replace old j s)"
proof -
  have "mem_wf (mem_replace old j s)"
    using assms(1,2) by (auto simp: mem_inv_def mem_wf_def mem_replace_def Let_def)
  moreover have "status_index_exact (mem_replace old j s)"
    using assms(1,2) by (auto simp: mem_inv_def status_index_exact_def mem_replace_def Let_def)
  moreover have "key_index_exact (mem_replace old j s)"
    using assms by (auto simp: mem_inv_def key_index_exact_def mem_replace_def Let_def)
  ultimately show ?thesis by (simp add: mem_inv_def)
qed

lemma mem_Update_replace:
  "mem_Update j s =
     (case map_of (mJobs s) (ID j) of
        None \<Rightarrow> (Some (EUpdateMissing (ID j)), s)
      | Some old \<Rightarrow>
          if IsValidTransition (Status old) (Status j) then (None, mem_replace old j s)
          else (Some (EBadTransition (Status old) (Status j) (ID j)), s))"
  by (simp add: mem_Update_def mem_replace_def Let_def split: option.split)

lemma mem_Cancel_replace:
  "mem_inv s \<Longrightarrow> mem_Cancel i s =
     (case map_of (mJobs s) i of
        None \<Rightarrow> (Some EJobNotFound, s)
      | Some j \<Rightarrow> if terminal (Status j) then (Some (EInTerminal (Status j)), s)
                  else (None, mem_replace j (j\<lparr>Status := Cancelled\<rparr>) s))"
  by (auto simp: mem_Cancel_def mem_replace_def terminal_def Let_def mem_inv_def mem_wf_def split: option.split)

lemma mem_inv_Delete:
  assumes "mem_inv s"
  shows "mem_inv (snd (mem_Delete i s))"
proof (cases "map_of (mJobs s) i")
  case None
  then show ?thesis using assms by (simp add: mem_Delete_def)
next
  case (Some j)
  have "mem_wf (snd (mem_Delete i s))"
    using assms Some by (auto simp: mem_inv_def mem_wf_def mem_Delete_def Let_def)
  moreover have "status_index_exact (snd (mem_Delete i s))"
    using assms Some by (auto simp: mem_inv_def status_index_exact_def mem_Delete_def Let_def)
  moreover have "key_index_exact (snd (mem_Delete i s))"
    using assms Some unfolding mem_inv_def key_index_exact_def mem_Delete_def Let_def
    by (auto; metis option.inject)
  ultimately show ?thesis by (simp add: mem_inv_def)
qed

lemma mem_inv_frames:
  "mem_inv s \<Longrightarrow> mem_inv (s\<lparr>mDLQ := mput i j (mDLQ s)\<rparr>)"
  "mem_inv s \<Longrightarrow> mem_inv (s\<lparr>mCrons := mput k c (mCrons s)\<rparr>)"
  "mem_inv s \<Longrightarrow> mem_inv (s\<lparr>mCrons := mdel k (mCrons s)\<rparr>)"
  by (simp_all add: mem_inv_defs)

section \<open>The backend refines the abstract store\<close>

lemma map_filter_ids:
  assumes "distinct ks" "\<And>k j. map_of m k = Some j \<Longrightarrow> ID j = k"
  shows "distinct (map ID (List.map_filter (map_of m) ks)) \<and>
    set (map ID (List.map_filter (map_of m) ks)) \<subseteq> set ks"
  using assms by (induction ks) (auto simp: map_filter_simps split: option.split)

lemma mem_ListByStatus_abs:
  assumes "mem_inv s" "mem_ListByStatus ord st s = Inr js"
  shows "distinct (map ID js) \<and> set js = {j \<in> ran (map_of (mJobs s)). Status j = st}"
proof -
  let ?ks = "map fst (range_order ord (mem_ids st s))"
  have js: "js = List.map_filter (map_of (mJobs s)) ?ks"
    using assms(2) by (auto simp: mem_ListByStatus_def mem_ids_def List.map_filter_def comp_def
        case_prod_beta' map_filter_simps filter_map split: option.splits)
  have wf: "wf_map (mem_ids st s)" and id: "\<And>k j. map_of (mJobs s) k = Some j \<Longrightarrow> ID j = k"
    and ex: "\<And>i. map_of (mem_ids st s) i \<noteq> None \<longleftrightarrow> (\<exists>j. map_of (mJobs s) i = Some j \<and> Status j = st)"
    using assms(1) by (auto simp: mem_inv_def mem_wf_def status_index_exact_def)
  have "distinct ?ks" using wf by (simp add: wf_map_def [symmetric])
  moreover have "set ?ks = {i. \<exists>j. map_of (mJobs s) i = Some j \<and> Status j = st}"
    using ex by (simp add: set_eq_iff mem_dom_map del: image_iff)
  then have "set js = {j \<in> ran (map_of (mJobs s)). Status j = st}"
    unfolding js by (simp add: set_map_filter set_eq_iff ran_def del: set_map; metis option.inject)
  ultimately show ?thesis using map_filter_ids [OF _ id] js by simp
qed

lemma mem_Find_abs:
  assumes "mem_inv s"
  shows "mem_FindByIdempotencyKey k s = Some j \<longleftrightarrow>
    k \<noteq> [] \<and> map_of (mJobs s) (ID j) = Some j \<and> IdempotencyKey j = k"
proof -
  have id: "\<And>i j. map_of (mJobs s) i = Some j \<Longrightarrow> ID j = i"
    and ex: "\<And>i. map_of (mIdempotencyIndex s) k = Some i \<longleftrightarrow>
      k \<noteq> [] \<and> (\<exists>j. map_of (mJobs s) i = Some j \<and> IdempotencyKey j = k)"
    using assms by (auto simp: mem_inv_def mem_wf_def key_index_exact_def)
  show ?thesis
  proof (cases "map_of (mIdempotencyIndex s) k")
    case None
    then show ?thesis using ex by (auto simp: mem_FindByIdempotencyKey_def)
  next
    case (Some i)
    then obtain j0 where j0: "k \<noteq> []" "map_of (mJobs s) i = Some j0" "IdempotencyKey j0 = k"
      using ex by auto
    then have f: "mem_FindByIdempotencyKey k s = Some j0"
      using Some by (simp add: mem_FindByIdempotencyKey_def)
    have j: "j = j0" if "map_of (mJobs s) (ID j) = Some j" "IdempotencyKey j = k"
    proof -
      have "i = ID j" using ex [of "ID j"] j0 Some that by auto
      then show ?thesis using j0 that by simp
    qed
    have "ID j0 = i" using id j0(2) by blast
    then have "map_of (mJobs s) (ID j0) = Some j0" using j0(2) by simp
    then show ?thesis using j j0(1,3) unfolding f by blast
  qed
qed

lemma mem_Add_refines:
  assumes "mem_inv s"
  shows "aFresh j (mem_abs s) \<Longrightarrow> mem_Add j s = (None, s') \<Longrightarrow> mem_inv s' \<and> mem_abs s' = aPut j (mem_abs s)"
    and "mem_Add j s = (Some e, s') \<Longrightarrow> s' = s"
    and "aJobs (mem_abs s) (ID j) = None \<Longrightarrow> fst (mem_Add j s) = None"
  using mem_inv_fresh [OF assms, of j]
  by (auto simp: mem_Add_def Let_def mem_abs_def aPut_def split: if_splits)

lemma mem_Update_refines:
  assumes "mem_inv s"
  shows "mem_Update j s = (None, s') \<Longrightarrow> aUpdate j (mem_abs s) = Some (mem_abs s')"
    and "aSameKey j (mem_abs s) \<Longrightarrow> mem_Update j s = (None, s') \<Longrightarrow> mem_inv s'"
    and "mem_Update j s = (Some e, s') \<Longrightarrow> s' = s"
    and "aUpdate j (mem_abs s) \<noteq> None \<Longrightarrow> fst (mem_Update j s) = None"
  using mem_inv_replace [OF assms, of j]
  by (auto simp: mem_Update_replace aUpdate_def aSameKey_def mem_abs_def [of s] split: option.splits if_splits)

lemma mem_Cancel_refines:
  assumes "mem_inv s"
  shows "mem_Cancel i s = (None, s') \<Longrightarrow> mem_inv s' \<and> aCancel i (mem_abs s) = Some (mem_abs s')"
    and "mem_Cancel i s = (Some e, s') \<Longrightarrow> s' = s"
    and "aCancel i (mem_abs s) \<noteq> None \<Longrightarrow> fst (mem_Cancel i s) = None"
proof -
  have "\<And>j. map_of (mJobs s) i = Some j \<Longrightarrow> ID j = i"
    using assms by (simp add: mem_inv_def mem_wf_def)
  then have r: "\<And>j. map_of (mJobs s) i = Some j \<Longrightarrow> mem_inv (mem_replace j (j\<lparr>Status := Cancelled\<rparr>) s)"
    by (intro mem_inv_replace [OF assms]) auto
  show "mem_Cancel i s = (None, s') \<Longrightarrow> mem_inv s' \<and> aCancel i (mem_abs s) = Some (mem_abs s')"
    using r by (auto simp: mem_Cancel_replace [OF assms] aCancel_def mem_abs_def [of s] split: option.splits if_splits)
  show "mem_Cancel i s = (Some e, s') \<Longrightarrow> s' = s"
    by (auto simp: mem_Cancel_replace [OF assms] split: option.splits if_splits)
  show "aCancel i (mem_abs s) \<noteq> None \<Longrightarrow> fst (mem_Cancel i s) = None"
    by (auto simp: mem_Cancel_replace [OF assms] aCancel_def mem_abs_def split: option.splits if_splits)
qed

lemma mem_Delete_refines:
  assumes "mem_inv s" "mem_Delete i s = ((b, r), s')"
  shows "r = None \<and> mem_inv s' \<and> mem_abs s' = aDelete i (mem_abs s) \<and> b = (aJobs (mem_abs s) i \<noteq> None)"
  using mem_inv_Delete [OF assms(1), of i] assms(2)
  by (auto simp: mem_Delete_def Let_def mem_abs_def aDelete_def fun_upd_idem split: option.splits if_splits)

lemma mem_DeleteCron_refines:
  assumes "mem_inv s" "mem_DeleteCron k s = ((b, r), s')"
  shows "r = None \<and> mem_inv s' \<and> mem_abs s' = (mem_abs s)\<lparr>aCrons := (aCrons (mem_abs s))(k := None)\<rparr> \<and>
    b = (aCrons (mem_abs s) k \<noteq> None)"
  using assms by (auto simp: mem_DeleteCron_def mem_abs_def fun_upd_idem mem_inv_frames split: if_splits)

interpretation mem: reliable_store memory_ops mem_inv mem_abs
proof (unfold_locales, simp_all only: memory_ops_simps)
  fix s :: memory_store and s' :: memory_store and j e i b k ord st js c cs
  assume inv: "mem_inv s"
  show "aInv (mem_abs s)" by (rule mem_inv_abs [OF inv])
  show "mem_Get s = aJobs (mem_abs s)" by (auto simp: mem_Get_def mem_abs_def)
  show "set (mem_List ord s) = ran (aJobs (mem_abs s))"
    using inv by (simp add: mem_List_def mem_abs_def wf_map_ran mem_inv_def mem_wf_def)
  show "mem_ListByStatus ord st s = Inr js \<Longrightarrow> distinct (map ID js) \<and> set js = {j \<in> ran (aJobs (mem_abs s)). Status j = st}"
    using mem_ListByStatus_abs [OF inv] by (simp add: mem_abs_def)
  show "mem_Add j s = (Some e, s') \<Longrightarrow> s' = s" by (rule mem_Add_refines(2) [OF inv])
  show "aFresh j (mem_abs s) \<Longrightarrow> mem_Add j s = (None, s') \<Longrightarrow> mem_inv s' \<and> mem_abs s' = aPut j (mem_abs s)"
    by (rule mem_Add_refines(1) [OF inv])
  show "aJobs (mem_abs s) (ID j) = None \<Longrightarrow> fst (mem_Add j s) = None" by (rule mem_Add_refines(3) [OF inv])
  show "mem_Update j s = (Some e, s') \<Longrightarrow> s' = s" by (rule mem_Update_refines(3) [OF inv])
  show "mem_Update j s = (None, s') \<Longrightarrow> aUpdate j (mem_abs s) = Some (mem_abs s')"
    by (rule mem_Update_refines(1) [OF inv])
  show "aSameKey j (mem_abs s) \<Longrightarrow> mem_Update j s = (None, s') \<Longrightarrow> mem_inv s'"
    by (rule mem_Update_refines(2) [OF inv])
  show "aUpdate j (mem_abs s) \<noteq> None \<Longrightarrow> fst (mem_Update j s) = None"
    by (rule mem_Update_refines(4) [OF inv])
  show "mem_Cancel i s = (Some e, s') \<Longrightarrow> s' = s" by (rule mem_Cancel_refines(2) [OF inv])
  show "mem_Cancel i s = (None, s') \<Longrightarrow> mem_inv s' \<and> aCancel i (mem_abs s) = Some (mem_abs s')"
    by (rule mem_Cancel_refines(1) [OF inv])
  show "aCancel i (mem_abs s) \<noteq> None \<Longrightarrow> fst (mem_Cancel i s) = None"
    by (rule mem_Cancel_refines(3) [OF inv])
  show "\<exists>js. mem_ListByStatus ord st s = Inr js" by (simp add: mem_ListByStatus_def split: option.split)
  show "snd (fst (mem_Delete i s)) = None" by (simp add: mem_Delete_def Let_def split: option.split)
  show "fst (mem_AddDLQ j s) = None" by (simp add: mem_AddDLQ_def)
  show "fst (mem_AddCron c s) = None" by (simp add: mem_AddCron_def)
  show "snd (fst (mem_DeleteCron k s)) = None" by (simp add: mem_DeleteCron_def)
  show "mem_FindByIdempotencyKey k s = Some j \<longleftrightarrow>
      k \<noteq> [] \<and> aJobs (mem_abs s) (ID j) = Some j \<and> IdempotencyKey j = k"
    using mem_Find_abs [OF inv] by (simp add: mem_abs_def)
  show "mem_Delete i s = ((b, Some e), s') \<Longrightarrow> s' = s"
    by (drule mem_Delete_refines [OF inv]) simp
  show "mem_Delete i s = ((b, None), s') \<Longrightarrow>
      mem_inv s' \<and> mem_abs s' = aDelete i (mem_abs s) \<and> b = (aJobs (mem_abs s) i \<noteq> None)"
    by (drule mem_Delete_refines [OF inv]) simp
  show "mem_DeleteCron k s = ((b, Some e), s') \<Longrightarrow> s' = s"
    by (drule mem_DeleteCron_refines [OF inv]) simp
  show "mem_DeleteCron k s = ((b, None), s') \<Longrightarrow>
      mem_inv s' \<and> mem_abs s' = (mem_abs s)\<lparr>aCrons := (aCrons (mem_abs s))(k := None)\<rparr> \<and>
      b = (aCrons (mem_abs s) k \<noteq> None)"
    by (drule mem_DeleteCron_refines [OF inv]) simp
  show "mem_AddDLQ j s = (Some e, s') \<Longrightarrow> s' = s" by (simp add: mem_AddDLQ_def)
  show "mem_AddDLQ j s = (None, s') \<Longrightarrow>
      mem_inv s' \<and> mem_abs s' = (mem_abs s)\<lparr>aDLQ := (aDLQ (mem_abs s))(ID j \<mapsto> j)\<rparr>"
    using inv by (auto simp: mem_AddDLQ_def mem_inv_frames mem_abs_def)
  show "mem_AddCron c s = (Some e, s') \<Longrightarrow> s' = s" by (simp add: mem_AddCron_def)
  show "mem_AddCron c s = (None, s') \<Longrightarrow>
      mem_inv s' \<and> mem_abs s' = (mem_abs s)\<lparr>aCrons := (aCrons (mem_abs s))(cID c \<mapsto> c)\<rparr>"
    using inv by (auto simp: mem_AddCron_def mem_inv_frames mem_abs_def)
  show "mem_ListDLQ ord s = Inr js \<Longrightarrow> set js = ran (aDLQ (mem_abs s))"
    using inv by (auto simp: mem_ListDLQ_def mem_abs_def wf_map_ran mem_inv_def mem_wf_def)
  show "mem_ListCrons ord s = Inr cs \<Longrightarrow> set cs = ran (aCrons (mem_abs s))"
    using inv by (auto simp: mem_ListCrons_def mem_abs_def wf_map_ran mem_inv_def mem_wf_def)
qed

section \<open>Properties\<close>


definition example_job :: job where
  "example_job = (NewJob 1 ''email'' 5)\<lparr>IdempotencyKey := ''k''\<rparr>"

lemma example_job_simps [simp]:
  "ID example_job = 1" "Status example_job = Pending" "IdempotencyKey example_job = ''k''"
  "Type example_job = ''email''" "Priority example_job = 5" "MaxRetries example_job = 3"
  "RetryCount example_job = 0" "NextRunAt example_job = 0"
  by (simp_all add: example_job_def NewJob_def zero_job_def)




end
