(* ===== verification/Executor.thy ===== *)
theory Executor
  imports Job_Model
begin

text \<open>
  The executors (\<open>src/internal/executor\<close>): the circuit breaker, the token bucket, the
  rate-limited executor and the mock executor. The breaker holds its mutex before and
  after the call of the next executor but not during it, so \<open>Execute\<close> is two atomic
  steps, \<open>breaker_enter\<close> and \<open>breaker_leave\<close>; calls that overlap interleave them.
\<close>

section \<open>Circuit breaker\<close>

datatype breaker_state = Closed | Open | HalfOpen

record breaker =
  bState :: breaker_state
  bFailures :: int
  bFailureThreshold :: int
  bResetTimeout :: duration
  bOpenedAt :: time
  bHalfOpenTesting :: bool

definition NewCircuitBreakerExecutor :: "int \<Rightarrow> duration \<Rightarrow> breaker" where
  "NewCircuitBreakerExecutor threshold resetTimeout =
     \<lparr>bState = Closed, bFailures = 0, bFailureThreshold = threshold,
      bResetTimeout = resetTimeout, bOpenedAt = 0, bHalfOpenTesting = False\<rparr>"

definition breaker_enter :: "time \<Rightarrow> breaker \<Rightarrow> error option \<times> breaker" where
  "breaker_enter now c =
     (case bState c of
        Open \<Rightarrow>
          if time_Sub now (bOpenedAt c) < bResetTimeout c then (Some ECircuitOpen, c)
          else (None, c\<lparr>bState := HalfOpen, bHalfOpenTesting := True\<rparr>)
      | HalfOpen \<Rightarrow>
          if bHalfOpenTesting c then (Some ECircuitOpen, c)
          else (None, c\<lparr>bHalfOpenTesting := True\<rparr>)
      | Closed \<Rightarrow> (None, c))"

definition breaker_leave :: "time \<Rightarrow> error option \<Rightarrow> breaker \<Rightarrow> error option \<times> breaker" where
  "breaker_leave now err c0 =
     (let c = c0\<lparr>bHalfOpenTesting := False\<rparr>
      in case err of
           None \<Rightarrow> (None, c\<lparr>bFailures := 0, bState := Closed\<rparr>)
         | Some e \<Rightarrow>
             let c1 = c\<lparr>bFailures := wrap64 (bFailures c + 1)\<rparr>
             in if bFailures c1 \<ge> bFailureThreshold c1
                then (Some e, c1\<lparr>bState := Open, bOpenedAt := now\<rparr>)
                else (Some e, c1))"

text \<open>
  One call that overlaps no other: it is admitted at time \<open>t\<close>, the next executor returns
  \<open>r\<close> and the call ends at time \<open>t'\<close>. The second component says whether the next executor
  was called.
\<close>

definition breaker_Execute :: "time \<Rightarrow> time \<Rightarrow> error option \<Rightarrow> breaker \<Rightarrow> error option \<times> bool \<times> breaker" where
  "breaker_Execute t t' r c =
     (case breaker_enter t c of
        (Some e, c') \<Rightarrow> (Some e, False, c')
      | (None, c') \<Rightarrow> (let (err, c'') = breaker_leave t' r c' in (err, True, c'')))"

text \<open>Overlapping calls, as a sequence of events; \<open>trials\<close> counts the calls in flight that were admitted in the half-open state, \<open>normal\<close> the others.\<close>

record breaker_sys =
  brk :: breaker
  normal :: nat
  trials :: nat

datatype breaker_event = Enter time | LeaveNormal time "error option" | LeaveTrial time "error option"

fun breaker_step :: "breaker_event \<Rightarrow> breaker_sys \<Rightarrow> breaker_sys option" where
  "breaker_step (Enter t) s =
     (case breaker_enter t (brk s) of
        (Some e, c) \<Rightarrow> Some (s\<lparr>brk := c\<rparr>)
      | (None, c) \<Rightarrow>
          Some (if bState c = HalfOpen then s\<lparr>brk := c, trials := Suc (trials s)\<rparr>
                else s\<lparr>brk := c, normal := Suc (normal s)\<rparr>))"
| "breaker_step (LeaveNormal t r) s =
     (if normal s = 0 then None
      else Some (s\<lparr>brk := snd (breaker_leave t r (brk s)), normal := normal s - 1\<rparr>))"
| "breaker_step (LeaveTrial t r) s =
     (if trials s = 0 then None
      else Some (s\<lparr>brk := snd (breaker_leave t r (brk s)), trials := trials s - 1\<rparr>))"

fun breaker_run :: "breaker_event list \<Rightarrow> breaker_sys \<Rightarrow> breaker_sys option" where
  "breaker_run [] s = Some s"
| "breaker_run (e # es) s = (case breaker_step e s of None \<Rightarrow> None | Some s' \<Rightarrow> breaker_run es s')"

lemmas breaker_defs = breaker_enter_def breaker_leave_def breaker_Execute_def Let_def

text \<open>The breaker leaves the closed state only when the failures have reached the threshold.\<close>

definition breaker_inv :: "breaker \<Rightarrow> bool" where
  "breaker_inv c \<longleftrightarrow> 0 \<le> bFailures c \<and> bFailures c < 2 ^ 63 \<and>
     (bState c \<noteq> Closed \<longrightarrow> bFailureThreshold c \<le> bFailures c)"

lemma breaker_inv_New [simp, wf_intros]: "breaker_inv (NewCircuitBreakerExecutor n d)"
  by (simp add: breaker_inv_def NewCircuitBreakerExecutor_def)

lemma breaker_inv_enter [simp, wf_intros]: "breaker_inv c \<Longrightarrow> breaker_inv (snd (breaker_enter t c))"
  by (auto simp: breaker_inv_def breaker_enter_def split: breaker_state.splits)

lemma breaker_inv_leave:
  "breaker_inv c \<Longrightarrow> bFailures c < 2 ^ 63 - 1 \<Longrightarrow> breaker_inv (snd (breaker_leave t r c))"
  by (auto simp: breaker_inv_def breaker_leave_def Let_def in_int64_def split: option.splits)

lemma breaker_open_rejects:
  "bState c = Open \<Longrightarrow> time_Sub t (bOpenedAt c) < bResetTimeout c \<Longrightarrow>
    breaker_Execute t t' r c = (Some ECircuitOpen, False, c)"
  by (simp add: breaker_defs)

lemma breaker_trial:
  assumes "breaker_inv c" "bFailures c < 2 ^ 63 - 1" "bState c = Open"
    "\<not> time_Sub t (bOpenedAt c) < bResetTimeout c"
  shows "breaker_Execute t t' r c =
    (r, True, case r of
       None \<Rightarrow> c\<lparr>bState := Closed, bFailures := 0, bHalfOpenTesting := False\<rparr>
     | Some e \<Rightarrow> c\<lparr>bState := Open, bFailures := bFailures c + 1, bOpenedAt := t', bHalfOpenTesting := False\<rparr>)"
proof (cases r)
  case None
  then show ?thesis using assms by (simp add: breaker_defs)
next
  case (Some e)
  have "wrap64 (bFailures c + 1) = bFailures c + 1"
    using assms(1,2) by (simp add: breaker_inv_def in_int64_def)
  then show ?thesis using Some assms by (simp add: breaker_defs breaker_inv_def)
qed

text \<open>A run of failing calls that overlap no other call, at the given times.\<close>

fun failing_calls :: "(time \<times> time \<times> error) list \<Rightarrow> breaker \<Rightarrow> breaker" where
  "failing_calls [] c = c"
| "failing_calls ((t, t', e) # cs) c = failing_calls cs (snd (snd (breaker_Execute t t' (Some e) c)))"

lemma failing_calls_closed:
  "bState c = Closed \<Longrightarrow> 0 \<le> bFailures c \<Longrightarrow> bFailures c + int (length cs) < bFailureThreshold c \<Longrightarrow>
    bFailureThreshold c < 2 ^ 63 \<Longrightarrow>
    bState (failing_calls cs c) = Closed \<and> bFailures (failing_calls cs c) = bFailures c + int (length cs) \<and>
    bFailureThreshold (failing_calls cs c) = bFailureThreshold c \<and> bResetTimeout (failing_calls cs c) = bResetTimeout c"
proof (induction cs arbitrary: c)
  case (Cons x cs)
  obtain t t' e where x: "x = (t, t', e)" by (cases x)
  let ?c = "snd (snd (breaker_Execute t t' (Some e) c))"
  have "wrap64 (bFailures c + 1) = bFailures c + 1"
    using Cons.prems by (intro wrap64_id) (simp add: in_int64_def)
  then have "bState ?c = Closed" "bFailures ?c = bFailures c + 1"
    "bFailureThreshold ?c = bFailureThreshold c" "bResetTimeout ?c = bResetTimeout c"
    using Cons.prems by (auto simp: breaker_defs)
  then show ?case using Cons.IH [of ?c] Cons.prems x by simp
qed simp

lemma breaker_opens:
  assumes "bState c = Closed" "0 \<le> bFailures c" "bFailures c + int (length cs) + 1 = bFailureThreshold c"
    "bFailureThreshold c < 2 ^ 63"
  shows "bState (failing_calls (cs @ [(t, t', e)]) c) = Open \<and> bOpenedAt (failing_calls (cs @ [(t, t', e)]) c) = t'"
proof -
  have app: "failing_calls (cs @ [(t, t', e)]) c = snd (snd (breaker_Execute t t' (Some e) (failing_calls cs c)))"
    by (induction cs arbitrary: c) auto
  have f: "bState (failing_calls cs c) = Closed" "bFailures (failing_calls cs c) = bFailures c + int (length cs)"
    "bFailureThreshold (failing_calls cs c) = bFailureThreshold c"
    using failing_calls_closed [of c cs] assms by auto
  have "wrap64 (bFailures (failing_calls cs c) + 1) = bFailureThreshold c"
    using assms f by (simp add: in_int64_def)
  then show ?thesis unfolding app using f by (simp add: breaker_defs)
qed

section \<open>Token bucket\<close>

definition NewTokenBucketLimiter :: "int \<Rightarrow> int \<Rightarrow> unit channel" where
  "NewTokenBucketLimiter rate burst =
     (let burst' = (if burst \<le> 0 then 1 else burst)
      in (make_chan (nat burst'))\<lparr>buf := replicate (nat burst') ()\<rparr>)"

definition refill_interval :: "int \<Rightarrow> duration" where
  "refill_interval rate =
     (let rate' = (if rate \<le> 0 then 1 else rate); interval = Second div rate'
      in if interval \<le> 0 then Millisecond else interval)"

definition refill_tick :: "unit channel \<Rightarrow> unit channel" where
  "refill_tick l = snd (try_send () l)"

text \<open>\<open>Acquire\<close> blocks on an empty bucket: \<open>None\<close>.\<close>

definition bucket_Acquire :: "unit channel \<Rightarrow> unit channel option" where
  "bucket_Acquire l = map_option snd (try_recv l)"

datatype bucket_event = Refill | Take

fun bucket_run :: "bucket_event list \<Rightarrow> unit channel \<Rightarrow> unit channel option" where
  "bucket_run [] l = Some l"
| "bucket_run (Refill # es) l = bucket_run es (refill_tick l)"
| "bucket_run (Take # es) l = (case bucket_Acquire l of None \<Rightarrow> None | Some l' \<Rightarrow> bucket_run es l')"

lemma bucket_run_tokens:
  "bucket_run es l = Some l' \<Longrightarrow> length (buf l) \<le> cap l \<Longrightarrow>
    count_list es Take + length (buf l') \<le> length (buf l) + count_list es Refill \<and>
    length (buf l') \<le> cap l' \<and> cap l' = cap l"
  by (induction es l rule: bucket_run.induct)
    (force simp: refill_tick_def bucket_Acquire_def try_send_def try_recv_def
      split: list.splits if_splits option.splits)+

lemma refill_interval_pos: "0 < refill_interval rate"
  by (simp add: refill_interval_def Let_def duration_defs)

section \<open>The executors the workers run\<close>

text \<open>
  \<open>MockExecutor.Execute\<close>: \<open>cancelled\<close> is whether the context ends before the simulated
  work does. \<open>RateLimitedExecutor.Execute\<close> takes a token first and then calls the next
  executor.
\<close>

definition MockExecutor_Execute :: "bool \<Rightarrow> job \<Rightarrow> error option" where
  "MockExecutor_Execute cancelled j =
     (if cancelled then Some ECanceled
      else if ID j mod 2 = 0 then Some ESimulatedFailure else None)"

definition RateLimitedExecutor_Execute ::
  "(job \<Rightarrow> error option) \<Rightarrow> job \<Rightarrow> unit channel \<Rightarrow> (error option \<times> unit channel) option" where
  "RateLimitedExecutor_Execute nxt j l =
     (case bucket_Acquire l of None \<Rightarrow> None | Some l' \<Rightarrow> Some (nxt j, l'))"

section \<open>Properties\<close>



text \<open>
  After the reset timeout exactly one trial call goes through: its success closes the
  breaker and clears the count, its failure opens the breaker again from the end of the
  call. Calls that arrive while the trial runs are rejected.
\<close>

theorem breaker_half_open_trial:
  assumes "breaker_inv c" "bFailures c < 2 ^ 63 - 1" "bState c = Open"
    "\<not> time_Sub t (bOpenedAt c) < bResetTimeout c"
  shows "breaker_Execute t t' r c =
      (r, True, case r of
         None \<Rightarrow> c\<lparr>bState := Closed, bFailures := 0, bHalfOpenTesting := False\<rparr>
       | Some e \<Rightarrow> c\<lparr>bState := Open, bFailures := bFailures c + 1, bOpenedAt := t', bHalfOpenTesting := False\<rparr>) \<and>
    (\<forall>u. breaker_enter u (snd (breaker_enter t c)) = (Some ECircuitOpen, snd (breaker_enter t c)))"
  using breaker_trial [OF assms] assms(3,4) by (simp add: breaker_enter_def)

theorem breaker_half_open_trial_witness:
  "let c = failing_calls [(0, 1, ECanceled)] (NewCircuitBreakerExecutor 1 10)
   in bState c = Open \<and> fst (breaker_Execute 20 21 None c) = None \<and> bState (snd (snd (breaker_Execute 20 21 None c))) = Closed"
proof -
  let ?c = "failing_calls [(0, 1, ECanceled)] (NewCircuitBreakerExecutor 1 10)"
  have c: "?c = \<lparr>bState = Open, bFailures = 1, bFailureThreshold = 1, bResetTimeout = 10, bOpenedAt = 1, bHalfOpenTesting = False\<rparr>"
    by code_simp
  have "breaker_inv ?c" unfolding c by (simp add: breaker_inv_def)
  then show ?thesis using breaker_half_open_trial [of ?c 20 21 None] unfolding c by (simp add: time_Sub_def)
qed

text \<open>
  When calls overlap, two trial calls can run at once, against the comment that
  \<open>halfOpenTesting\<close> guards a single trial: a call admitted while the breaker was closed
  that ends during a trial clears the flag and reopens the breaker, and after the next
  reset timeout a second trial is admitted while the first still runs.
\<close>

theorem breaker_two_trials:
  "map_option trials (breaker_run
      [Enter 0, Enter 0, LeaveNormal 1 (Some ESimulatedFailure), Enter 20,
       LeaveNormal 21 (Some ESimulatedFailure), Enter 40]
      \<lparr>brk = NewCircuitBreakerExecutor 1 10, normal = 0, trials = 0\<rparr>) = Some 2"
  by code_simp

text \<open>
  In any window, however refills and acquisitions interleave, a token bucket lets
  through at most as many calls as its burst plus the number of refill ticks of the window,
  and it never holds more tokens than the burst.
\<close>

theorem token_bucket_bound:
  assumes "length (buf l) \<le> cap l" "bucket_run es l = Some l'"
  shows "count_list es Take \<le> cap l + count_list es Refill \<and> length (buf l') \<le> cap l"
  using bucket_run_tokens [OF assms(2,1)] assms(1) by auto

theorem token_bucket_bound_witness:
  "let l = NewTokenBucketLimiter 5 2
   in length (buf l) \<le> cap l \<and> cap l = 2 \<and> (\<exists>l'. bucket_run [Take, Take, Refill, Take] l = Some l' \<and> length (buf l') \<le> 2)"
proof -
  let ?l = "NewTokenBucketLimiter 5 2"
  have h: "length (buf ?l) \<le> cap ?l" and c: "cap ?l = 2" by code_simp+
  have "bucket_run [Take, Take, Refill, Take] ?l \<noteq> None" by code_simp
  then obtain l' where l': "bucket_run [Take, Take, Refill, Take] ?l = Some l'" by blast
  then show ?thesis using token_bucket_bound [OF h l'] h c by simp
qed

end
