(* ===== verification/Worker_Node.thy ===== *)
theory Worker_Node
  imports Scheduler Memory_Store Executor
begin

text \<open>
  The execution side: the runner (\<open>src/internal/runner/runner.go\<close>), the in-process worker
  (\<open>src/internal/worker/worker.go\<close>), and the remote worker with its gRPC messages
  (\<open>src/internal/rpc/server\<close>, \<open>src/internal/rpc/client\<close>, \<open>src/internal/rpc/proxy\<close>,
  \<open>src/cmd/worker/main.go\<close>). The transport is a parameter: the outcome of a call. What the
  executor returned is an argument of the definitions that follow it.
\<close>

section \<open>Runner\<close>

text \<open>
  The cancel function of an execution is the number of the execution. \<open>rnHasStore\<close> is false
  on a remote worker, whose runner has no store.
\<close>

record runner =
  rnHasStore :: bool
  rnResults :: "result channel"
  activeTasks :: "(int, nat) gomap"

definition runner_New :: "bool \<Rightarrow> result channel \<Rightarrow> runner" where
  "runner_New hasStore results = \<lparr>rnHasStore = hasStore, rnResults = results, activeTasks = []\<rparr>"

text \<open>\<open>Cancel\<close> returns the execution whose context it ends, if there is one.\<close>

definition runner_Cancel :: "int \<Rightarrow> runner \<Rightarrow> nat option \<times> runner" where
  "runner_Cancel jobID r =
     (case map_of (activeTasks r) jobID of
        None \<Rightarrow> (None, r)
      | Some c \<Rightarrow> (Some c, r\<lparr>activeTasks := mdel jobID (activeTasks r)\<rparr>))"

definition sendResult :: "result \<Rightarrow> runner \<Rightarrow> runner" where
  "sendResult res r = r\<lparr>rnResults := snd (try_send res (rnResults r))\<rparr>"

text \<open>\<open>errors.Is(err, context.Canceled)\<close>.\<close>

fun is_canceled :: "error \<Rightarrow> bool" where
  "is_canceled ECanceled \<longleftrightarrow> True"
| "is_canceled (EWrap _ e) \<longleftrightarrow> is_canceled e"
| "is_canceled _ \<longleftrightarrow> False"

definition runner_update :: "'s store_ops \<Rightarrow> job \<Rightarrow> runner \<Rightarrow> 's \<Rightarrow> 's" where
  "runner_update so j r st = (if rnHasStore r then snd (st_Update so j st) else st)"

text \<open>\<open>Execute\<close> up to the call of the executor, and from its return to the end.\<close>

definition execute_begin :: "nat \<Rightarrow> job \<Rightarrow> runner \<Rightarrow> runner" where
  "execute_begin c j r = r\<lparr>activeTasks := mput (ID j) c (activeTasks r)\<rparr>"

definition execute_end :: "'s store_ops \<Rightarrow> error option \<Rightarrow> job \<Rightarrow> runner \<times> 's \<Rightarrow> runner \<times> 's" where
  "execute_end so outcome j rs =
     (let (r, st) = rs;
          (r1, st1) =
            (case outcome of
               Some err \<Rightarrow>
                 if is_canceled err then
                   (sendResult \<lparr>rJobID = ID j, rSuccess = False, rError = Some err, rAttempt = 0\<rparr> r,
                    runner_update so (j\<lparr>Status := Cancelled\<rparr>) r st)
                 else
                   (sendResult \<lparr>rJobID = ID j, rSuccess = False, rError = Some err, rAttempt = 0\<rparr> r,
                    runner_update so (j\<lparr>Status := Failed, LastError := error_string err\<rparr>) r st)
             | None \<Rightarrow>
                 (sendResult \<lparr>rJobID = ID j, rSuccess = True, rError = None, rAttempt = 0\<rparr> r,
                  runner_update so (j\<lparr>Status := Completed\<rparr>) r st))
      in (r1\<lparr>activeTasks := mdel (ID j) (activeTasks r1)\<rparr>, st1))"

section \<open>In-process worker\<close>

text \<open>
  \<open>Submit\<close> on the unbuffered job channel: the send is ready when the worker is waiting to
  receive; of two ready cases Go picks any (\<open>pick\<close>).
\<close>

definition worker_Submit :: "bool \<Rightarrow> bool \<Rightarrow> bool \<Rightarrow> error option" where
  "worker_Submit ctxDone receiving pick =
     (if ctxDone \<and> receiving then (if pick then Some ECanceled else None)
      else if ctxDone then Some ECanceled
      else if receiving then None
      else Some EWorkerBusy)"

text \<open>The loop of \<open>Start\<close>: where the goroutine stands, and its steps.\<close>

datatype worker_pc = Offering | Receiving | Executing job | Stopped

inductive worker_step ::
  "worker_client \<Rightarrow> worker_pc \<times> worker_client channel \<Rightarrow> worker_pc \<times> worker_client channel \<Rightarrow> bool" for w where
  stop_offering: "worker_step w (Offering, c) (Stopped, c)"
| offer: "try_send w c = (True, c') \<Longrightarrow> worker_step w (Offering, c) (Receiving, c')"
| stop_receiving: "worker_step w (Receiving, c) (Stopped, c)"
| receive: "worker_step w (Receiving, c) (Executing j, c)"
| finished: "worker_step w (Executing j, c) (Offering, c)"

inductive_cases worker_step_Executing: "worker_step w (Executing j, c) x"

section \<open>Messages of the worker service\<close>

record register_request =
  rqWorkerId :: int
  rqAddress :: string
  rqTopics :: "string list"

record submit_request =
  sqId :: int
  sqType :: string
  sqPriority :: int
  sqWorkerId :: int
  sqAttempt :: int

record report_request =
  pqJobId :: int
  pqSuccess :: bool
  pqError :: string
  pqWorkerId :: int
  pqAttempt :: int

text \<open>
  The client side. The conversions to \<open>int32\<close> wrap. \<open>Client_Submit\<close> takes the response of the
  transport: an error, or whether the job was accepted with the error text.
\<close>

definition register_message :: "int \<Rightarrow> string \<Rightarrow> string list \<Rightarrow> register_request" where
  "register_message i workerAddr topics =
     \<lparr>rqWorkerId = wrap32 i, rqAddress = workerAddr, rqTopics = topics\<rparr>"

definition submit_message :: "int \<Rightarrow> job \<Rightarrow> submit_request" where
  "submit_message i j =
     \<lparr>sqId = ID j, sqType = Type j, sqPriority = wrap32 (Priority j), sqWorkerId = wrap32 i, sqAttempt = 1\<rparr>"

definition Client_Submit :: "(submit_request \<Rightarrow> error + bool \<times> string) \<Rightarrow> int \<Rightarrow> job \<Rightarrow> error option" where
  "Client_Submit rpc i j =
     (case rpc (submit_message i j) of
        Inl err \<Rightarrow> Some err
      | Inr (accepted, msg) \<Rightarrow> if \<not> accepted then Some (EText msg) else None)"

definition report_message :: "int \<Rightarrow> int \<Rightarrow> int \<Rightarrow> bool \<Rightarrow> string \<Rightarrow> report_request" where
  "report_message i jobID attempt success errMsg =
     \<lparr>pqJobId = jobID, pqSuccess = success, pqError = errMsg, pqWorkerId = wrap32 i, pqAttempt = wrap32 attempt\<rparr>"

text \<open>The worker's main loop turns a local result into the message of the report.\<close>

definition forward_result :: "int \<Rightarrow> result \<Rightarrow> report_request" where
  "forward_result i res =
     report_message i (rJobID res) (rAttempt res) (rSuccess res)
       (case rError res of None \<Rightarrow> [] | Some e \<Rightarrow> error_string e)"

text \<open>
  \<open>Client.Start\<close>: one registration, then a heartbeat every second. An error of the registration ends it; an answer does not, whatever
  it says about success, and an error of a heartbeat is only logged.
\<close>

datatype client_pc = Registering | Beating | ClientStopped

datatype client_event = Answered "error + bool" | Beat "error option" | ContextDone

fun Client_Start :: "client_pc \<Rightarrow> client_event \<Rightarrow> client_pc" where
  "Client_Start Registering (Answered (Inl err)) = ClientStopped"
| "Client_Start Registering (Answered (Inr success)) = Beating"
| "Client_Start Beating (Beat err) = Beating"
| "Client_Start Beating ContextDone = ClientStopped"
| "Client_Start pc ev = pc"

definition heartbeat_message :: "int \<Rightarrow> int" where
  "heartbeat_message clientID = wrap32 clientID"

section \<open>Services\<close>

text \<open>
  \<open>ExecutionServer.SubmitJob\<close> on the worker builds the job it runs from the message. On the
  control node, \<open>WorkerServer\<close>: registration (\<open>dial\<close> is the outcome of dialling back, \<open>ref\<close>
  the new proxy), heartbeats and results.
\<close>

definition exec_SubmitJob :: "submit_request \<Rightarrow> job" where
  "exec_SubmitJob req = zero_job\<lparr>ID := sqId req, Type := sqType req, Priority := sqPriority req\<rparr>"

definition rpc_RegisterWorker :: "error option \<Rightarrow> nat \<Rightarrow> time \<Rightarrow> register_request \<Rightarrow> manager \<Rightarrow> bool \<times> manager" where
  "rpc_RegisterWorker dial ref now req m =
     (case dial of
        Some _ \<Rightarrow> (False, m)
      | None \<Rightarrow>
          let remote = Client (rqWorkerId req) ref
          in (True, MakeAvailable remote (Register now remote (rqAddress req) (rqTopics req) m)))"

definition rpc_Heartbeat :: "time \<Rightarrow> int \<Rightarrow> manager \<Rightarrow> manager" where
  "rpc_Heartbeat now workerId m = Heartbeat now workerId m"

definition reported_result :: "report_request \<Rightarrow> result" where
  "reported_result req =
     \<lparr>rJobID = pqJobId req, rSuccess = pqSuccess req,
      rError = (if pqSuccess req then None else Some (EText (pqError req))), rAttempt = pqAttempt req\<rparr>"

text \<open>
  \<open>ReportResult\<close>: \<open>None\<close> while the call blocks, otherwise whether the result was
  acknowledged. Of two ready cases Go picks any (\<open>pick\<close>).
\<close>

definition ReportResult :: "report_request \<Rightarrow> bool \<Rightarrow> bool \<Rightarrow> 's scheduler \<Rightarrow> (bool \<times> 's scheduler) option" where
  "ReportResult req ctxDone pick s =
     (let (sent, ch) = try_send (reported_result req) (Results s)
      in if sent \<and> \<not> (ctxDone \<and> pick) then
           (let s1 = s\<lparr>Results := ch\<rparr>
            in Some (True, case mgr_Get (Manager s1) (pqWorkerId req) of
                             None \<Rightarrow> s1
                           | Some w \<Rightarrow> s1\<lparr>Manager := MakeAvailable w (Manager s1)\<rparr>))
         else if ctxDone then Some (False, s)
         else None)"

section \<open>Settings of a worker process\<close>

text \<open>Identity and topics from the environment; a bad identity ends the process (\<open>Inl\<close>).\<close>

definition worker_id_setting :: "(string \<Rightarrow> string) \<Rightarrow> int \<Rightarrow> num_error + int" where
  "worker_id_setting env cfgID =
     (if env ''QUORUM_WORKER_ID'' \<noteq> [] then Atoi (env ''QUORUM_WORKER_ID'') else Inr cfgID)"

definition worker_topics_setting :: "(string \<Rightarrow> string) \<Rightarrow> string list" where
  "worker_topics_setting env =
     (let v = env ''QUORUM_WORKER_TOPICS'';
          parsed = filter (\<lambda>t. t \<noteq> []) (map TrimSpace (split_on (CHR '','') v))
      in if v \<noteq> [] \<and> length parsed > 0 then parsed else [''*''])"

definition metrics_port_setting :: "(string \<Rightarrow> string) \<Rightarrow> int" where
  "metrics_port_setting env =
     (if env ''QUORUM_METRICS_PORT'' \<noteq> [] then (case Atoi (env ''QUORUM_METRICS_PORT'') of Inr p \<Rightarrow> p | Inl _ \<Rightarrow> 9090) else 9090)"

definition worker_port_setting :: "(string \<Rightarrow> string) \<Rightarrow> int \<Rightarrow> num_error + int" where
  "worker_port_setting env cfgPort =
     (if env ''QUORUM_WORKER_PORT'' \<noteq> [] then Atoi (env ''QUORUM_WORKER_PORT'') else Inr cfgPort)"

definition worker_addr_setting :: "(string \<Rightarrow> string) \<Rightarrow> int \<Rightarrow> string" where
  "worker_addr_setting env workerPort =
     (if env ''QUORUM_WORKER_ADDR'' \<noteq> [] then env ''QUORUM_WORKER_ADDR'' else ''localhost:'' @ Itoa workerPort)"

definition controller_addr_setting :: "(string \<Rightarrow> string) \<Rightarrow> int \<Rightarrow> string" where
  "controller_addr_setting env port =
     (if env ''QUORUM_CONTROLLER_ADDR'' \<noteq> [] then env ''QUORUM_CONTROLLER_ADDR'' else ''localhost:'' @ Itoa port)"

section \<open>Results\<close>

text \<open>The lemmas of the scheduler about a store without faults, for the in-memory store.\<close>

interpretation memq: scheduler_store memory_ops mem_inv mem_abs
  by unfold_locales (rule mem.ListByStatus_succeeds)

lemma execute_end_results:
  "set (buf (rnResults (fst (execute_end so outcome j (r, st))))) \<subseteq> insert
     \<lparr>rJobID = ID j, rSuccess = (outcome = None), rError = outcome, rAttempt = 0\<rparr> (set (buf (rnResults r)))"
  by (auto simp: execute_end_def sendResult_def try_send_def split: option.splits if_splits)

lemma execute_end_failed:
  "\<not> is_canceled e \<Longrightarrow> rnHasStore r \<Longrightarrow>
    snd (execute_end so (Some e) j (r, st)) = snd (st_Update so (failed_job e j) st)"
  by (simp add: execute_end_def runner_update_def failed_job_def)

lemma failing_result_simps [simp]:
  "\<not> stale_result s \<lparr>rJobID = i, rSuccess = b, rError = e, rAttempt = 0\<rparr>"
  by (simp add: stale_result_def)

text \<open>
  The rounds of a job whose every attempt fails: the result arrives, and a minute later,
  when any backoff has passed, the delay loop runs.
\<close>

fun fail_rounds :: "int \<Rightarrow> (time \<times> error) list \<Rightarrow> memory_store scheduler \<Rightarrow> memory_store scheduler option" where
  "fail_rounds i [] s = Some s"
| "fail_rounds i ((t, e) # rs) s =
     (case handle_result memory_ops t \<lparr>rJobID = i, rSuccess = False, rError = Some e, rAttempt = 0\<rparr> s of
        None \<Rightarrow> None
      | Some s' \<Rightarrow> fail_rounds i rs (ProcessDelayedJobs memory_ops (\<lambda>_. t + Minute) s'))"

lemma fail_rounds_append:
  "fail_rounds i (rs @ rs') s = Option.bind (fail_rounds i rs s) (fail_rounds i rs')"
  by (induction rs arbitrary: s) (auto split: option.split)

definition round_state :: "int \<Rightarrow> nat \<Rightarrow> nat \<Rightarrow> dead_letter_queue \<Rightarrow> memory_store scheduler \<Rightarrow> bool" where
  "round_state i n m d s \<longleftrightarrow> mem_inv (sStore s) \<and> queue_ids (DelayQueue s) = {#} \<and> sDLQ s = d \<and>
     (\<exists>j. sched_get memory_ops s i = Some j \<and> Status j = Pending \<and> RetryCount j = int n \<and> MaxRetries j = int m)"

lemma fail_round:
  assumes "round_state i n m d s" "n < m" "m \<le> 33"
  shows "\<exists>s'. handle_result memory_ops t \<lparr>rJobID = i, rSuccess = False, rError = Some e, rAttempt = 0\<rparr> s = Some s' \<and>
    round_state i (Suc n) m d (ProcessDelayedJobs memory_ops (\<lambda>_. t + Minute) s')"
proof -
  let ?r = "\<lparr>rJobID = i, rSuccess = False, rError = Some e, rAttempt = 0\<rparr>"
  obtain j where inv: "mem_inv (sStore s)" and q: "queue_ids (DelayQueue s) = {#}" and d: "sDLQ s = d"
    and j: "sched_get memory_ops s i = Some j" "Status j = Pending" "RetryCount j = int n" "MaxRetries j = int m"
    using assms(1) by (auto simp: round_state_def)
  let ?t = "t + backoff_spec (Suc n) Minute" and ?j = "(retry_job e j)\<lparr>NextRunAt := t + backoff_spec (Suc n) Minute\<rparr>"
  obtain s' where h: "handle_result memory_ops t ?r s = Some s'" and s': "mem_inv (sStore s')"
      "sched_get memory_ops s' i = Some ?j" "queue_ids (DelayQueue s') = {#i#}" "sDLQ s' = d"
    using memq.retry_effect [OF inv, of ?r j e t] j assms(2,3) q d by auto
  have "NextRunAt ?j \<le> t + Minute" using backoff_spec_bounds [of Minute "Suc n"] by (simp add: Minute_def)
  moreover have "Status ?j = Scheduled" "RetryCount ?j = int (Suc n)" "MaxRetries ?j = int m"
    using j assms(2,3) by (simp_all add: retry_job_def wrap64_def)
  ultimately have "round_state i (Suc n) m d (ProcessDelayedJobs memory_ops (\<lambda>_. t + Minute) s')"
    using memq.promote_effect [OF s'(1,3,2), of "\<lambda>_. t + Minute"] s'(4) by (auto simp: round_state_def)
  then show ?thesis using h by blast
qed

lemma fail_rounds_pending:
  "round_state i n m d s \<Longrightarrow> n + length rs \<le> m \<Longrightarrow> m \<le> 33 \<Longrightarrow>
    \<exists>s'. fail_rounds i rs s = Some s' \<and> round_state i (n + length rs) m d s'"
proof (induction rs arbitrary: n s)
  case (Cons x rs)
  obtain t e where x: "x = (t, e)" by fastforce
  obtain s' where "handle_result memory_ops t \<lparr>rJobID = i, rSuccess = False, rError = Some e, rAttempt = 0\<rparr> s = Some s'"
      "round_state i (Suc n) m d (ProcessDelayedJobs memory_ops (\<lambda>_. t + Minute) s')"
    using fail_round [OF Cons.prems(1), of t e] Cons.prems(2,3) by auto
  then show ?case using Cons.IH [of "Suc n"] Cons.prems(2,3) x by simp
qed simp

section \<open>Properties\<close>





text \<open>
  C39. A job that fails on an in-process worker is neither retried nor put into the
  dead-letter queue, whatever retries it has left: the runner has already stored it as failed, so
  the scheduler's transition to scheduled is refused, and promoting the queued ID finds
  a job that cannot become pending.
\<close>

theorem local_failure_is_final:
  assumes "mem_inv (sStore s)" "sched_get memory_ops s (ID j) = Some j" "Status j = Pending"
    "0 \<le> RetryCount j" "RetryCount j < MaxRetries j" "RetryCount j < 33"
    "rnHasStore r" "\<not> is_canceled e"
  shows "\<exists>s'. handle_result memory_ops now \<lparr>rJobID = ID j, rSuccess = False, rError = Some e, rAttempt = 0\<rparr>
      (s\<lparr>sStore := snd (execute_end memory_ops (Some e) j (r, sStore s))\<rparr>) = Some s' \<and>
    sched_get memory_ops s' (ID j) = Some (failed_job e j) \<and>
    sDLQ s' = sDLQ s \<and> mDLQ (sStore s') = mDLQ (sStore s) \<and> PriorityQueue s' = PriorityQueue s \<and>
    fst (mem_Update ((failed_job e j)\<lparr>Status := Pending\<rparr>) (sStore s')) \<noteq> None"
proof -
  let ?st = "snd (mem_Update (failed_job e j) (sStore s))"
  let ?s1 = "s\<lparr>sStore := ?st\<rparr>" and ?r = "\<lparr>rJobID = ID j, rSuccess = False, rError = Some e, rAttempt = 0\<rparr>"
  let ?s' = "enqueueJob memory_ops (ID j) TheDelayQueue (s\<lparr>Leases := Release (ID j) (Leases s), sStore := ?st\<rparr>)"
  have gs: "st_Get memory_ops (sStore s) (ID j) = Some j" using assms(2) by (simp add: sched_get_def)
  have st: "mem_Get ?st = (mem_Get (sStore s))(ID j \<mapsto> failed_job e j)"
    using memq.Get_Update(2) [OF assms(1) gs, of "failed_job e j"] assms(3) by simp
  have g1: "sched_get memory_ops ?s1 (rJobID ?r) = Some (failed_job e j)" using st by (simp add: sched_get_def)
  have rej: "snd (mem_Update x ?st) = ?st" "fst (mem_Update x ?st) \<noteq> None"
    if "ID x = ID j" "Status x \<noteq> Failed" for x
    using that st by (auto simp: mem_Update_def mem_Get_def fun_eq_iff IsValidTransition_terminal split: option.splits)
  have m: "MaxRetries (failed_job e j) = MaxRetries j" "RetryCount (failed_job e j) = RetryCount j"
    by (simp_all add: failed_job_def)
  have "handle_result memory_ops now ?r ?s1 = Some ?s'"
    using assms(4-6) m rej(1) [of "(retry_job e (failed_job e j))\<lparr>NextRunAt := _\<rparr>"]
    by (simp add: handle_result_unfold [OF g1] ShouldRetry_def NextRetryTime_retry Let_def)
  moreover have "mDLQ ?st = mDLQ (sStore s)"
    by (simp add: mem_Update_def Let_def split: option.split)
  moreover have "sched_get memory_ops ?s' (ID j) = Some (failed_job e j)" using g1 by (simp add: sched_get_def)
  ultimately show ?thesis
    using execute_end_failed [OF assms(8,7), of memory_ops j "sStore s"] rej(2) [of "(failed_job e j)\<lparr>Status := Pending\<rparr>"]
    by (intro exI [of _ ?s']) (simp add: enqueueJob_def)
qed

theorem local_failure_is_final_witness:
  "let s = NewScheduler (snd (mem_Add example_job NewMemoryStore)) 100 True;
       r = runner_New True (make_chan 100);
       s1 = s\<lparr>sStore := snd (execute_end memory_ops (Some ESimulatedFailure) example_job (r, sStore s))\<rparr>
   in \<exists>s'. handle_result memory_ops 0 \<lparr>rJobID = 1, rSuccess = False, rError = Some ESimulatedFailure, rAttempt = 0\<rparr> s1 = Some s' \<and>
        map_option Status (sched_get memory_ops s' 1) = Some Failed \<and> sDLQ s' = []"
proof -
  let ?s = "NewScheduler (snd (mem_Add example_job NewMemoryStore)) 100 True"
  let ?r = "runner_New True (make_chan 100)" and ?e = ESimulatedFailure
  have inv: "mem_inv (sStore ?s)" unfolding NewScheduler_def
    using mem_inv_fresh [OF mem_inv_New, of example_job] by (simp add: aFresh_def mem_abs_def NewMemoryStore_def in_int64_def)
  have g: "sched_get memory_ops ?s (ID example_job) = Some example_job"
    by (simp add: sched_get_def NewScheduler_def mem_Get_def mem_Add_def Let_def NewMemoryStore_def)
  have "rnHasStore ?r" "sDLQ ?s = []" by (simp_all add: runner_New_def NewScheduler_def dlq_New_def)
  then show ?thesis using local_failure_is_final [OF inv g, of ?r ?e 0]
    by (auto simp: Let_def failed_job_def)
qed

text \<open>
  The check for results of an old attempt never discards anything: every result a runner
  produces carries the attempt 0, in the process and after the trip through a report, and the
  check only looks at attempts above 0.
\<close>

theorem stale_check_never_fires:
  assumes "res \<in> set (buf (rnResults (fst (execute_end so outcome j (r, st)))))" "res \<notin> set (buf (rnResults r))"
  shows "\<not> stale_result s res \<and> \<not> stale_result s (reported_result (forward_result i res))"
proof -
  have "rAttempt res = 0" using execute_end_results [of so outcome j r st] assms by auto
  then show ?thesis
    by (simp add: stale_result_def reported_result_def forward_result_def report_message_def wrap32_def)
qed

theorem stale_check_never_fires_witness:
  "let r = runner_New False (make_chan 10);
       res = \<lparr>rJobID = 1, rSuccess = True, rError = None, rAttempt = 0\<rparr>;
       s = (NewScheduler NewMemoryStore 100 True)\<lparr>Leases := Acquire 0 1 7 1 5 NewLeaseManager\<rparr>
   in res \<in> set (buf (rnResults (fst (execute_end memory_ops None example_job (r, NewMemoryStore))))) \<and>
      \<not> stale_result s (reported_result (forward_result 7 res))"
  using stale_check_never_fires [of "\<lparr>rJobID = 1, rSuccess = True, rError = None, rAttempt = 0\<rparr>" memory_ops None
      example_job "runner_New False (make_chan 10)" NewMemoryStore]
  by (simp add: execute_end_def sendResult_def runner_New_def try_send_def make_chan_def)

text \<open>
  A job survives the message to a remote worker as far as the worker needs it: its ID
  and type arrive as sent, and its priority exactly when it fits into 32 bits. The result that
  comes back names the same job, success and error text.
\<close>

theorem remote_trip:
  "ID (exec_SubmitJob (submit_message i j)) = ID j \<and> Type (exec_SubmitJob (submit_message i j)) = Type j \<and>
   (Priority (exec_SubmitJob (submit_message i j)) = Priority j \<longleftrightarrow> - (2 ^ 31) \<le> Priority j \<and> Priority j < 2 ^ 31) \<and>
   rJobID (reported_result (forward_result i res)) = rJobID res \<and>
   rSuccess (reported_result (forward_result i res)) = rSuccess res \<and>
   (if rSuccess res then rError (reported_result (forward_result i res)) = None
    else map_option error_string (rError (reported_result (forward_result i res))) =
      Some (case rError res of None \<Rightarrow> [] | Some e \<Rightarrow> error_string e))"
  by (auto simp: exec_SubmitJob_def submit_message_def reported_result_def forward_result_def report_message_def
      wrap32_id_iff split: option.split)

end
