(* ===== verification/Bolt_Store.thy ===== *)
theory Bolt_Store
  imports Store_Spec
begin

text \<open>
  The persistent backend (\<open>src/internal/store/bolt_store.go\<close>). The database engine
  (go.etcd.io/bbolt) is a parameter: a record \<open>bolt_ops\<close> of the calls the source makes, on
  an arbitrary type \<open>'db\<close> of database states. What bbolt documents about them is the locale
  \<open>bolt_db\<close>; every fault it documents (a closed database, a refused put or delete, a failed
  commit) stays possible. Under these laws the backend refines the same abstract store
  as the in-memory one, whatever faults occur.
\<close>

section \<open>Values and buckets\<close>

text \<open>
  The bytes of a value: the JSON text of a job, the JSON text of a cron job, or plain bytes
  (the decimal ID under an idempotency key, the empty value of a status bucket, anything
  unreadable). \<open>json.Marshal\<close> fails exactly on a time outside the years 0 to 9999; a job's
  text does not decode as a cron job nor the reverse, since the types of their \<open>id\<close>
  members differ. Texts are taken to be valid UTF-8, which JSON encoding leaves unchanged.
\<close>

datatype blob = JobJSON job | CronJSON cron_job | Bytes string

definition Day :: duration where "Day = 86400000000000"

definition time_marshals :: "time \<Rightarrow> bool" where
  "time_marshals t \<longleftrightarrow> - 366 * Day \<le> t \<and> t < 3652059 * Day"

definition marshal_job :: "job \<Rightarrow> error + blob" where
  "marshal_job j = (if time_marshals (NextRunAt j) then Inr (JobJSON j) else Inl EMarshal)"

definition marshal_cron :: "cron_job \<Rightarrow> error + blob" where
  "marshal_cron c = (if time_marshals (cNextRun c) then Inr (CronJSON c) else Inl EMarshal)"

fun unmarshal_job :: "blob \<Rightarrow> error + job" where
  "unmarshal_job (JobJSON j) = Inr j"
| "unmarshal_job _ = Inl EUnmarshal"

fun unmarshal_cron :: "blob \<Rightarrow> error + cron_job" where
  "unmarshal_cron (CronJSON c) = Inr c"
| "unmarshal_cron _ = Inl EUnmarshal"

datatype bucket =
    jobsBucket | cronBucket | dlqBucket | idempotencyBucket
  | statusPendingBucket | statusScheduledBucket | statusCompletedBucket
  | statusFailedBucket | statusCancelledBucket

fun getStatusBucket :: "status \<Rightarrow> bucket option" where
  "getStatusBucket Pending = Some statusPendingBucket"
| "getStatusBucket Scheduled = Some statusScheduledBucket"
| "getStatusBucket Completed = Some statusCompletedBucket"
| "getStatusBucket Failed = Some statusFailedBucket"
| "getStatusBucket Cancelled = Some statusCancelledBucket"
| "getStatusBucket (OtherStatus _) = None"

definition key :: "int \<Rightarrow> string" where
  "key i = Itoa i"

section \<open>The database engine as a parameter\<close>

record 'db bolt_ops =
  bk_open :: "'db \<Rightarrow> bool"
  bk_get :: "'db \<Rightarrow> bucket \<Rightarrow> string \<Rightarrow> blob option"
  bk_put :: "bucket \<Rightarrow> string \<Rightarrow> blob \<Rightarrow> 'db \<Rightarrow> error + 'db"
  bk_delete :: "bucket \<Rightarrow> string \<Rightarrow> 'db \<Rightarrow> error + 'db"
  bk_foreach :: "'db \<Rightarrow> bucket \<Rightarrow> (string \<times> blob) list"
  bk_commit :: "'db \<Rightarrow> error option"

text \<open>
  \<open>db.Update\<close> runs the function in a read-write transaction and commits it when the
  function returns nil, and rolls back otherwise; \<open>db.View\<close> runs it on a snapshot.
\<close>

definition bolt_Tx :: "'db bolt_ops \<Rightarrow> ('db \<Rightarrow> error + 'db) \<Rightarrow> 'db \<Rightarrow> error option \<times> 'db" where
  "bolt_Tx bk fn db =
     (if \<not> bk_open bk db then (Some (EBolt ''database not open''), db)
      else case fn db of
             Inl e \<Rightarrow> (Some e, db)
           | Inr tx \<Rightarrow> (case bk_commit bk tx of Some e \<Rightarrow> (Some e, db) | None \<Rightarrow> (None, tx)))"

definition bolt_View :: "'db bolt_ops \<Rightarrow> ('db \<Rightarrow> error + 'a) \<Rightarrow> 'db \<Rightarrow> error + 'a" where
  "bolt_View bk fn db = (if bk_open bk db then fn db else Inl (EBolt ''database not open''))"

fun bind_err :: "error + 'a \<Rightarrow> ('a \<Rightarrow> error + 'b) \<Rightarrow> error + 'b" where
  "bind_err (Inl e) f = Inl e"
| "bind_err (Inr x) f = f x"

lemma bind_err_Inr: "bind_err r f = Inr y \<longleftrightarrow> (\<exists>x. r = Inr x \<and> f x = Inr y)"
  by (cases r) auto

section \<open>Operations\<close>

definition putJob :: "'db bolt_ops \<Rightarrow> job \<Rightarrow> 'db \<Rightarrow> error + 'db" where
  "putJob bk j tx =
     (case marshal_job j of
        Inl e \<Rightarrow> Inl (EWrap (''marshal job '' @ Itoa (ID j)) e)
      | Inr v \<Rightarrow> bk_put bk jobsBucket (key (ID j)) v tx)"

definition addToStatusBucket :: "'db bolt_ops \<Rightarrow> status \<Rightarrow> int \<Rightarrow> 'db \<Rightarrow> error + 'db" where
  "addToStatusBucket bk st i tx =
     (case getStatusBucket st of
        None \<Rightarrow> Inr tx
      | Some b \<Rightarrow> bk_put bk b (key i) (Bytes []) tx)"

definition removeFromStatusBucket :: "'db bolt_ops \<Rightarrow> status \<Rightarrow> int \<Rightarrow> 'db \<Rightarrow> error + 'db" where
  "removeFromStatusBucket bk st i tx =
     (case getStatusBucket st of
        None \<Rightarrow> Inr tx
      | Some b \<Rightarrow> bk_delete bk b (key i) tx)"

definition bolt_Add :: "'db bolt_ops \<Rightarrow> job \<Rightarrow> 'db \<Rightarrow> error option \<times> 'db" where
  "bolt_Add bk j = bolt_Tx bk (\<lambda>tx.
     bind_err (putJob bk j tx) (\<lambda>tx1.
     bind_err
       (if IdempotencyKey j \<noteq> []
        then case bk_put bk idempotencyBucket (IdempotencyKey j) (Bytes (Itoa (ID j))) tx1 of
               Inl e \<Rightarrow> Inl (EWrap ''write idempotency key'' e)
             | Inr tx2 \<Rightarrow> Inr tx2
        else Inr tx1)
     (\<lambda>tx2. addToStatusBucket bk (Status j) (ID j) tx2)))"

definition bolt_Get :: "'db bolt_ops \<Rightarrow> 'db \<Rightarrow> int \<Rightarrow> job option" where
  "bolt_Get bk db i =
     (case bolt_View bk (\<lambda>tx.
        case bk_get bk tx jobsBucket (key i) of
          None \<Rightarrow> Inl (EText ''not found'')
        | Some v \<Rightarrow> unmarshal_job v) db of
        Inl e \<Rightarrow> None
      | Inr j \<Rightarrow> Some j)"

text \<open>
  \<open>ForEach\<close> with a body that decodes and appends: it stops at the first error and keeps
  what it has collected.
\<close>

fun for_each :: "('e \<Rightarrow> error + 'a list) \<Rightarrow> 'e list \<Rightarrow> 'a list \<times> error option" where
  "for_each f [] = ([], None)"
| "for_each f (x # xs) =
     (case f x of
        Inl e \<Rightarrow> ([], Some e)
      | Inr ys \<Rightarrow> (let (zs, err) = for_each f xs in (ys @ zs, err)))"

definition decode_each :: "(blob \<Rightarrow> error + 'a) \<Rightarrow> string \<times> blob \<Rightarrow> error + 'a list" where
  "decode_each um kv = (case um (snd kv) of Inl e \<Rightarrow> Inl e | Inr x \<Rightarrow> Inr [x])"

definition bolt_List :: "'db bolt_ops \<Rightarrow> 'db \<Rightarrow> job list" where
  "bolt_List bk db =
     (if bk_open bk db then fst (for_each (decode_each unmarshal_job) (bk_foreach bk db jobsBucket))
      else [])"

definition view_each :: "'db bolt_ops \<Rightarrow> ('e \<Rightarrow> error + 'a list) \<Rightarrow> 'e list \<Rightarrow> 'db \<Rightarrow> error + 'a list" where
  "view_each bk f xs db =
     bolt_View bk (\<lambda>tx. case for_each f xs of (ys, None) \<Rightarrow> Inr ys | (ys, Some e) \<Rightarrow> Inl e) db"

definition status_entry :: "'db bolt_ops \<Rightarrow> 'db \<Rightarrow> string \<times> blob \<Rightarrow> error + job list" where
  "status_entry bk db kv =
     (case bk_get bk db jobsBucket (fst kv) of
        None \<Rightarrow> Inr []
      | Some jobBytes \<Rightarrow> (case unmarshal_job jobBytes of Inl e \<Rightarrow> Inl e | Inr j \<Rightarrow> Inr [j]))"

definition bolt_ListByStatus :: "'db bolt_ops \<Rightarrow> status \<Rightarrow> 'db \<Rightarrow> error + job list" where
  "bolt_ListByStatus bk st db =
     (case getStatusBucket st of
        None \<Rightarrow> bolt_View bk (\<lambda>tx. Inr []) db
      | Some b \<Rightarrow> view_each bk (status_entry bk db) (bk_foreach bk db b) db)"

definition bolt_Update :: "'db bolt_ops \<Rightarrow> job \<Rightarrow> 'db \<Rightarrow> error option \<times> 'db" where
  "bolt_Update bk j = bolt_Tx bk (\<lambda>tx.
     case bk_get bk tx jobsBucket (key (ID j)) of
       None \<Rightarrow> Inl (EUpdateMissing (ID j))
     | Some v \<Rightarrow>
         (case unmarshal_job v of
            Inl e \<Rightarrow> Inl (EWrap (''unmarshal job '' @ Itoa (ID j)) e)
          | Inr existing \<Rightarrow>
              if \<not> IsValidTransition (Status existing) (Status j)
              then Inl (EBadTransition (Status existing) (Status j) (ID j))
              else
                bind_err (removeFromStatusBucket bk (Status existing) (ID j) tx) (\<lambda>tx1.
                bind_err (putJob bk j tx1) (\<lambda>tx2.
                addToStatusBucket bk (Status j) (ID j) tx2))))"

text \<open>\<open>Delete\<close> ignores the errors of the index removals and goes on with the transaction.\<close>

definition ignore_err :: "error + 'db \<Rightarrow> 'db \<Rightarrow> 'db" where
  "ignore_err r tx = (case r of Inl e \<Rightarrow> tx | Inr tx' \<Rightarrow> tx')"

definition delete_tx :: "'db bolt_ops \<Rightarrow> int \<Rightarrow> 'db \<Rightarrow> error + 'db" where
  "delete_tx bk i tx =
     (case bk_get bk tx jobsBucket (key i) of
        None \<Rightarrow> Inr tx
      | Some v \<Rightarrow>
          let tx2 =
            (case unmarshal_job v of
               Inl e \<Rightarrow> tx
             | Inr j \<Rightarrow>
                 let tx1 = ignore_err (removeFromStatusBucket bk (Status j) i tx) tx
                 in if IdempotencyKey j \<noteq> []
                    then ignore_err (bk_delete bk idempotencyBucket (IdempotencyKey j) tx1) tx1
                    else tx1)
          in bk_delete bk jobsBucket (key i) tx2)"

definition bolt_Delete :: "'db bolt_ops \<Rightarrow> int \<Rightarrow> 'db \<Rightarrow> (bool \<times> error option) \<times> 'db" where
  "bolt_Delete bk i db =
     (let found = bk_open bk db \<and> bk_get bk db jobsBucket (key i) \<noteq> None;
          (err, db') = bolt_Tx bk (delete_tx bk i) db
      in ((found, err), db'))"

definition bolt_Cancel :: "'db bolt_ops \<Rightarrow> int \<Rightarrow> 'db \<Rightarrow> error option \<times> 'db" where
  "bolt_Cancel bk i = bolt_Tx bk (\<lambda>tx.
     case bk_get bk tx jobsBucket (key i) of
       None \<Rightarrow> Inl EJobNotFound
     | Some v \<Rightarrow>
         (case unmarshal_job v of
            Inl e \<Rightarrow> Inl (EWrap ''unmarshal job'' e)
          | Inr j \<Rightarrow>
              if Status j = Completed \<or> Status j = Failed \<or> Status j = Cancelled
              then Inl (EInTerminal (Status j))
              else
                bind_err (removeFromStatusBucket bk (Status j) i tx) (\<lambda>tx1.
                bind_err (putJob bk (j\<lparr>Status := Cancelled\<rparr>) tx1) (\<lambda>tx2.
                addToStatusBucket bk Cancelled i tx2))))"

definition bolt_AddCron :: "'db bolt_ops \<Rightarrow> cron_job \<Rightarrow> 'db \<Rightarrow> error option \<times> 'db" where
  "bolt_AddCron bk c = bolt_Tx bk (\<lambda>tx.
     bind_err (marshal_cron c) (\<lambda>v. bk_put bk cronBucket (cID c) v tx))"

definition bolt_DeleteCron :: "'db bolt_ops \<Rightarrow> string \<Rightarrow> 'db \<Rightarrow> (bool \<times> error option) \<times> 'db" where
  "bolt_DeleteCron bk k db =
     (let found = bk_open bk db \<and> bk_get bk db cronBucket k \<noteq> None;
          (err, db') = bolt_Tx bk (\<lambda>tx.
            if bk_get bk tx cronBucket k = None then Inr tx else bk_delete bk cronBucket k tx) db
      in ((found, err), db'))"

definition bolt_ListCrons :: "'db bolt_ops \<Rightarrow> 'db \<Rightarrow> error + cron_job list" where
  "bolt_ListCrons bk db = view_each bk (decode_each unmarshal_cron) (bk_foreach bk db cronBucket) db"

definition bolt_AddDLQ :: "'db bolt_ops \<Rightarrow> job \<Rightarrow> 'db \<Rightarrow> error option \<times> 'db" where
  "bolt_AddDLQ bk j = bolt_Tx bk (\<lambda>tx.
     bind_err (marshal_job j) (\<lambda>v. bk_put bk dlqBucket (key (ID j)) v tx))"

definition bolt_ListDLQ :: "'db bolt_ops \<Rightarrow> 'db \<Rightarrow> error + job list" where
  "bolt_ListDLQ bk db = view_each bk (decode_each unmarshal_job) (bk_foreach bk db dlqBucket) db"

definition bolt_FindByIdempotencyKey :: "'db bolt_ops \<Rightarrow> string \<Rightarrow> 'db \<Rightarrow> job option" where
  "bolt_FindByIdempotencyKey bk ikey db =
     (if ikey = [] then None
      else case bolt_View bk (\<lambda>tx.
             case bk_get bk tx idempotencyBucket ikey of
               Some (Bytes idBytes) \<Rightarrow>
                 (case Atoi idBytes of
                    Inl e \<Rightarrow> Inl (EText ''not found'')
                  | Inr i \<Rightarrow>
                      (case bk_get bk tx jobsBucket (key i) of
                         None \<Rightarrow> Inl (EText ''not found'')
                       | Some v \<Rightarrow> unmarshal_job v))
             | _ \<Rightarrow> Inl (EText ''not found'')) db of
             Inl e \<Rightarrow> None
           | Inr j \<Rightarrow> Some j)"

definition bolt_store_ops :: "'db bolt_ops \<Rightarrow> 'db store_ops" where
  "bolt_store_ops bk =
     \<lparr>st_Add = bolt_Add bk, st_Get = bolt_Get bk, st_List = (\<lambda>_. bolt_List bk),
      st_ListByStatus = (\<lambda>_. bolt_ListByStatus bk),
      st_Update = bolt_Update bk, st_Delete = bolt_Delete bk, st_Cancel = bolt_Cancel bk,
      st_AddCron = bolt_AddCron bk, st_DeleteCron = bolt_DeleteCron bk,
      st_ListCrons = (\<lambda>_. bolt_ListCrons bk),
      st_AddDLQ = bolt_AddDLQ bk, st_ListDLQ = (\<lambda>_. bolt_ListDLQ bk),
      st_FindByIdempotencyKey = bolt_FindByIdempotencyKey bk\<rparr>"

lemma bolt_store_ops_simps [simp, go_simps]:
  "st_Add (bolt_store_ops bk) = bolt_Add bk" "st_Get (bolt_store_ops bk) = bolt_Get bk"
  "st_List (bolt_store_ops bk) ord = bolt_List bk"
  "st_ListByStatus (bolt_store_ops bk) ord = bolt_ListByStatus bk"
  "st_Update (bolt_store_ops bk) = bolt_Update bk" "st_Delete (bolt_store_ops bk) = bolt_Delete bk"
  "st_Cancel (bolt_store_ops bk) = bolt_Cancel bk" "st_AddCron (bolt_store_ops bk) = bolt_AddCron bk"
  "st_DeleteCron (bolt_store_ops bk) = bolt_DeleteCron bk"
  "st_ListCrons (bolt_store_ops bk) ord = bolt_ListCrons bk"
  "st_AddDLQ (bolt_store_ops bk) = bolt_AddDLQ bk"
  "st_ListDLQ (bolt_store_ops bk) ord = bolt_ListDLQ bk"
  "st_FindByIdempotencyKey (bolt_store_ops bk) = bolt_FindByIdempotencyKey bk"
  by (simp_all add: bolt_store_ops_def)

section \<open>The contents of the database\<close>

type_synonym content = "bucket \<Rightarrow> string \<Rightarrow> blob option"

abbreviation cput :: "bucket \<Rightarrow> string \<Rightarrow> blob \<Rightarrow> content \<Rightarrow> content" where
  "cput b k v c \<equiv> c(b := (c b)(k \<mapsto> v))"

abbreviation cdel :: "bucket \<Rightarrow> string \<Rightarrow> content \<Rightarrow> content" where
  "cdel b k c \<equiv> c(b := (c b)(k := None))"

definition add_status :: "status \<Rightarrow> int \<Rightarrow> content \<Rightarrow> content" where
  "add_status st i c = (case getStatusBucket st of None \<Rightarrow> c | Some b \<Rightarrow> cput b (key i) (Bytes []) c)"

definition rm_status :: "status \<Rightarrow> int \<Rightarrow> content \<Rightarrow> content" where
  "rm_status st i c = (case getStatusBucket st of None \<Rightarrow> c | Some b \<Rightarrow> cdel b (key i) c)"

text \<open>
  The invariant of the contents: every value decodes and lies under its own key, and the
  status buckets and the idempotency bucket are exact indexes of the jobs bucket.
\<close>

definition jobs_ok :: "content \<Rightarrow> bool" where
  "jobs_ok c \<longleftrightarrow> (\<forall>k v. c jobsBucket k = Some v \<longrightarrow> (\<exists>j. v = JobJSON j \<and> k = key (ID j) \<and> in_int64 (ID j)))"

definition others_ok :: "content \<Rightarrow> bool" where
  "others_ok c \<longleftrightarrow> (\<forall>k v. c dlqBucket k = Some v \<longrightarrow> (\<exists>j. v = JobJSON j \<and> k = key (ID j))) \<and>
     (\<forall>k v. c cronBucket k = Some v \<longrightarrow> (\<exists>x. v = CronJSON x \<and> k = cID x))"

definition status_ok :: "content \<Rightarrow> bool" where
  "status_ok c \<longleftrightarrow> (\<forall>st b k. getStatusBucket st = Some b \<longrightarrow>
     (c b k \<noteq> None \<longleftrightarrow> (\<exists>j. c jobsBucket k = Some (JobJSON j) \<and> Status j = st)))"

definition keys_ok :: "content \<Rightarrow> bool" where
  "keys_ok c \<longleftrightarrow> (\<forall>k v. c idempotencyBucket k = Some v \<longleftrightarrow>
     k \<noteq> [] \<and> (\<exists>j. c jobsBucket (key (ID j)) = Some (JobJSON j) \<and> IdempotencyKey j = k \<and> v = Bytes (Itoa (ID j))))"

definition content_inv :: "content \<Rightarrow> bool" where
  "content_inv c \<longleftrightarrow> jobs_ok c \<and> others_ok c \<and> status_ok c \<and> keys_ok c"

lemmas content_defs = content_inv_def jobs_ok_def others_ok_def status_ok_def keys_ok_def

definition job_at :: "content \<Rightarrow> bucket \<Rightarrow> int \<Rightarrow> job option" where
  "job_at c b i = (case c b (key i) of Some (JobJSON j) \<Rightarrow> Some j | _ \<Rightarrow> None)"

definition cron_at :: "content \<Rightarrow> string \<Rightarrow> cron_job option" where
  "cron_at c k = (case c cronBucket k of Some (CronJSON x) \<Rightarrow> Some x | _ \<Rightarrow> None)"

definition content_abs :: "content \<Rightarrow> astore" where
  "content_abs c = \<lparr>aJobs = job_at c jobsBucket, aDLQ = job_at c dlqBucket, aCrons = cron_at c\<rparr>"

lemma key_eq [simp]: "key i = key i' \<longleftrightarrow> i = i'"
  by (simp add: key_def)

lemma job_at_Some: "job_at c b i = Some j \<longleftrightarrow> c b (key i) = Some (JobJSON j)"
  by (auto simp: job_at_def split: option.splits blob.splits)

lemma cron_at_Some: "cron_at c k = Some x \<longleftrightarrow> c cronBucket k = Some (CronJSON x)"
  by (auto simp: cron_at_def split: option.splits blob.splits)

lemma status_bucket_disjoint [simp]:
  "getStatusBucket st \<noteq> Some jobsBucket" "getStatusBucket st \<noteq> Some cronBucket"
  "getStatusBucket st \<noteq> Some dlqBucket" "getStatusBucket st \<noteq> Some idempotencyBucket"
  by (cases st; simp)+

lemma status_bucket_inj: "getStatusBucket st = Some b \<Longrightarrow> getStatusBucket st' = Some b \<longleftrightarrow> st' = st"
  by (cases st; cases st'; auto)

lemma status_bucket_named: "getStatusBucket st \<noteq> None \<longleftrightarrow> named st"
  by (cases st) (simp_all add: named_def)

lemma status_frames [simp]:
  assumes "b \<in> {jobsBucket, cronBucket, dlqBucket, idempotencyBucket}"
  shows "add_status st i c b = c b" "rm_status st i c b = c b"
  using assms by (auto simp: add_status_def rm_status_def split: option.splits)

lemma status_hit:
  assumes "getStatusBucket st' = Some b"
  shows "add_status st i c b = (if st = st' then (c b)(key i \<mapsto> Bytes []) else c b)"
    and "rm_status st i c b = (if st = st' then (c b)(key i := None) else c b)"
  using assms by (auto simp: add_status_def rm_status_def status_bucket_inj split: option.splits)

lemma content_inv_id: "content_inv c \<Longrightarrow> c jobsBucket (key i) = Some (JobJSON j) \<Longrightarrow> ID j = i"
  by (fastforce simp: content_inv_def jobs_ok_def)

lemma content_inv_job: "content_inv c \<Longrightarrow> c jobsBucket k = Some v \<Longrightarrow> \<exists>j. v = JobJSON j \<and> k = key (ID j)"
  by (fastforce simp: content_inv_def jobs_ok_def)

lemma content_key_unique:
  assumes "content_inv c" "c jobsBucket (key (ID j)) = Some (JobJSON j)"
    "c jobsBucket (key (ID j')) = Some (JobJSON j')"
    "IdempotencyKey j = IdempotencyKey j'" "IdempotencyKey j \<noteq> []"
  shows "ID j = ID j'"
proof -
  have "c idempotencyBucket (IdempotencyKey j) = Some (Bytes (Itoa (ID j)))"
    and "c idempotencyBucket (IdempotencyKey j') = Some (Bytes (Itoa (ID j')))"
    using assms by (auto simp: content_inv_def keys_ok_def)
  then show ?thesis using assms(4) by simp
qed

lemma content_abs_inv:
  assumes "content_inv c"
  shows "aInv (content_abs c)"
proof -
  have id: "ID j = i \<and> in_int64 i" if "job_at c jobsBucket i = Some j" for i j
    using that assms unfolding job_at_Some content_inv_def jobs_ok_def by (metis blob.inject(1) key_eq)
  have "i = i'" if "job_at c jobsBucket i = Some j" "job_at c jobsBucket i' = Some j'"
    "IdempotencyKey j = IdempotencyKey j'" "IdempotencyKey j \<noteq> []" for i i' j j'
    using content_key_unique [OF assms, of j j'] that id [OF that(1)] id [OF that(2)] by (simp add: job_at_Some)
  then show ?thesis unfolding aInv_def content_abs_def using id by simp
qed

lemma content_inv_frames:
  "content_inv c \<Longrightarrow> content_inv (cput dlqBucket (key (ID j)) (JobJSON j) c)"
  "content_inv c \<Longrightarrow> content_inv (cput cronBucket (cID x) (CronJSON x) c)"
  "content_inv c \<Longrightarrow> content_inv (cdel cronBucket k c)"
  by (auto simp: content_defs)

lemma content_abs_frames:
  "content_abs (cput dlqBucket (key (ID j)) (JobJSON j) c) =
     (content_abs c)\<lparr>aDLQ := (aDLQ (content_abs c))(ID j \<mapsto> j)\<rparr>"
  "content_abs (cput cronBucket (cID x) (CronJSON x) c) =
     (content_abs c)\<lparr>aCrons := (aCrons (content_abs c))(cID x \<mapsto> x)\<rparr>"
  "content_abs (cdel cronBucket k c) = (content_abs c)\<lparr>aCrons := (aCrons (content_abs c))(k := None)\<rparr>"
  by (auto simp: content_abs_def job_at_def cron_at_def fun_eq_iff)

definition content_add :: "job \<Rightarrow> content \<Rightarrow> content" where
  "content_add j c =
     add_status (Status j) (ID j)
       ((if IdempotencyKey j \<noteq> [] then cput idempotencyBucket (IdempotencyKey j) (Bytes (Itoa (ID j))) else id)
          (cput jobsBucket (key (ID j)) (JobJSON j) c))"

definition content_replace :: "job \<Rightarrow> job \<Rightarrow> content \<Rightarrow> content" where
  "content_replace old j c =
     add_status (Status j) (ID j)
       (cput jobsBucket (key (ID j)) (JobJSON j) (rm_status (Status old) (ID j) c))"

definition content_delete :: "job \<Rightarrow> content \<Rightarrow> content" where
  "content_delete j c =
     cdel jobsBucket (key (ID j))
       ((if IdempotencyKey j \<noteq> [] then cdel idempotencyBucket (IdempotencyKey j) else id)
          (rm_status (Status j) (ID j) c))"

lemma content_inv_add:
  assumes c: "content_inv c" and f: "aFresh j (content_abs c)"
  shows "content_inv (content_add j c)"
proof -
  have n: "c jobsBucket (key (ID j)) = None"
    using f c by (auto simp: aFresh_def content_abs_def job_at_def split: option.splits blob.splits
        dest: content_inv_job)
  have r: "in_int64 (ID j)" using f by (simp add: aFresh_def)
  have k: "IdempotencyKey j \<noteq> [] \<Longrightarrow> IdempotencyKey j' \<noteq> IdempotencyKey j"
    if "c jobsBucket (key i) = Some (JobJSON j')" for i j'
    using f that by (auto simp: aFresh_def content_abs_def job_at_Some)
  have "jobs_ok (content_add j c)" "others_ok (content_add j c)"
    using c r by (auto simp: content_inv_def jobs_ok_def others_ok_def content_add_def)
  moreover have "status_ok (content_add j c)"
    using c n by (auto simp: content_inv_def status_ok_def content_add_def status_hit)
  moreover have "keys_ok (content_add j c)"
    using c n k by (auto simp: content_inv_def keys_ok_def content_add_def) (metis option.distinct(1))+
  ultimately show ?thesis by (simp add: content_inv_def)
qed

lemma keys_replace:
  assumes o: "c jobsBucket (key (ID j)) = Some (JobJSON old)"
    and k: "IdempotencyKey old = IdempotencyKey j" and id: "ID old = ID j"
  shows "(\<exists>x. content_replace old j c jobsBucket (key (ID x)) = Some (JobJSON x) \<and> IdempotencyKey x = k \<and> v = Bytes (Itoa (ID x)))
    \<longleftrightarrow> (\<exists>x. c jobsBucket (key (ID x)) = Some (JobJSON x) \<and> IdempotencyKey x = k \<and> v = Bytes (Itoa (ID x)))"
    (is "?has (content_replace old j c) k v \<longleftrightarrow> ?has c k v")
proof
  assume "?has (content_replace old j c) k v"
  then obtain x where x: "content_replace old j c jobsBucket (key (ID x)) = Some (JobJSON x)"
    "IdempotencyKey x = k" "v = Bytes (Itoa (ID x))" by blast
  show "?has c k v"
  proof (cases "ID x = ID j")
    case True
    then have "x = j" using x(1) by (simp add: content_replace_def)
    then show ?thesis using x o k id by (intro exI [of _ old]) simp
  next
    case False
    then show ?thesis using x by (intro exI [of _ x]) (simp add: content_replace_def)
  qed
next
  assume "?has c k v"
  then obtain x where x: "c jobsBucket (key (ID x)) = Some (JobJSON x)"
    "IdempotencyKey x = k" "v = Bytes (Itoa (ID x))" by blast
  show "?has (content_replace old j c) k v"
  proof (cases "ID x = ID j")
    case True
    then have "x = old" using x(1) o by simp
    then show ?thesis using x k id by (intro exI [of _ j]) (simp add: content_replace_def)
  next
    case False
    then show ?thesis using x by (intro exI [of _ x]) (simp add: content_replace_def)
  qed
qed

lemma content_inv_replace:
  assumes c: "content_inv c" and o: "c jobsBucket (key (ID j)) = Some (JobJSON old)"
    and k: "IdempotencyKey old = IdempotencyKey j"
  shows "content_inv (content_replace old j c)"
proof -
  have id: "ID old = ID j" using content_inv_id [OF c o] .
  have r: "in_int64 (ID j)" using c o unfolding content_inv_def jobs_ok_def by (metis key_eq)
  have "jobs_ok (content_replace old j c)" "others_ok (content_replace old j c)"
    using c r by (auto simp: content_inv_def jobs_ok_def others_ok_def content_replace_def)
  moreover have "status_ok (content_replace old j c)"
    using c o by (auto simp: content_inv_def status_ok_def content_replace_def status_hit)
  moreover have "keys_ok (content_replace old j c)"
    using c keys_replace [of c j old, OF o k id]
    by (simp add: content_inv_def keys_ok_def content_replace_def)
  ultimately show ?thesis by (simp add: content_inv_def)
qed

lemma keys_delete:
  assumes c: "content_inv c" and o: "c jobsBucket (key (ID j)) = Some (JobJSON j)"
  shows "content_delete j c idempotencyBucket k = Some v \<longleftrightarrow>
    k \<noteq> [] \<and> (\<exists>x. content_delete j c jobsBucket (key (ID x)) = Some (JobJSON x) \<and>
      IdempotencyKey x = k \<and> v = Bytes (Itoa (ID x)))"
proof -
  have jb: "content_delete j c jobsBucket (key (ID x)) = Some (JobJSON x) \<longleftrightarrow>
      ID x \<noteq> ID j \<and> c jobsBucket (key (ID x)) = Some (JobJSON x)" for x
    by (simp add: content_delete_def)
  have ix: "content_delete j c idempotencyBucket k =
      (if k \<noteq> [] \<and> IdempotencyKey j = k then None else c idempotencyBucket k)"
    using c by (auto simp: content_delete_def content_inv_def keys_ok_def)
  have ex: "c idempotencyBucket k = Some v \<longleftrightarrow> k \<noteq> [] \<and> (\<exists>x. c jobsBucket (key (ID x)) = Some (JobJSON x) \<and>
      IdempotencyKey x = k \<and> v = Bytes (Itoa (ID x)))"
    using c by (simp add: content_inv_def keys_ok_def)
  show ?thesis
  proof (cases "k \<noteq> [] \<and> IdempotencyKey j = k")
    case True
    then show ?thesis unfolding ix jb using content_key_unique [OF c o] by force
  next
    case False
    have "x = j" if "c jobsBucket (key (ID x)) = Some (JobJSON x)" "ID x = ID j" for x
      using that o by simp
    then show ?thesis using False unfolding ix jb if_not_P [OF False] ex by blast
  qed
qed

lemma content_inv_delete:
  assumes c: "content_inv c" and o: "c jobsBucket (key (ID j)) = Some (JobJSON j)"
  shows "content_inv (content_delete j c)"
proof -
  have "jobs_ok (content_delete j c)" "others_ok (content_delete j c)"
    using c by (auto simp: content_inv_def jobs_ok_def others_ok_def content_delete_def)
  moreover have "status_ok (content_delete j c)"
    using c o by (auto simp: content_inv_def status_ok_def content_delete_def status_hit)
  moreover have "keys_ok (content_delete j c)"
    using keys_delete [OF c o] c
    by (simp add: content_inv_def keys_ok_def content_delete_def)
  ultimately show ?thesis by (simp add: content_inv_def)
qed

lemma content_abs_add: "content_abs (content_add j c) = aPut j (content_abs c)"
  by (auto simp: content_abs_def content_add_def aPut_def job_at_def cron_at_def fun_eq_iff)

lemma content_abs_replace: "content_abs (content_replace old j c) = aPut j (content_abs c)"
  by (auto simp: content_abs_def content_replace_def aPut_def job_at_def cron_at_def fun_eq_iff)

lemma content_abs_delete: "content_abs (content_delete j c) = aDelete (ID j) (content_abs c)"
  by (auto simp: content_abs_def content_delete_def aDelete_def job_at_def cron_at_def fun_eq_iff)

section \<open>The laws of the engine and the refinement\<close>

definition bolt_inv :: "'db bolt_ops \<Rightarrow> 'db \<Rightarrow> bool" where
  "bolt_inv bk db \<longleftrightarrow> bk_open bk db \<and> content_inv (bk_get bk db)"

definition bolt_abs :: "'db bolt_ops \<Rightarrow> 'db \<Rightarrow> astore" where
  "bolt_abs bk db = content_abs (bk_get bk db)"

lemma for_each_decode:
  assumes "\<And>kv. kv \<in> set kvs \<Longrightarrow> \<exists>x. um (snd kv) = Inr x"
  shows "for_each (decode_each um) kvs = (map (\<lambda>kv. projr (um (snd kv))) kvs, None)"
  using assms by (induction kvs) (force simp: decode_each_def)+

lemma map_of_values: "distinct (map fst kvs) \<Longrightarrow> snd ` set kvs = ran (map_of kvs)"
  by (simp add: wf_map_def wf_map_ran)

lemma for_each_jobs:
  assumes "\<And>kv. kv \<in> set kvs \<Longrightarrow> f kv = Inr [g kv]"
  shows "for_each f kvs = (map g kvs, None)"
  using assms by (induction kvs) auto

text \<open>
  What bbolt documents: a put that returns nil has written the value, a delete in a
  read-write transaction never fails, neither closes the database, and \<open>ForEach\<close> visits
  every key of the bucket once. Nothing is assumed of when a put or a commit fails.
\<close>

locale bolt_db =
  fixes bk :: "'db bolt_ops"
  assumes put_get: "bk_put bk b k v db = Inr db' \<Longrightarrow> bk_get bk db' = cput b k v (bk_get bk db)"
    and put_open: "bk_put bk b k v db = Inr db' \<Longrightarrow> bk_open bk db' = bk_open bk db"
    and delete_ok: "\<exists>db'. bk_delete bk b k db = Inr db'"
    and delete_get: "bk_delete bk b k db = Inr db' \<Longrightarrow> bk_get bk db' = cdel b k (bk_get bk db)"
    and delete_open: "bk_delete bk b k db = Inr db' \<Longrightarrow> bk_open bk db' = bk_open bk db"
    and foreach_get: "map_of (bk_foreach bk db b) = bk_get bk db b"
    and foreach_distinct: "distinct (map fst (bk_foreach bk db b))"
begin

lemma Tx_err: "bolt_Tx bk fn db = (Some e, db') \<Longrightarrow> db' = db"
  by (auto simp: bolt_Tx_def split: if_splits sum.splits option.splits)

lemma Tx_ok: "bolt_Tx bk fn db = (None, db') \<Longrightarrow> fn db = Inr db'"
  by (auto simp: bolt_Tx_def split: if_splits sum.splits option.splits)

lemma addStatus_get:
  "addToStatusBucket bk st i tx = Inr tx' \<Longrightarrow>
     bk_get bk tx' = add_status st i (bk_get bk tx) \<and> bk_open bk tx' = bk_open bk tx"
  by (auto simp: addToStatusBucket_def add_status_def put_get put_open split: option.splits)

lemma rmStatus_get:
  "removeFromStatusBucket bk st i tx = Inr tx' \<Longrightarrow>
     bk_get bk tx' = rm_status st i (bk_get bk tx) \<and> bk_open bk tx' = bk_open bk tx"
  by (auto simp: removeFromStatusBucket_def rm_status_def delete_get delete_open split: option.splits)

lemma rmStatus_ok: "\<exists>tx'. removeFromStatusBucket bk st i tx = Inr tx'"
  using delete_ok by (auto simp: removeFromStatusBucket_def split: option.splits)

lemma putJob_get:
  "putJob bk j tx = Inr tx' \<Longrightarrow>
     bk_get bk tx' = cput jobsBucket (key (ID j)) (JobJSON j) (bk_get bk tx) \<and> bk_open bk tx' = bk_open bk tx"
  by (auto simp: putJob_def marshal_job_def put_get put_open split: sum.splits if_splits)

lemma Add_content:
  assumes "bolt_Add bk j db = (None, db')"
  shows "bk_get bk db' = content_add j (bk_get bk db) \<and> bk_open bk db' = bk_open bk db"
proof -
  obtain tx1 tx2 where 1: "putJob bk j db = Inr tx1" and 3: "addToStatusBucket bk (Status j) (ID j) tx2 = Inr db'"
    and 2: "(if IdempotencyKey j \<noteq> []
        then case bk_put bk idempotencyBucket (IdempotencyKey j) (Bytes (Itoa (ID j))) tx1 of
               Inl e \<Rightarrow> Inl (EWrap ''write idempotency key'' e)
             | Inr tx2 \<Rightarrow> Inr tx2
        else Inr tx1) = Inr tx2"
    using Tx_ok [OF assms [unfolded bolt_Add_def]] by (auto simp: bind_err_Inr)
  have "bk_get bk tx2 = (if IdempotencyKey j \<noteq> [] then cput idempotencyBucket (IdempotencyKey j) (Bytes (Itoa (ID j))) else id)
      (bk_get bk tx1) \<and> bk_open bk tx2 = bk_open bk tx1"
    using 2 by (auto simp: put_get put_open split: if_splits sum.splits)
  then show ?thesis
    using putJob_get [OF 1] addStatus_get [OF 3] by (simp add: content_add_def)
qed

lemma replace_content:
  assumes "bind_err (removeFromStatusBucket bk (Status old) (ID j) tx) (\<lambda>tx1.
      bind_err (putJob bk j tx1) (\<lambda>tx2. addToStatusBucket bk (Status j) (ID j) tx2)) = Inr tx'"
  shows "bk_get bk tx' = content_replace old j (bk_get bk tx) \<and> bk_open bk tx' = bk_open bk tx"
  using assms
  by (auto simp: bind_err_Inr content_replace_def dest!: rmStatus_get putJob_get addStatus_get)

lemma Update_content:
  assumes "bolt_inv bk db" "bolt_Update bk j db = (None, db')"
  shows "\<exists>old. bk_get bk db jobsBucket (key (ID j)) = Some (JobJSON old) \<and>
    IsValidTransition (Status old) (Status j) \<and>
    bk_get bk db' = content_replace old j (bk_get bk db) \<and> bk_open bk db' = bk_open bk db"
  using Tx_ok [OF assms(2) [unfolded bolt_Update_def]]
  by (auto split: option.splits sum.splits if_splits elim!: unmarshal_job.elims dest!: replace_content)

lemma Update_keeps_inv:
  assumes "bolt_inv bk db" "aSameKey j (bolt_abs bk db)" "bolt_Update bk j db = (None, db')"
  shows "bolt_inv bk db'"
proof -
  obtain old where o: "bk_get bk db jobsBucket (key (ID j)) = Some (JobJSON old)"
      "bk_get bk db' = content_replace old j (bk_get bk db)" "bk_open bk db' = bk_open bk db"
    using Update_content [OF assms(1,3)] by blast
  have "IdempotencyKey old = IdempotencyKey j"
    using assms(2) o(1) by (simp add: aSameKey_def bolt_abs_def content_abs_def job_at_Some)
  then show ?thesis
    using assms(1) o content_inv_replace [of "bk_get bk db" j old] by (simp add: bolt_inv_def)
qed

lemma Cancel_content:
  assumes "bolt_inv bk db" "bolt_Cancel bk i db = (None, db')"
  shows "\<exists>j. bk_get bk db jobsBucket (key i) = Some (JobJSON j) \<and> ID j = i \<and> \<not> terminal (Status j) \<and>
    bk_get bk db' = content_replace j (j\<lparr>Status := Cancelled\<rparr>) (bk_get bk db) \<and> bk_open bk db' = bk_open bk db"
proof -
  obtain j where j: "bk_get bk db jobsBucket (key i) = Some (JobJSON j)" "\<not> terminal (Status j)"
    "bind_err (removeFromStatusBucket bk (Status j) i db) (\<lambda>tx1.
       bind_err (putJob bk (j\<lparr>Status := Cancelled\<rparr>) tx1) (\<lambda>tx2. addToStatusBucket bk Cancelled i tx2)) = Inr db'"
    using Tx_ok [OF assms(2) [unfolded bolt_Cancel_def]]
    by (auto simp: terminal_def split: option.splits sum.splits if_splits elim!: unmarshal_job.elims)
  have "ID j = i" using content_inv_id [of "bk_get bk db" i j] j(1) assms(1) by (simp add: bolt_inv_def)
  then show ?thesis using j replace_content [of j "j\<lparr>Status := Cancelled\<rparr>" db db'] by auto
qed

lemma Delete_content:
  assumes "bolt_inv bk db" "bolt_Delete bk i db = ((b, None), db')"
  shows "if b then \<exists>j. bk_get bk db jobsBucket (key i) = Some (JobJSON j) \<and> ID j = i \<and>
      bk_get bk db' = content_delete j (bk_get bk db) \<and> bk_open bk db' = bk_open bk db
    else bk_get bk db jobsBucket (key i) = None \<and> db' = db"
proof (cases "bk_get bk db jobsBucket (key i)")
  case None
  then show ?thesis using assms
    by (auto simp: bolt_Delete_def delete_tx_def bolt_Tx_def split: option.splits if_splits)
next
  case (Some v)
  then obtain j where v: "v = JobJSON j" "ID j = i"
    using content_inv_job [of "bk_get bk db" "key i" v] assms(1) by (auto simp: bolt_inv_def)
  obtain tx1 where 1: "removeFromStatusBucket bk (Status j) i db = Inr tx1" using rmStatus_ok by blast
  obtain tx2 where 2: "bk_delete bk idempotencyBucket (IdempotencyKey j) tx1 = Inr tx2" using delete_ok by blast
  define tx3 where "tx3 = (if IdempotencyKey j \<noteq> [] then tx2 else tx1)"
  have "delete_tx bk i db = bk_delete bk jobsBucket (key i) tx3"
    using Some v 1 2 by (simp add: delete_tx_def ignore_err_def tx3_def)
  moreover have "b" "bolt_Tx bk (delete_tx bk i) db = (None, db')"
    using assms Some by (auto simp: bolt_Delete_def bolt_inv_def split: prod.splits)
  ultimately have "b" "bk_delete bk jobsBucket (key i) tx3 = Inr db'" using Tx_ok by force+
  then show ?thesis
    using v Some rmStatus_get [OF 1] delete_get [OF 2] delete_open [OF 2]
    by (auto simp: tx3_def content_delete_def delete_get delete_open)
qed

lemma foreach_values: "snd ` set (bk_foreach bk db b) = ran (bk_get bk db b)"
  using map_of_values [OF foreach_distinct] by (simp add: foreach_get)

lemma foreach_mem: "kv \<in> set (bk_foreach bk db b) \<longleftrightarrow> bk_get bk db b (fst kv) = Some (snd kv)"
  using map_of_eq_Some_iff [OF foreach_distinct] by (simp add: foreach_get [symmetric])

lemma decode_bucket:
  assumes "\<And>k v. bk_get bk db b k = Some v \<Longrightarrow> \<exists>x. um v = Inr x"
  shows "\<exists>xs. for_each (decode_each um) (bk_foreach bk db b) = (xs, None) \<and>
    set xs = {x. \<exists>k v. bk_get bk db b k = Some v \<and> um v = Inr x}"
proof (intro exI conjI)
  show "for_each (decode_each um) (bk_foreach bk db b) =
      (map (\<lambda>kv. projr (um (snd kv))) (bk_foreach bk db b), None)"
    using assms by (intro for_each_decode) (auto simp: foreach_mem)
  show "set (map (\<lambda>kv. projr (um (snd kv))) (bk_foreach bk db b)) =
      {x. \<exists>k v. bk_get bk db b k = Some v \<and> um v = Inr x}"
  proof (intro set_eqI iffI)
    fix x assume "x \<in> set (map (\<lambda>kv. projr (um (snd kv))) (bk_foreach bk db b))"
    then obtain kv where "bk_get bk db b (fst kv) = Some (snd kv)" "x = projr (um (snd kv))"
      by (auto simp: foreach_mem)
    then show "x \<in> {x. \<exists>k v. bk_get bk db b k = Some v \<and> um v = Inr x}" using assms by fastforce
  next
    fix x assume "x \<in> {x. \<exists>k v. bk_get bk db b k = Some v \<and> um v = Inr x}"
    then obtain k v where "(k, v) \<in> set (bk_foreach bk db b)" "um v = Inr x" by (auto simp: foreach_mem)
    then show "x \<in> set (map (\<lambda>kv. projr (um (snd kv))) (bk_foreach bk db b))"
      by (auto intro!: rev_image_eqI)
  qed
qed

lemma jobs_decoded:
  assumes "bolt_inv bk db" "b \<in> {jobsBucket, dlqBucket}"
  shows "\<exists>js. for_each (decode_each unmarshal_job) (bk_foreach bk db b) = (js, None) \<and>
    set js = ran (job_at (bk_get bk db) b)"
proof -
  have v: "\<exists>j. v = JobJSON j \<and> k = key (ID j)" if "bk_get bk db b k = Some v" for k v
    using assms that by (auto simp: bolt_inv_def content_inv_def jobs_ok_def others_ok_def)
  then have "{x. \<exists>k v. bk_get bk db b k = Some v \<and> unmarshal_job v = Inr x} = ran (job_at (bk_get bk db) b)"
    by (fastforce simp: ran_def job_at_Some)
  moreover have "\<exists>x. unmarshal_job v = Inr x" if "bk_get bk db b k = Some v" for k v
    using v [OF that] by auto
  ultimately show ?thesis using decode_bucket [of db b unmarshal_job] by simp
qed

lemma crons_decoded:
  assumes "bolt_inv bk db"
  shows "\<exists>cs. for_each (decode_each unmarshal_cron) (bk_foreach bk db cronBucket) = (cs, None) \<and>
    set cs = ran (cron_at (bk_get bk db))"
proof -
  have v: "\<exists>x. v = CronJSON x \<and> k = cID x" if "bk_get bk db cronBucket k = Some v" for k v
    using assms that by (auto simp: bolt_inv_def content_inv_def others_ok_def)
  then have "{x. \<exists>k v. bk_get bk db cronBucket k = Some v \<and> unmarshal_cron v = Inr x} = ran (cron_at (bk_get bk db))"
    by (fastforce simp: ran_def cron_at_Some)
  moreover have "\<exists>x. unmarshal_cron v = Inr x" if "bk_get bk db cronBucket k = Some v" for k v
    using v [OF that] by auto
  ultimately show ?thesis using decode_bucket [of db cronBucket unmarshal_cron] by simp
qed

lemma Get_content: "bolt_inv bk db \<Longrightarrow> bolt_Get bk db = job_at (bk_get bk db) jobsBucket"
  by (auto simp: bolt_Get_def bolt_View_def bolt_inv_def job_at_def fun_eq_iff
      split: option.splits sum.splits blob.splits)

lemma Find_content:
  assumes "bolt_inv bk db"
  shows "bolt_FindByIdempotencyKey bk k db = Some j \<longleftrightarrow>
    k \<noteq> [] \<and> job_at (bk_get bk db) jobsBucket (ID j) = Some j \<and> IdempotencyKey j = k"
proof -
  let ?c = "bk_get bk db"
  have o: "bk_open bk db" and c: "content_inv ?c" using assms by (simp_all add: bolt_inv_def)
  have ex: "?c idempotencyBucket k = Some v \<longleftrightarrow> k \<noteq> [] \<and> (\<exists>x. ?c jobsBucket (key (ID x)) = Some (JobJSON x) \<and>
      IdempotencyKey x = k \<and> v = Bytes (Itoa (ID x)))" for v
    using c by (simp add: content_inv_def keys_ok_def)
  show ?thesis
  proof (cases "?c idempotencyBucket k")
    case None
    then show ?thesis using ex [of "Bytes (Itoa (ID j))"]
      by (auto simp: bolt_FindByIdempotencyKey_def bolt_View_def job_at_Some)
  next
    case (Some v)
    then obtain x where x: "k \<noteq> []" "?c jobsBucket (key (ID x)) = Some (JobJSON x)"
        "IdempotencyKey x = k" "v = Bytes (Itoa (ID x))"
      using ex by blast
    have "in_int64 (ID x)" using c x(2) unfolding content_inv_def jobs_ok_def by (metis key_eq)
    then have f: "bolt_FindByIdempotencyKey bk k db = Some x"
      using x o Some by (simp add: bolt_FindByIdempotencyKey_def bolt_View_def)
    have "j = x" if "?c jobsBucket (key (ID j)) = Some (JobJSON j)" "IdempotencyKey j = k"
    proof -
      have "ID x = ID j" using content_key_unique [OF c x(2) that(1)] x(1,3) that(2) by simp
      then show ?thesis using x(2) that(1) by (metis blob.inject(1) option.inject)
    qed
    then show ?thesis unfolding f job_at_Some using x(1,2,3) by blast
  qed
qed

lemma ListByStatus_content:
  assumes "bolt_inv bk db" "named st"
  shows "\<exists>js. bolt_ListByStatus bk st db = Inr js \<and> distinct (map ID js) \<and>
    set js = {j \<in> ran (job_at (bk_get bk db) jobsBucket). Status j = st}"
proof -
  let ?c = "bk_get bk db"
  have o: "bk_open bk db" and c: "content_inv ?c" using assms by (simp_all add: bolt_inv_def)
  obtain b where b: "getStatusBucket st = Some b" using assms(2) by (auto simp: status_bucket_named [symmetric])
  define g where "g = (\<lambda>kv :: string \<times> blob. projr (unmarshal_job (the (?c jobsBucket (fst kv)))))"
  have g: "?c jobsBucket (fst kv) = Some (JobJSON (g kv)) \<and> Status (g kv) = st \<and> fst kv = key (ID (g kv))"
    if "kv \<in> set (bk_foreach bk db b)" for kv
  proof -
    have "?c b (fst kv) \<noteq> None" using that by (simp add: foreach_mem)
    then obtain j where "?c jobsBucket (fst kv) = Some (JobJSON j)" "Status j = st"
      using c b by (auto simp: content_inv_def status_ok_def)
    then show ?thesis using content_inv_job [OF c] by (auto simp: g_def)
  qed
  let ?js = "map g (bk_foreach bk db b)"
  have "bolt_ListByStatus bk st db = Inr ?js"
  proof -
    have "status_entry bk db kv = Inr [g kv]" if "kv \<in> set (bk_foreach bk db b)" for kv
    proof -
      have "?c jobsBucket (fst kv) = Some (JobJSON (g kv))" using g [OF that] by blast
      then show ?thesis by (simp add: status_entry_def)
    qed
    then show ?thesis using b o for_each_jobs [of "bk_foreach bk db b" "status_entry bk db" g]
      by (simp add: bolt_ListByStatus_def view_each_def bolt_View_def)
  qed
  moreover have "map key (map ID ?js) = map fst (bk_foreach bk db b)" using g by simp
  then have "distinct (map ID ?js)" using foreach_distinct by (metis distinct_map)
  moreover have "set ?js = {j \<in> ran (job_at ?c jobsBucket). Status j = st}" (is "_ = ?R")
  proof
    have "g kv \<in> ?R" if "kv \<in> set (bk_foreach bk db b)" for kv
    proof -
      have "?c jobsBucket (key (ID (g kv))) = Some (JobJSON (g kv))" "Status (g kv) = st"
        using g [OF that] by auto
      then show ?thesis by (auto simp: ran_def job_at_Some intro: exI [of _ "ID (g kv)"])
    qed
    then show "set ?js \<subseteq> ?R" by auto
    show "?R \<subseteq> set ?js"
    proof
      fix j assume "j \<in> ?R"
      then obtain i where i: "?c jobsBucket (key i) = Some (JobJSON j)" "Status j = st"
        by (auto simp: ran_def job_at_Some)
      then obtain v where "?c b (key i) = Some v" using c b by (fastforce simp: content_inv_def status_ok_def)
      then have "(key i, v) \<in> set (bk_foreach bk db b)" by (simp add: foreach_mem)
      then show "j \<in> set ?js" using i by (force simp: g_def)
    qed
  qed
  ultimately show ?thesis by blast
qed

lemma AddDLQ_content:
  assumes "bolt_inv bk db" "bolt_AddDLQ bk j db = (None, db')"
  shows "bolt_inv bk db' \<and> bolt_abs bk db' = (bolt_abs bk db)\<lparr>aDLQ := (aDLQ (bolt_abs bk db))(ID j \<mapsto> j)\<rparr>"
proof -
  have "bk_get bk db' = cput dlqBucket (key (ID j)) (JobJSON j) (bk_get bk db) \<and> bk_open bk db' = bk_open bk db"
    using Tx_ok [OF assms(2) [unfolded bolt_AddDLQ_def]]
    by (auto simp: bind_err_Inr marshal_job_def put_get put_open split: if_splits)
  then show ?thesis using assms(1)
    by (simp add: bolt_inv_def content_inv_frames bolt_abs_def content_abs_frames)
qed

lemma List_content:
  assumes "bolt_inv bk db"
  shows "set (bolt_List bk db) = ran (aJobs (bolt_abs bk db))"
proof -
  obtain xs where "for_each (decode_each unmarshal_job) (bk_foreach bk db jobsBucket) = (xs, None)"
      "set xs = ran (job_at (bk_get bk db) jobsBucket)"
    using jobs_decoded [OF assms, of jobsBucket] by blast
  then show ?thesis using assms
    by (simp add: bolt_List_def bolt_abs_def content_abs_def bolt_inv_def)
qed

lemma ListDLQ_content:
  assumes "bolt_inv bk db" "bolt_ListDLQ bk db = Inr js"
  shows "set js = ran (aDLQ (bolt_abs bk db))"
proof -
  obtain xs where "for_each (decode_each unmarshal_job) (bk_foreach bk db dlqBucket) = (xs, None)"
      "set xs = ran (job_at (bk_get bk db) dlqBucket)"
    using jobs_decoded [OF assms(1), of dlqBucket] by blast
  then show ?thesis using assms
    by (simp add: bolt_ListDLQ_def view_each_def bolt_View_def bolt_abs_def content_abs_def bolt_inv_def)
qed

lemma ListCrons_content:
  assumes "bolt_inv bk db" "bolt_ListCrons bk db = Inr cs"
  shows "set cs = ran (aCrons (bolt_abs bk db))"
proof -
  obtain xs where "for_each (decode_each unmarshal_cron) (bk_foreach bk db cronBucket) = (xs, None)"
      "set xs = ran (cron_at (bk_get bk db))"
    using crons_decoded [OF assms(1)] by blast
  then show ?thesis using assms
    by (simp add: bolt_ListCrons_def view_each_def bolt_View_def bolt_abs_def content_abs_def bolt_inv_def)
qed

lemma AddCron_content:
  assumes "bolt_inv bk db" "bolt_AddCron bk c db = (None, db')"
  shows "bolt_inv bk db' \<and> bolt_abs bk db' = (bolt_abs bk db)\<lparr>aCrons := (aCrons (bolt_abs bk db))(cID c \<mapsto> c)\<rparr>"
proof -
  have "bk_get bk db' = cput cronBucket (cID c) (CronJSON c) (bk_get bk db) \<and> bk_open bk db' = bk_open bk db"
    using Tx_ok [OF assms(2) [unfolded bolt_AddCron_def]]
    by (auto simp: bind_err_Inr marshal_cron_def put_get put_open split: if_splits)
  then show ?thesis using assms(1)
    by (simp add: bolt_inv_def content_inv_frames bolt_abs_def content_abs_frames)
qed

lemma DeleteCron_content:
  assumes "bolt_inv bk db" "bolt_DeleteCron bk k db = ((b, None), db')"
  shows "bolt_inv bk db' \<and> bolt_abs bk db' = (bolt_abs bk db)\<lparr>aCrons := (aCrons (bolt_abs bk db))(k := None)\<rparr> \<and>
    b = (aCrons (bolt_abs bk db) k \<noteq> None)"
proof -
  have b: "b = (bk_get bk db cronBucket k \<noteq> None)"
    and t: "bolt_Tx bk (\<lambda>tx. if bk_get bk tx cronBucket k = None then Inr tx else bk_delete bk cronBucket k tx) db = (None, db')"
    using assms by (auto simp: bolt_DeleteCron_def bolt_inv_def split: prod.splits)
  have g: "bk_get bk db' = cdel cronBucket k (bk_get bk db) \<and> bk_open bk db' = bk_open bk db"
    using Tx_ok [OF t] by (auto simp: delete_get delete_open fun_upd_idem split: if_splits)
  have "\<exists>x. v = CronJSON x" if "bk_get bk db cronBucket k = Some v" for v
    using assms(1) that unfolding bolt_inv_def content_inv_def others_ok_def by blast
  then have "b = (aCrons (bolt_abs bk db) k \<noteq> None)"
    unfolding b by (auto simp: bolt_abs_def content_abs_def cron_at_def split: option.splits blob.splits)
  then show ?thesis using assms(1) g
    by (simp add: bolt_inv_def content_inv_frames bolt_abs_def content_abs_frames)
qed

end

sublocale bolt_db \<subseteq> bs: job_store "bolt_store_ops bk" "bolt_inv bk" "bolt_abs bk"
proof (unfold_locales, simp_all only: bolt_store_ops_simps)
  fix s s' :: 'db and j e i b k ord st js c cs
  assume inv: "bolt_inv bk s"
  then have cinv: "content_inv (bk_get bk s)" and op: "bk_open bk s" by (simp_all add: bolt_inv_def)
  show "aInv (bolt_abs bk s)" using cinv by (simp add: bolt_abs_def content_abs_inv)
  show "bolt_Get bk s = aJobs (bolt_abs bk s)" using inv by (simp add: Get_content bolt_abs_def content_abs_def)
  show "set (bolt_List bk s) = ran (aJobs (bolt_abs bk s))"
    by (rule List_content [OF inv])
  show "distinct (map ID js) \<and> set js = {j \<in> ran (aJobs (bolt_abs bk s)). Status j = st}"
    if "named st" "bolt_ListByStatus bk st s = Inr js"
    using ListByStatus_content [OF inv that(1)] that(2) by (auto simp: bolt_abs_def content_abs_def)
  show "bolt_Add bk j s = (Some e, s') \<Longrightarrow> s' = s" unfolding bolt_Add_def by (rule Tx_err)
  show "bolt_inv bk s' \<and> bolt_abs bk s' = aPut j (bolt_abs bk s)"
    if "aFresh j (bolt_abs bk s)" "bolt_Add bk j s = (None, s')"
    using Add_content [OF that(2)] content_inv_add [OF cinv] that(1) op
    by (simp add: bolt_inv_def bolt_abs_def content_abs_add)
  show "bolt_Update bk j s = (Some e, s') \<Longrightarrow> s' = s" unfolding bolt_Update_def by (rule Tx_err)
  show "aUpdate j (bolt_abs bk s) = Some (bolt_abs bk s')" if "bolt_Update bk j s = (None, s')"
    using Update_content [OF inv that]
    by (auto simp: aUpdate_def bolt_abs_def content_abs_replace job_at_Some content_abs_def [of "bk_get bk s"] split: option.split)
  show "bolt_inv bk s'" if "aSameKey j (bolt_abs bk s)" "bolt_Update bk j s = (None, s')"
    by (rule Update_keeps_inv [OF inv that])
  show "bolt_Cancel bk i s = (Some e, s') \<Longrightarrow> s' = s" unfolding bolt_Cancel_def by (rule Tx_err)
  show "bolt_inv bk s' \<and> aCancel i (bolt_abs bk s) = Some (bolt_abs bk s')" if c: "bolt_Cancel bk i s = (None, s')"
  proof -
    obtain j where j: "bk_get bk s jobsBucket (key i) = Some (JobJSON j)" "ID j = i" "\<not> terminal (Status j)"
      "bk_get bk s' = content_replace j (j\<lparr>Status := Cancelled\<rparr>) (bk_get bk s)" "bk_open bk s' = bk_open bk s"
      using Cancel_content [OF inv c] by blast
    have "content_inv (bk_get bk s')" unfolding j(4) using j(1,2) by (intro content_inv_replace [OF cinv]) auto
    moreover have "aJobs (bolt_abs bk s) i = Some j" using j(1) by (simp add: bolt_abs_def content_abs_def job_at_Some)
    ultimately show ?thesis using j op by (simp add: bolt_inv_def aCancel_def bolt_abs_def content_abs_replace)
  qed
  show "bolt_Delete bk i s = ((b, Some e), s') \<Longrightarrow> s' = s"
    by (auto simp: bolt_Delete_def dest: Tx_err split: prod.splits)
  show "bolt_inv bk s' \<and> bolt_abs bk s' = aDelete i (bolt_abs bk s) \<and> b = (aJobs (bolt_abs bk s) i \<noteq> None)"
    if d: "bolt_Delete bk i s = ((b, None), s')"
  proof (cases b)
    case True
    then obtain j where j: "bk_get bk s jobsBucket (key i) = Some (JobJSON j)" "ID j = i"
      "bk_get bk s' = content_delete j (bk_get bk s)" "bk_open bk s' = bk_open bk s"
      using Delete_content [OF inv d] by auto
    have "content_inv (bk_get bk s')" unfolding j(3) using j(1,2) by (intro content_inv_delete [OF cinv]) auto
    moreover have "aJobs (bolt_abs bk s) i = Some j" using j(1) by (simp add: bolt_abs_def content_abs_def job_at_Some)
    ultimately show ?thesis using j op True by (simp add: bolt_inv_def bolt_abs_def content_abs_delete)
  next
    case False
    then have "bk_get bk s jobsBucket (key i) = None" "s' = s" using Delete_content [OF inv d] by auto
    then show ?thesis using inv False
      by (auto simp: bolt_abs_def content_abs_def aDelete_def job_at_def fun_upd_idem)
  qed
  show "bolt_AddDLQ bk j s = (Some e, s') \<Longrightarrow> s' = s" unfolding bolt_AddDLQ_def by (rule Tx_err)
  show "bolt_inv bk s' \<and> bolt_abs bk s' = (bolt_abs bk s)\<lparr>aDLQ := (aDLQ (bolt_abs bk s))(ID j \<mapsto> j)\<rparr>"
    if "bolt_AddDLQ bk j s = (None, s')"
    by (rule AddDLQ_content [OF inv that])
  show "set js = ran (aDLQ (bolt_abs bk s))" if "bolt_ListDLQ bk s = Inr js"
    by (rule ListDLQ_content [OF inv that])
  show "bolt_AddCron bk c s = (Some e, s') \<Longrightarrow> s' = s" unfolding bolt_AddCron_def by (rule Tx_err)
  show "bolt_inv bk s' \<and> bolt_abs bk s' = (bolt_abs bk s)\<lparr>aCrons := (aCrons (bolt_abs bk s))(cID c \<mapsto> c)\<rparr>"
    if "bolt_AddCron bk c s = (None, s')"
    by (rule AddCron_content [OF inv that])
  show "bolt_DeleteCron bk k s = ((b, Some e), s') \<Longrightarrow> s' = s"
    by (auto simp: bolt_DeleteCron_def dest: Tx_err split: prod.splits)
  show "bolt_inv bk s' \<and> bolt_abs bk s' = (bolt_abs bk s)\<lparr>aCrons := (aCrons (bolt_abs bk s))(k := None)\<rparr> \<and>
      b = (aCrons (bolt_abs bk s) k \<noteq> None)"
    if "bolt_DeleteCron bk k s = ((b, None), s')"
    by (rule DeleteCron_content [OF inv that])
  show "set cs = ran (aCrons (bolt_abs bk s))" if "bolt_ListCrons bk s = Inr cs"
    by (rule ListCrons_content [OF inv that])
  show "bolt_FindByIdempotencyKey bk k s = Some j \<longleftrightarrow>
      k \<noteq> [] \<and> aJobs (bolt_abs bk s) (ID j) = Some j \<and> IdempotencyKey j = k"
    using Find_content [OF inv] by (simp add: bolt_abs_def content_abs_def)
qed

context bolt_db
begin

lemma backend: "job_store (bolt_store_ops bk) (bolt_inv bk) (bolt_abs bk)"
  by (rule bs.job_store_axioms)

end

section \<open>A database in memory\<close>

text \<open>
  The laws of \<open>bolt_db\<close> can hold: a database that keeps its entries in one association
  list, refuses empty keys as bbolt does and always commits. Concrete runs of the backend
  use it.
\<close>

type_synonym mem_db = "((bucket \<times> string) \<times> blob) list"

definition bucket_entries :: "mem_db \<Rightarrow> bucket \<Rightarrow> (string \<times> blob) list" where
  "bucket_entries db b = map (\<lambda>e. (snd (fst e), snd e)) (filter (\<lambda>e. fst (fst e) = b) (AList.clearjunk db))"

definition mem_bolt :: "mem_db bolt_ops" where
  "mem_bolt =
     \<lparr>bk_open = (\<lambda>_. True),
      bk_get = (\<lambda>db b k. map_of db (b, k)),
      bk_put = (\<lambda>b k v db. if k = [] then Inl (EBolt ''key required'') else Inr (mput (b, k) v db)),
      bk_delete = (\<lambda>b k db. Inr (mdel (b, k) db)),
      bk_foreach = bucket_entries,
      bk_commit = (\<lambda>_. None)\<rparr>"

lemma bucket_entries_lookup:
  "distinct (map fst es) \<Longrightarrow>
    map_of (map (\<lambda>e. (snd (fst e), snd e)) (filter (\<lambda>e. fst (fst e) = b) es)) k = map_of es (b, k) \<and>
    distinct (map fst (map (\<lambda>e. (snd (fst e), snd e)) (filter (\<lambda>e. fst (fst e) = b) es)))"
  by (induction es) (auto simp: image_iff prod_eq_iff)

interpretation mdb: bolt_db mem_bolt
proof
  fix db :: mem_db and b
  show "map_of (bk_foreach mem_bolt db b) = bk_get mem_bolt db b"
    using bucket_entries_lookup [OF distinct_clearjunk, of b db]
    by (auto simp: mem_bolt_def bucket_entries_def map_of_clearjunk)
  show "distinct (map fst (bk_foreach mem_bolt db b))"
    using bucket_entries_lookup [OF distinct_clearjunk, of b db] by (simp add: mem_bolt_def bucket_entries_def)
qed (auto simp: mem_bolt_def fun_eq_iff split: if_splits)

section \<open>Properties\<close>



text \<open>
  The two backends differ on a known ID: where the in-memory store refuses a second
  \<open>Add\<close>, the persistent one overwrites the job and leaves the old entry in the status
  bucket, so that listing the pending jobs returns a job that is not pending.
\<close>

theorem bolt_second_add_leaves_stale_index:
  "let j = NewJob 7 ''t'' 1;
       db = snd (bolt_Add mem_bolt (j\<lparr>Status := Completed\<rparr>) (snd (bolt_Add mem_bolt j [])))
   in fst (bolt_Add mem_bolt (j\<lparr>Status := Completed\<rparr>) (snd (bolt_Add mem_bolt j []))) = None \<and>
      bolt_ListByStatus mem_bolt Pending db = Inr [j\<lparr>Status := Completed\<rparr>]"
  by code_simp

end
