(* ===== verification/Consensus.thy ===== *)
theory Consensus
  imports Memory_Store Bolt_Store
begin

text \<open>
  The replicated state machine (\<open>src/internal/consensus/fsm.go\<close>, \<open>raft.go\<close>). A committed log
  entry is applied to the store of the node; a snapshot is the list of its jobs. The
  consensus library (hashicorp/raft) is a parameter: whether the node leads, the leader's
  address, and what \<open>Apply\<close> returns and does to the local store. The locale \<open>raft_log\<close> states what
  the library documents about \<open>Apply\<close>.
\<close>

section \<open>Commands\<close>

datatype command_type =
    CmdAddJob | CmdUpdateJob | CmdDeleteJob | CmdCancelJob | CmdAddCronJob | CmdDeleteCronJob
  | OtherCommand string

record command =
  cmdType :: command_type
  cmdJob :: job
  cmdID :: int
  cmdCron :: cron_job
  cmdCronID :: string

definition zero_cron :: cron_job where
  "zero_cron = \<lparr>cID = [], cSchedule = [], cType = [], cPriority = 0, cNextRun = 0\<rparr>"

definition zero_command :: "command_type \<Rightarrow> command" where
  "zero_command t = \<lparr>cmdType = t, cmdJob = zero_job, cmdID = 0, cmdCron = zero_cron, cmdCronID = []\<rparr>"

lemma zero_command_simps [simp]:
  "cmdType (zero_command t) = t" "cmdJob (zero_command t) = zero_job" "cmdID (zero_command t) = 0"
  "cmdCron (zero_command t) = zero_cron" "cmdCronID (zero_command t) = []"
  by (simp_all add: zero_command_def)

text \<open>
  The bytes of a log entry: the JSON text of a command or anything else. Encoding fails on
  a time that has no JSON form; decoding an encoded command gives it back.
\<close>

datatype log_data = CommandJSON command | OtherData string

definition marshal_command :: "command \<Rightarrow> error + log_data" where
  "marshal_command c =
     (if time_marshals (NextRunAt (cmdJob c)) \<and> time_marshals (cNextRun (cmdCron c))
      then Inr (CommandJSON c) else Inl EMarshal)"

fun unmarshal_command :: "log_data \<Rightarrow> error + command" where
  "unmarshal_command (CommandJSON c) = Inr c"
| "unmarshal_command (OtherData _) = Inl EUnmarshal"

section \<open>Applying the log\<close>

text \<open>The response is nil (\<open>None\<close>) or an error.\<close>

definition fsm_Apply :: "'s store_ops \<Rightarrow> log_data \<Rightarrow> 's \<Rightarrow> error option \<times> 's" where
  "fsm_Apply so d s =
     (case unmarshal_command d of
        Inl e \<Rightarrow> (Some (EWrap ''unmarshal command'' e), s)
      | Inr cmd \<Rightarrow>
          (case cmdType cmd of
             CmdAddJob \<Rightarrow>
               (case st_Add so (cmdJob cmd) s of (Some e, s') \<Rightarrow> (Some e, s') | (None, s') \<Rightarrow> (None, s'))
           | CmdUpdateJob \<Rightarrow>
               (case st_Update so (cmdJob cmd) s of (Some e, s') \<Rightarrow> (Some e, s') | (None, s') \<Rightarrow> (None, s'))
           | CmdDeleteJob \<Rightarrow>
               (case st_Delete so (cmdID cmd) s of ((_, Some e), s') \<Rightarrow> (Some e, s') | ((_, None), s') \<Rightarrow> (None, s'))
           | CmdCancelJob \<Rightarrow>
               (case st_Cancel so (cmdID cmd) s of (Some e, s') \<Rightarrow> (Some e, s') | (None, s') \<Rightarrow> (None, s'))
           | CmdAddCronJob \<Rightarrow>
               (case st_AddCron so (cmdCron cmd) s of (Some e, s') \<Rightarrow> (Some e, s') | (None, s') \<Rightarrow> (None, s'))
           | CmdDeleteCronJob \<Rightarrow>
               (case st_DeleteCron so (cmdCronID cmd) s of
                  ((_, Some e), s') \<Rightarrow> (Some e, s') | ((_, None), s') \<Rightarrow> (None, s'))
           | OtherCommand _ \<Rightarrow> (None, s)))"

definition apply_log :: "'s store_ops \<Rightarrow> log_data list \<Rightarrow> 's \<Rightarrow> 's" where
  "apply_log so ds s = fold (\<lambda>d s. snd (fsm_Apply so d s)) ds s"

lemma apply_log_simps [simp]:
  "apply_log so [] s = s"
  "apply_log so (d # ds) s = apply_log so ds (snd (fsm_Apply so d s))"
  "apply_log so (ds @ ds') s = apply_log so ds' (apply_log so ds s)"
  by (simp_all add: apply_log_def)

text \<open>The call of the store that an entry stands for, if any.\<close>

fun entry_call :: "log_data \<Rightarrow> store_call option" where
  "entry_call (OtherData _) = None"
| "entry_call (CommandJSON c) =
     (case cmdType c of
        CmdAddJob \<Rightarrow> Some (CallAdd (cmdJob c))
      | CmdUpdateJob \<Rightarrow> Some (CallUpdate (cmdJob c))
      | CmdDeleteJob \<Rightarrow> Some (CallDelete (cmdID c))
      | CmdCancelJob \<Rightarrow> Some (CallCancel (cmdID c))
      | CmdAddCronJob \<Rightarrow> Some (CallAddCron (cmdCron c))
      | CmdDeleteCronJob \<Rightarrow> Some (CallDeleteCron (cmdCronID c))
      | OtherCommand _ \<Rightarrow> None)"

fun log_calls :: "log_data list \<Rightarrow> store_call list" where
  "log_calls [] = []"
| "log_calls (d # ds) = (case entry_call d of None \<Rightarrow> log_calls ds | Some c \<Rightarrow> c # log_calls ds)"

lemma fsm_Apply_call:
  "entry_call d = Some c \<Longrightarrow>
    run_call so c s = (fst (fsm_Apply so d s) = None, snd (fsm_Apply so d s))"
  by (cases d)
    (auto simp: fsm_Apply_def split: command_type.splits prod.splits option.splits)

lemma fsm_Apply_no_call: "entry_call d = None \<Longrightarrow> snd (fsm_Apply so d s) = s"
  by (cases d) (auto simp: fsm_Apply_def split: command_type.splits)

lemma apply_log_calls: "apply_log so ds s = run_calls so (log_calls ds) s"
proof (induction ds arbitrary: s)
  case (Cons d ds)
  then show ?case
    using fsm_Apply_call [of d _ so s] fsm_Apply_no_call [of d so s]
    by (auto simp: run_calls_def split: option.split)
qed (simp add: run_calls_def)

section \<open>Snapshots\<close>

text \<open>
  A snapshot is the JSON text of the list of jobs. The sink it is written to belongs to the
  consensus library: a record of its three calls on a state \<open>'k\<close>.
\<close>

datatype snapshot_data = JobsJSON "job list" | OtherSnapshot string

definition marshal_jobs :: "job list \<Rightarrow> error + snapshot_data" where
  "marshal_jobs js = (if \<forall>j \<in> set js. time_marshals (NextRunAt j) then Inr (JobsJSON js) else Inl EMarshal)"

fun decode_jobs :: "snapshot_data \<Rightarrow> error + job list" where
  "decode_jobs (JobsJSON js) = Inr js"
| "decode_jobs (OtherSnapshot _) = Inl EUnmarshal"

record 'k sink_ops =
  sk_Write :: "snapshot_data \<Rightarrow> 'k \<Rightarrow> error option \<times> 'k"
  sk_Cancel :: "'k \<Rightarrow> 'k"
  sk_Close :: "'k \<Rightarrow> error option \<times> 'k"

definition fsm_Snapshot :: "'s store_ops \<Rightarrow> order_choice \<Rightarrow> 's \<Rightarrow> job list" where
  "fsm_Snapshot so ord s = st_List so ord s"

definition fsm_Restore :: "'s store_ops \<Rightarrow> snapshot_data \<Rightarrow> 's \<Rightarrow> error option \<times> 's" where
  "fsm_Restore so rc s =
     (case decode_jobs rc of
        Inl e \<Rightarrow> (Some (EWrap ''decode fsm snapshot'' e), s)
      | Inr jobs \<Rightarrow> (None, fold (\<lambda>j s. snd (st_Add so j s)) jobs s))"

definition Persist :: "'k sink_ops \<Rightarrow> job list \<Rightarrow> 'k \<Rightarrow> error option \<times> 'k" where
  "Persist sk jobs k =
     (let (err, k1) =
        (case marshal_jobs jobs of
           Inl e \<Rightarrow> (Some e, k)
         | Inr data \<Rightarrow> (case sk_Write sk data k of (Some e, k') \<Rightarrow> (Some e, k') | (None, k') \<Rightarrow> (None, k')))
      in case err of
           Some e \<Rightarrow> (Some e, sk_Cancel sk k1)
         | None \<Rightarrow> sk_Close sk k1)"

section \<open>Proposals\<close>

text \<open>
  \<open>rf_Apply\<close> gives the outcome of the future, \<open>Inl\<close> its error or \<open>Inr\<close> the response of the
  state machine, and the local store when the future is done. \<open>rf_term\<close> is the term among the library's statistics.
\<close>

record 's raft_ops =
  rf_leader :: bool
  rf_leaderAddr :: string
  rf_term :: string
  rf_Apply :: "log_data \<Rightarrow> 's \<Rightarrow> (error + error option) \<times> 's"

definition IsLeader :: "'s raft_ops \<Rightarrow> bool" where
  "IsLeader rf = rf_leader rf"

definition LeaderAddr :: "'s raft_ops \<Rightarrow> string" where
  "LeaderAddr rf = rf_leaderAddr rf"

definition Propose :: "'s raft_ops \<Rightarrow> command \<Rightarrow> 's \<Rightarrow> error option \<times> 's" where
  "Propose rf cmd s =
     (if \<not> IsLeader rf then (Some (ENotLeader (LeaderAddr rf)), s)
      else case marshal_command cmd of
             Inl e \<Rightarrow> (Some (EWrap ''marshal command'' e), s)
           | Inr data \<Rightarrow>
               (case rf_Apply rf data s of
                  (Inl e, s') \<Rightarrow> (Some (EWrap ''raft apply error'' e), s')
                | (Inr res, s') \<Rightarrow> (case res of Some e \<Rightarrow> (Some e, s') | None \<Rightarrow> (None, s'))))"

definition ProposeAddJob :: "'s raft_ops \<Rightarrow> job \<Rightarrow> 's \<Rightarrow> error option \<times> 's" where
  "ProposeAddJob rf j = Propose rf ((zero_command CmdAddJob)\<lparr>cmdJob := j\<rparr>)"

definition ProposeUpdateJob :: "'s raft_ops \<Rightarrow> job \<Rightarrow> 's \<Rightarrow> error option \<times> 's" where
  "ProposeUpdateJob rf j = Propose rf ((zero_command CmdUpdateJob)\<lparr>cmdJob := j\<rparr>)"

definition ProposeDeleteJob :: "'s raft_ops \<Rightarrow> int \<Rightarrow> 's \<Rightarrow> error option \<times> 's" where
  "ProposeDeleteJob rf i = Propose rf ((zero_command CmdDeleteJob)\<lparr>cmdID := i\<rparr>)"

definition ProposeCancelJob :: "'s raft_ops \<Rightarrow> int \<Rightarrow> 's \<Rightarrow> error option \<times> 's" where
  "ProposeCancelJob rf i = Propose rf ((zero_command CmdCancelJob)\<lparr>cmdID := i\<rparr>)"

definition ProposeAddCron :: "'s raft_ops \<Rightarrow> cron_job \<Rightarrow> 's \<Rightarrow> error option \<times> 's" where
  "ProposeAddCron rf c = Propose rf ((zero_command CmdAddCronJob)\<lparr>cmdCron := c\<rparr>)"

definition ProposeDeleteCron :: "'s raft_ops \<Rightarrow> string \<Rightarrow> 's \<Rightarrow> error option \<times> 's" where
  "ProposeDeleteCron rf k = Propose rf ((zero_command CmdDeleteCronJob)\<lparr>cmdCronID := k\<rparr>)"

text \<open>
  \<open>parseTerm\<close> scans a decimal number at the start of the text; the variable keeps its zero
  when there is none or when it does not fit into 64 bits.
\<close>

definition parseTerm :: "string \<Rightarrow> nat" where
  "parseTerm s =
     (let tok = takeWhile (\<lambda>c. digit_value c \<noteq> None)
                  (dropWhile (\<lambda>c. is_space c \<and> c \<noteq> CHR 0x0A) s)
      in case parse_digits 0 tok of
           None \<Rightarrow> 0
         | Some n \<Rightarrow> if tok \<noteq> [] \<and> n < 2 ^ 64 then n else 0)"

definition LeaderTerm :: "'s raft_ops \<Rightarrow> nat" where
  "LeaderTerm rf = (if rf_term rf = [] then 0 else parseTerm (rf_term rf))"

text \<open>Changes of the membership: only a leader asks the library, whose outcome is \<open>res\<close>.\<close>

definition AddVoter :: "'s raft_ops \<Rightarrow> error option \<Rightarrow> error option" where
  "AddVoter rf res = (if \<not> IsLeader rf then Some (ENotLeader (LeaderAddr rf)) else res)"

definition RemoveServer :: "'s raft_ops \<Rightarrow> error option \<Rightarrow> error option" where
  "RemoveServer rf res = (if \<not> IsLeader rf then Some (ENotLeader (LeaderAddr rf)) else res)"

lemma nat_digits_values: "c \<in> set (nat_digits n) \<Longrightarrow> digit_value c \<noteq> None"
proof (induction n rule: nat_digits.induct)
  case (1 n)
  show ?case
  proof (cases "n < 10")
    case True
    then show ?thesis using 1 by (simp add: nat_digits.simps [of n])
  next
    case False
    with 1 show ?thesis by (auto simp: nat_digits.simps [of n])
  qed
qed

lemma digit_not_space: "d < 10 \<Longrightarrow> \<not> is_space (digit d)"
proof -
  assume "d < 10"
  then have "of_char (digit d) = (48 + d :: nat)" by simp
  then show ?thesis by (auto simp: is_space_def)
qed

lemma parseTerm_digits_any: "parseTerm (nat_digits n) = (if n < 2 ^ 64 then n else 0)"
proof -
  obtain c cs where e: "nat_digits n = c # cs" by (meson list.exhaust nat_digits_not_Nil)
  then have "\<not> is_space c" using hd_nat_digits [of n] digit_not_space by auto
  then have "dropWhile (\<lambda>c. is_space c \<and> c \<noteq> CHR 0x0A) (nat_digits n) = nat_digits n" by (simp add: e)
  moreover have "takeWhile (\<lambda>c. digit_value c \<noteq> None) (nat_digits n) = nat_digits n"
    using nat_digits_values [of _ n] by (intro takeWhile_eq_all_conv [THEN iffD2]) blast
  ultimately show ?thesis
    by (simp only: parseTerm_def Let_def parse_nat_digits option.case nat_digits_not_Nil simp_thms)
qed

lemma parseTerm_Nil [simp]: "parseTerm [] = 0"
  by (simp add: parseTerm_def)

section \<open>What the consensus library promises\<close>

text \<open>
  When the future of \<open>Apply\<close> succeeds, the entry has been applied to the local state
  machine, possibly after others, and the response is that of the state machine; when it
  fails, the entry may or may not have been applied, but the store has changed only through
  applied entries.
\<close>

locale raft_log =
  fixes so :: "'s store_ops" and rf :: "'s raft_ops"
  assumes Apply_committed: "rf_Apply rf d s = (Inr r, s') \<Longrightarrow>
      \<exists>before. fsm_Apply so d (apply_log so before s) = (r, s')"
    and Apply_failed: "rf_Apply rf d s = (Inl e, s') \<Longrightarrow> \<exists>entries. s' = apply_log so entries s"
begin

lemma Propose_committed:
  assumes "Propose rf cmd s = (None, s')"
  shows "IsLeader rf \<and> (\<exists>before. fsm_Apply so (CommandJSON cmd) (apply_log so before s) = (None, s'))"
  using assms Apply_committed [of "CommandJSON cmd" s None s']
  by (auto simp: Propose_def marshal_command_def split: if_splits sum.splits option.splits prod.splits)

lemma Propose_log: "\<exists>entries. snd (Propose rf cmd s) = apply_log so entries s"
proof (cases "\<exists>d. IsLeader rf \<and> marshal_command cmd = Inr d")
  case True
  then obtain d r s' where d: "marshal_command cmd = Inr d" and a: "rf_Apply rf d s = (r, s')" and l: "IsLeader rf"
    by fastforce
  have "\<exists>entries. s' = apply_log so entries s"
  proof (cases r)
    case (Inl e)
    then show ?thesis using Apply_failed a by blast
  next
    case (Inr x)
    then obtain before where "fsm_Apply so d (apply_log so before s) = (x, s')"
      using Apply_committed a by blast
    then have "s' = apply_log so (before @ [d]) s" by simp
    then show ?thesis by blast
  qed
  moreover have "snd (Propose rf cmd s) = s'"
    using d a l by (auto simp: Propose_def split: sum.splits option.splits)
  ultimately show ?thesis by simp
next
  case False
  then have "snd (Propose rf cmd s) = s" by (auto simp: Propose_def split: sum.splits)
  then show ?thesis using apply_log_simps(1) by metis
qed

end

text \<open>A cluster of one node commits and applies at once.\<close>

definition single_node :: "'s store_ops \<Rightarrow> 's raft_ops" where
  "single_node so =
     \<lparr>rf_leader = True, rf_leaderAddr = ''127.0.0.1:7000'', rf_term = ''1'',
      rf_Apply = (\<lambda>d s. (Inr (fst (fsm_Apply so d s)), snd (fsm_Apply so d s)))\<rparr>"

interpretation single: raft_log so "single_node so" for so
proof
  fix d s r s' e
  show "rf_Apply (single_node so) d s = (Inr r, s') \<Longrightarrow> \<exists>before. fsm_Apply so d (apply_log so before s) = (r, s')"
    by (rule exI [of _ "[]"]) (auto simp: single_node_def)
  show "rf_Apply (single_node so) d s = (Inl e, s') \<Longrightarrow> \<exists>entries. s' = apply_log so entries s"
    by (simp add: single_node_def)
qed

section \<open>Restoring a snapshot into the in-memory store\<close>

lemma mem_Add_Get:
  "mem_Get (snd (mem_Add j s)) i = (case mem_Get s i of Some x \<Rightarrow> Some x | None \<Rightarrow> if i = ID j then Some j else None)"
  by (auto simp: mem_Add_def mem_Get_def Let_def addToStatusIndex_def split: option.split)

lemma mem_Add_others:
  "mDLQ (snd (mem_Add j s)) = mDLQ s" "mCrons (snd (mem_Add j s)) = mCrons s"
  by (simp_all add: mem_Add_def Let_def addToStatusIndex_def)

lemma mem_Adds_Get:
  "mem_Get (fold (\<lambda>j s. snd (mem_Add j s)) js s) i =
    (case mem_Get s i of Some x \<Rightarrow> Some x | None \<Rightarrow> map_of (map (\<lambda>j. (ID j, j)) js) i)"
  by (induction js arbitrary: s) (auto simp: mem_Add_Get split: option.splits)

lemma mem_Adds_others:
  "mDLQ (fold (\<lambda>j s. snd (mem_Add j s)) js s) = mDLQ s" "mCrons (fold (\<lambda>j s. snd (mem_Add j s)) js s) = mCrons s"
  by (induction js arbitrary: s) (auto simp: mem_Add_others)

lemma mem_List_map:
  assumes "mem_inv s"
  shows "map_of (map (\<lambda>j. (ID j, j)) (mem_List ord s)) = map_of (mJobs s)"
proof -
  have wf: "wf_map (mJobs s)" and ids: "\<forall>i j. map_of (mJobs s) i = Some j \<longrightarrow> ID j = i"
    using assms by (auto simp: mem_inv_def mem_wf_def)
  have "ID j = i" if "(i, j) \<in> set (range_order ord (mJobs s))" for i j
    using that wf ids by (simp add: wf_map_def)
  then have "map (\<lambda>j. (ID j, j)) (mem_List ord s) = range_order ord (mJobs s)"
    by (auto simp: mem_List_def comp_def intro!: map_idI)
  then show ?thesis using map_of_range_order [OF wf] by simp
qed

section \<open>Properties\<close>







text \<open>
  Restoring a snapshot does not reset the store: a job that is already there keeps its
  old version, and a job that the snapshot no longer contains stays.
\<close>

theorem restore_does_not_reset:
  "mem_Get (snd (fsm_Restore memory_ops (JobsJSON js) s)) i =
     (case mem_Get s i of Some old \<Rightarrow> Some old | None \<Rightarrow> map_of (map (\<lambda>j. (ID j, j)) js) i)"
  by (simp add: fsm_Restore_def mem_Adds_Get)

text \<open>
  The term of a node is the number its consensus library prints: \<open>parseTerm\<close> reads back
  every unsigned 64-bit number and gives 0 for the empty text and for a number that does not fit.
\<close>

theorem parse_term_roundtrip:
  "parseTerm (nat_digits n) = (if n < 2 ^ 64 then n else 0) \<and> parseTerm [] = 0"
  using parseTerm_digits_any parseTerm_Nil by blast

end
