(* ===== verification/Engine.thy ===== *)
theory Engine
  imports Worker_Node Consensus
begin

text \<open>
  The engine (\<open>src/internal/engine/engine.go\<close>) with its configuration
  (\<open>src/internal/config/config.go\<close>): submissions, cancellation, deletion, cron jobs,
  restart and leadership changes. The engine and the scheduler share the store, both queues,
  the in-memory dead-letter queue and the worker manager, which are the fields of the
  scheduler. \<open>raft\<close> is the consensus node, \<open>None\<close> where \<open>e.RaftNode\<close> is nil.
\<close>

section \<open>Configuration\<close>

record config =
  WorkerCount :: int
  WorkerID :: int
  HeartbeatTimeout :: duration
  cfgMaxRetries :: int
  MaxBackoff :: duration
  ResultBuffer :: nat
  WorkerExecutionTimeout :: duration
  DelayQueuePollInterval :: duration
  RateLimit :: int
  RateBurst :: int
  BreakerFailureThreshold :: int
  BreakerResetTimeout :: duration
  ControllerGRPCPort :: int
  WorkerGRPCPort :: int
  StorageType :: string
  StoragePath :: string
  RaftEnabled :: bool
  RaftNodeID :: string
  RaftAddr :: string
  RaftDataDir :: string
  JWTSecret :: string
  AuthEnabled :: bool

text \<open>\<open>env\<close> is \<open>os.Getenv\<close>: the empty text for a variable that is not set.\<close>

definition config_Default :: "(string \<Rightarrow> string) \<Rightarrow> config" where
  "config_Default env =
     (let jwtSecret = (if env ''QUORUM_JWT_SECRET'' \<noteq> [] then env ''QUORUM_JWT_SECRET''
                       else if env ''JWT_SECRET'' \<noteq> [] then env ''JWT_SECRET''
                       else ''quorum-jwt-secret-key-change-in-production'');
          v = env ''QUORUM_AUTH_ENABLED'';
          authEnabled = (v = ''true'' \<or> v = ''1'')
      in \<lparr>WorkerCount = 0, WorkerID = 1, HeartbeatTimeout = 5 * Second, cfgMaxRetries = 3,
          MaxBackoff = Minute, ResultBuffer = 100, WorkerExecutionTimeout = 30 * Second,
          DelayQueuePollInterval = 500 * Millisecond, RateLimit = 5, RateBurst = 10,
          BreakerFailureThreshold = 5, BreakerResetTimeout = 30 * Second,
          ControllerGRPCPort = 50051, WorkerGRPCPort = 50052, StorageType = ''bolt'',
          StoragePath = ''quorum.db'', RaftEnabled = True, RaftNodeID = ''node1'',
          RaftAddr = ''127.0.0.1:18088'', RaftDataDir = ''data/raft'', JWTSecret = jwtSecret,
          AuthEnabled = authEnabled\<rparr>)"

section \<open>State\<close>

record 's engine =
  eScheduler :: "'s scheduler"
  CronScheduler :: cron_scheduler
  nextJobID :: int

abbreviation JobStore :: "'s engine \<Rightarrow> 's" where
  "JobStore e \<equiv> sStore (eScheduler e)"

text \<open>
  \<open>New\<close> on an opened store: the local workers 1 to \<open>WorkerCount\<close> are registered for every
  topic; each pushes itself into \<open>Available\<close> once it is started.
\<close>

definition engine_New :: "time \<Rightarrow> config \<Rightarrow> 's \<Rightarrow> 's engine" where
  "engine_New now cfg st =
     (let s = NewScheduler st (ResultBuffer cfg) True;
          s' = fold (\<lambda>i s. s\<lparr>Manager := Register now (Client i 0) (''localhost:local-'' @ Itoa i) [''*''] (Manager s)\<rparr>)
                 [1..WorkerCount cfg] s
      in \<lparr>eScheduler = s', CronScheduler = cron_New, nextJobID = 0\<rparr>)"

text \<open>Running a call of the store inside the engine.\<close>

definition on_store :: "('s \<Rightarrow> 'a \<times> 's) \<Rightarrow> 's engine \<Rightarrow> 'a \<times> 's engine" where
  "on_store f e =
     (let (r, st) = f (JobStore e) in (r, e\<lparr>eScheduler := (eScheduler e)\<lparr>sStore := st\<rparr>\<rparr>))"

definition enqueue_new :: "'s store_ops \<Rightarrow> int \<Rightarrow> queue_ref \<Rightarrow> 's engine \<Rightarrow> 's engine" where
  "enqueue_new so i q e = e\<lparr>eScheduler := enqueueJob so i q (eScheduler e)\<rparr>"

text \<open>\<open>e.nextJobID.Add(1)\<close>.\<close>

definition next_id :: "'s engine \<Rightarrow> int \<times> 's engine" where
  "next_id e = (let i = wrap64 (nextJobID e + 1) in (i, e\<lparr>nextJobID := i\<rparr>))"

section \<open>Submission\<close>

definition SubmitJob :: "'s store_ops \<Rightarrow> 's raft_ops option \<Rightarrow> string \<Rightarrow> int \<Rightarrow> 's engine \<Rightarrow> (error + job) \<times> 's engine" where
  "SubmitJob so raft jobType priority e =
     (let (i, e1) = next_id e;
          j = NewJob i jobType priority
      in case raft of
           Some rf \<Rightarrow>
             (case on_store (ProposeAddJob rf j) e1 of
                (Some err, e2) \<Rightarrow> (Inl (EWrap ''raft propose add_job failed'' err), e2)
              | (None, e2) \<Rightarrow> (Inr j, e2))
         | None \<Rightarrow>
             (case on_store (st_Add so j) e1 of
                (Some err, e2) \<Rightarrow> (Inl err, e2)
              | (None, e2) \<Rightarrow> (Inr j, enqueue_new so (ID j) ThePriorityQueue e2)))"

definition SubmitJobAt ::
  "'s store_ops \<Rightarrow> 's raft_ops option \<Rightarrow> string \<Rightarrow> int \<Rightarrow> time \<Rightarrow> 's engine \<Rightarrow> (error + job) \<times> 's engine" where
  "SubmitJobAt so raft jobType priority runAt e =
     (let (i, e1) = next_id e;
          j = (NewJob i jobType priority)\<lparr>Status := Scheduled, NextRunAt := runAt\<rparr>
      in case raft of
           Some rf \<Rightarrow>
             (case on_store (ProposeAddJob rf j) e1 of
                (Some err, e2) \<Rightarrow> (Inl (EWrap ''raft propose add_job_at failed'' err), e2)
              | (None, e2) \<Rightarrow> (Inr j, e2))
         | None \<Rightarrow>
             (case on_store (st_Add so j) e1 of
                (Some err, e2) \<Rightarrow> (Inl err, e2)
              | (None, e2) \<Rightarrow> (Inr j, enqueue_new so (ID j) TheDelayQueue e2)))"

text \<open>The flag says whether the job was found under the key.\<close>

definition SubmitJobIdempotent ::
  "'s store_ops \<Rightarrow> 's raft_ops option \<Rightarrow> string \<Rightarrow> string \<Rightarrow> int \<Rightarrow> 's engine \<Rightarrow> (error + job \<times> bool) \<times> 's engine" where
  "SubmitJobIdempotent so raft k jobType priority e =
     (if k = [] then
        (case SubmitJob so raft jobType priority e of
           (Inl err, e1) \<Rightarrow> (Inl err, e1)
         | (Inr j, e1) \<Rightarrow> (Inr (j, False), e1))
      else
        case st_FindByIdempotencyKey so k (JobStore e) of
          Some existing \<Rightarrow> (Inr (existing, True), e)
        | None \<Rightarrow>
            (let (i, e1) = next_id e;
                 j = (NewJob i jobType priority)\<lparr>IdempotencyKey := k\<rparr>
             in case raft of
                  Some rf \<Rightarrow>
                    (case on_store (ProposeAddJob rf j) e1 of
                       (Some err, e2) \<Rightarrow> (Inl (EWrap ''raft propose add_job (idempotent) failed'' err), e2)
                     | (None, e2) \<Rightarrow> (Inr (j, False), e2))
                | None \<Rightarrow>
                    (case on_store (st_Add so j) e1 of
                       (Some err, e2) \<Rightarrow> (Inl err, e2)
                     | (None, e2) \<Rightarrow> (Inr (j, False), enqueue_new so (ID j) ThePriorityQueue e2))))"

section \<open>Other operations\<close>

definition Jobs :: "'s store_ops \<Rightarrow> order_choice \<Rightarrow> 's engine \<Rightarrow> job list" where
  "Jobs so ord e = st_List so ord (JobStore e)"

definition Job :: "'s store_ops \<Rightarrow> int \<Rightarrow> 's engine \<Rightarrow> job option" where
  "Job so i e = st_Get so (JobStore e) i"

definition DeleteJob :: "'s store_ops \<Rightarrow> 's raft_ops option \<Rightarrow> int \<Rightarrow> 's engine \<Rightarrow> bool \<times> 's engine" where
  "DeleteJob so raft i e =
     (case raft of
        Some rf \<Rightarrow> (True, snd (on_store (ProposeDeleteJob rf i) e))
      | None \<Rightarrow> (let ((ok, _), e1) = on_store (st_Delete so i) e in (ok, e1)))"

definition CancelJob :: "'s store_ops \<Rightarrow> 's raft_ops option \<Rightarrow> int \<Rightarrow> 's engine \<Rightarrow> error option \<times> 's engine" where
  "CancelJob so raft i e =
     (case raft of
        Some rf \<Rightarrow> on_store (ProposeCancelJob rf i) e
      | None \<Rightarrow> on_store (st_Cancel so i) e)"

definition DeadJobs :: "'s store_ops \<Rightarrow> order_choice \<Rightarrow> order_choice \<Rightarrow> 's engine \<Rightarrow> job list" where
  "DeadJobs so ord1 ord2 e =
     (case st_ListDLQ so ord1 (JobStore e) of
        Inl _ \<Rightarrow> dlq_List ord2 (sDLQ (eScheduler e))
      | Inr dlqJobs \<Rightarrow> if length dlqJobs = 0 then dlq_List ord2 (sDLQ (eScheduler e)) else dlqJobs)"

definition AddCronJob ::
  "'s store_ops \<Rightarrow> 's raft_ops option \<Rightarrow> duration \<Rightarrow> time \<Rightarrow> string \<Rightarrow> string \<Rightarrow> string \<Rightarrow> int \<Rightarrow> 's engine \<Rightarrow> error option \<times> 's engine" where
  "AddCronJob so raft off now i schedule jobType priority e =
     (let c = \<lparr>cID = i, cSchedule = schedule, cType = jobType, cPriority = priority, cNextRun = 0\<rparr>
      in case raft of
           Some rf \<Rightarrow> on_store (ProposeAddCron rf c) e
         | None \<Rightarrow>
             (case on_store (st_AddCron so c) e of
                (Some err, e1) \<Rightarrow> (Some err, e1)
              | (None, e1) \<Rightarrow>
                  (let (r, cs) = cron_Add off now c (CronScheduler e1) in (r, e1\<lparr>CronScheduler := cs\<rparr>))))"

definition RemoveCronJob :: "'s store_ops \<Rightarrow> 's raft_ops option \<Rightarrow> string \<Rightarrow> 's engine \<Rightarrow> 's engine" where
  "RemoveCronJob so raft i e =
     (case raft of
        Some rf \<Rightarrow> snd (on_store (ProposeDeleteCron rf i) e)
      | None \<Rightarrow>
          let e1 = snd (on_store (st_DeleteCron so i) e)
          in e1\<lparr>CronScheduler := cron_Remove i (CronScheduler e1)\<rparr>)"

definition ListCronJobs :: "'s store_ops \<Rightarrow> order_choice \<Rightarrow> order_choice \<Rightarrow> 's engine \<Rightarrow> cron_job list" where
  "ListCronJobs so ord1 ord2 e =
     (case st_ListCrons so ord1 (JobStore e) of
        Inl _ \<Rightarrow> cron_List ord2 (CronScheduler e)
      | Inr crons \<Rightarrow> if length crons = 0 then cron_List ord2 (CronScheduler e) else crons)"

text \<open>
  One tick of the cron scheduler inside the engine: the submit function it was built with
  is \<open>SubmitJob\<close>, whose errors are only logged.
\<close>

definition engine_cron_tick ::
  "'s store_ops \<Rightarrow> 's raft_ops option \<Rightarrow> duration \<Rightarrow> order_choice \<Rightarrow> time \<Rightarrow> 's engine \<Rightarrow> 's engine" where
  "engine_cron_tick so raft off ord now e =
     (let (due, cs) = cron_tick off ord now (CronScheduler e)
      in fold (\<lambda>c e. snd (SubmitJob so raft (cType c) (cPriority c) e)) due (e\<lparr>CronScheduler := cs\<rparr>))"

section \<open>Restart and leadership\<close>

definition Restore :: "'s store_ops \<Rightarrow> order_choice \<Rightarrow> order_choice \<Rightarrow> order_choice \<Rightarrow> 's engine \<Rightarrow> error option \<times> 's engine" where
  "Restore so ord ord1 ord2 e =
     (let maxID = fold (\<lambda>j m. if ID j > m then ID j else m) (st_List so ord (JobStore e)) 0;
          (r, s) = RebuildQueuesFromStore so ord1 ord2 (eScheduler e)
      in (r, e\<lparr>nextJobID := maxID, eScheduler := s\<rparr>))"

text \<open>
  \<open>Start\<close> without a consensus node: the queues are rebuilt (an error is ignored) and the
  loops start. With one, the loops wait for \<open>watchLeadership\<close>.
\<close>

definition engine_Start :: "'s store_ops \<Rightarrow> 's raft_ops option \<Rightarrow> order_choice \<Rightarrow> order_choice \<Rightarrow> 's engine \<Rightarrow> 's engine" where
  "engine_Start so raft ord1 ord2 e =
     (case raft of
        Some _ \<Rightarrow> e
      | None \<Rightarrow> e\<lparr>eScheduler := snd (RebuildQueuesFromStore so ord1 ord2 (eScheduler e))\<rparr>)"

text \<open>
  One notification in \<open>watchLeadership\<close>: whether \<open>schedCancel\<close> is set, and how many
  started schedulers have not been cancelled.
\<close>

record 's leader_watch =
  lwEngine :: "'s engine"
  schedCancel :: bool
  running :: nat

definition watchLeadership :: "'s store_ops \<Rightarrow> order_choice \<Rightarrow> order_choice \<Rightarrow> bool \<Rightarrow> 's leader_watch \<Rightarrow> 's leader_watch" where
  "watchLeadership so ord1 ord2 isLeader w =
     (let e = lwEngine w
      in if isLeader then
           w\<lparr>lwEngine := e\<lparr>eScheduler := snd (RebuildQueuesFromStore so ord1 ord2 (eScheduler e))\<rparr>,
             schedCancel := True, running := Suc (running w)\<rparr>
         else
           w\<lparr>lwEngine := e\<lparr>eScheduler := (eScheduler e)\<lparr>Leases := Clear (Leases (eScheduler e))\<rparr>\<rparr>,
             schedCancel := False, running := (if schedCancel w then running w - 1 else running w)\<rparr>)"

section \<open>The invariant of a standalone engine\<close>

text \<open>
  The store is well formed, every job is tracked by a queue or a lease, and the counter is
  at least every stored ID, so that the next ID is new.
\<close>

definition engine_ok :: "'s store_ops \<Rightarrow> ('s \<Rightarrow> bool) \<Rightarrow> 's engine \<Rightarrow> bool" where
  "engine_ok so invar e \<longleftrightarrow> invar (JobStore e) \<and> tracked so (eScheduler e) \<and> lease_inv (Leases (eScheduler e)) \<and>
     0 \<le> nextJobID e \<and> nextJobID e < 2 ^ 63 \<and>
     (\<forall>i j. st_Get so (JobStore e) i = Some j \<longrightarrow> i \<le> nextJobID e)"

abbreviation id_left :: "'s engine \<Rightarrow> bool" where
  "id_left e \<equiv> nextJobID e + 1 < 2 ^ 63"

lemma next_id_exact:
  "0 \<le> nextJobID e \<Longrightarrow> id_left e \<Longrightarrow> next_id e = (nextJobID e + 1, e\<lparr>nextJobID := nextJobID e + 1\<rparr>)"
  by (simp add: next_id_def wrap64_def Let_def)

definition with_job :: "'s store_ops \<Rightarrow> job \<Rightarrow> queue_ref \<Rightarrow> 's \<Rightarrow> 's engine \<Rightarrow> 's engine" where
  "with_job so j q st e =
     e\<lparr>nextJobID := ID j, eScheduler := enqueueJob so (ID j) q ((eScheduler e)\<lparr>sStore := st\<rparr>)\<rparr>"

definition goes_to :: "job \<Rightarrow> queue_ref \<Rightarrow> bool" where
  "goes_to j q \<longleftrightarrow> Status j = Pending \<and> q = ThePriorityQueue \<or> Status j = Scheduled \<and> q = TheDelayQueue"

lemma fold_max_ID: "fold (\<lambda>j m. if ID j > m then ID j else m) js m = Max (insert m (ID ` set js))"
proof (induction js arbitrary: m)
  case (Cons a js)
  have "Max (insert (if x > m then x else m) S) = Max (insert m (insert x S))" if "finite S" for x :: int and S
    using that by (cases "S = {}") (auto simp: max_def)
  from this [of "ID ` set js" "ID a"] show ?case using Cons.IH by simp
qed simp

text \<open>A restart works with every store from which the queues can be rebuilt.\<close>

context queue_source
begin

lemma Restore_effect:
  assumes inv: "inv (JobStore e)" and l: "lease_inv (Leases (eScheduler e))"
  shows "\<exists>s. Restore so ord ord1 ord2 e = (None, e\<lparr>nextJobID := Max (insert 0 {i. st_Get so (JobStore e) i \<noteq> None}), eScheduler := s\<rparr>)
    \<and> RebuildQueuesFromStore so ord1 ord2 (eScheduler e) = (None, s)
    \<and> engine_ok so inv (snd (Restore so ord ord1 ord2 e))"
proof -
  let ?js = "st_List so ord (JobStore e)" and ?ids = "{i. st_Get so (JobStore e) i \<noteq> None}"
  obtain s where s: "RebuildQueuesFromStore so ord1 ord2 (eScheduler e) = (None, s)"
    using Rebuild_succeeds [OF inv] by blast
  have ids: "ID ` set ?js = ?ids"
    using List_abs [OF inv, of ord] Get_ID [OF inv] by (auto simp: Get_abs [OF inv] ran_def image_iff)
  then have fin: "finite ?ids" by (metis List.finite_set finite_imageI)
  have m: "fold (\<lambda>j m. if ID j > m then ID j else m) ?js 0 = Max (insert 0 ?ids)" by (simp add: fold_max_ID ids)
  have r: "Restore so ord ord1 ord2 e = (None, e\<lparr>nextJobID := Max (insert 0 ?ids), eScheduler := s\<rparr>)"
    using s m by (simp add: Restore_def)
  have e: "sStore s = JobStore e" "Leases s = Leases (eScheduler e)"
    using Rebuild_effect [OF inv s] by auto
  have "in_int64 i" if "i \<in> ?ids" for i
    using that inv_abs [OF inv] by (auto simp: aInv_def Get_abs [OF inv])
  then have b: "0 \<le> Max (insert 0 ?ids)" "Max (insert 0 ?ids) < 2 ^ 63"
    using fin by (auto simp: in_int64_def)
  have "i \<le> Max (insert 0 ?ids)" if "st_Get so (JobStore e) i = Some j" for i j
    using that fin by (intro Max_ge) auto
  then have "engine_ok so inv (snd (Restore so ord ord1 ord2 e))"
    using r e b inv l Rebuild_tracked [OF inv s] by (simp add: engine_ok_def)
  then show ?thesis using r s by blast
qed

end

text \<open>The contract between the engine and its store is that of the scheduler.\<close>

locale engine_store = scheduler_store so inv abs
  for so :: "'s store_ops" and inv :: "'s \<Rightarrow> bool" and abs :: "'s \<Rightarrow> astore"
begin

lemma add_job_effect:
  assumes "engine_ok so inv e" "id_left e" "ID j = nextJobID e + 1"
    and key: "\<And>i j'. st_Get so (JobStore e) i = Some j' \<Longrightarrow> IdempotencyKey j \<noteq> [] \<Longrightarrow> IdempotencyKey j' \<noteq> IdempotencyKey j"
  shows "\<exists>st. st_Add so j (JobStore e) = (None, st) \<and> inv st \<and>
    st_Get so st = (st_Get so (JobStore e))(ID j \<mapsto> j)"
proof -
  have inv: "inv (JobStore e)" using assms(1) by (simp add: engine_ok_def)
  have new: "st_Get so (JobStore e) (ID j) = None"
    using assms(1,3) by (force simp: engine_ok_def)
  have "in_int64 (ID j)" using assms(1-3) by (simp add: engine_ok_def in_int64_def)
  then have fresh: "aFresh j (abs (JobStore e))"
    using new key by (auto simp: aFresh_def Get_abs [OF inv])
  obtain st where a: "st_Add so j (JobStore e) = (None, st)"
    using Add_succeeds [OF inv, of j] new by (metis Get_abs inv prod.collapse)
  then show ?thesis using Add_ok [OF inv fresh a] by (simp add: Get_abs inv aPut_def)
qed

lemma with_job_ok:
  assumes ok: "engine_ok so inv e" and "id_left e" "ID j = nextJobID e + 1" "goes_to j q"
    and st: "inv st" "st_Get so st = (st_Get so (JobStore e))(ID j \<mapsto> j)"
  shows "engine_ok so inv (with_job so j q st e)"
proof -
  let ?s = "(eScheduler e)\<lparr>sStore := st\<rparr>"
  have g: "sched_get so ?s = (sched_get so (eScheduler e))(ID j \<mapsto> j)" using st(2) by (simp add: sched_get_def)
  have t: "tracked_but {ID j} so ?s" using ok unfolding engine_ok_def tracked_but_def g by simp
  have "tracked so (enqueueJob so (ID j) q ?s)"
    using assms(4) tracked_fill_pending [OF t] tracked_fill_scheduled [OF t] g by (auto simp: goes_to_def)
  then show ?thesis
    using ok assms(2,3) st by (auto simp: engine_ok_def with_job_def sched_get_def)
qed

lemma SubmitJob_effect:
  assumes "engine_ok so inv e" "id_left e"
  shows "\<exists>st. let j = NewJob (nextJobID e + 1) t p in
    SubmitJob so None t p e = (Inr j, with_job so j ThePriorityQueue st e) \<and>
    inv st \<and> st_Get so st = (st_Get so (JobStore e))(ID j \<mapsto> j)"
proof -
  obtain st where a: "st_Add so (NewJob (nextJobID e + 1) t p) (JobStore e) = (None, st)" "inv st"
      "st_Get so st = (st_Get so (JobStore e))(nextJobID e + 1 \<mapsto> NewJob (nextJobID e + 1) t p)"
    using add_job_effect [OF assms, of "NewJob (nextJobID e + 1) t p"] by auto
  moreover have n: "next_id e = (nextJobID e + 1, e\<lparr>nextJobID := nextJobID e + 1\<rparr>)"
    using assms by (intro next_id_exact) (simp_all add: engine_ok_def)
  ultimately show ?thesis
    by (intro exI [of _ st]) (simp add: SubmitJob_def Let_def on_store_def with_job_def enqueue_new_def)
qed

lemma SubmitJobAt_effect:
  assumes "engine_ok so inv e" "id_left e"
  shows "\<exists>st. let j = (NewJob (nextJobID e + 1) t p)\<lparr>Status := Scheduled, NextRunAt := runAt\<rparr> in
    SubmitJobAt so None t p runAt e = (Inr j, with_job so j TheDelayQueue st e) \<and>
    inv st \<and> st_Get so st = (st_Get so (JobStore e))(ID j \<mapsto> j)"
proof -
  let ?j = "(NewJob (nextJobID e + 1) t p)\<lparr>Status := Scheduled, NextRunAt := runAt\<rparr>"
  obtain st where a: "st_Add so ?j (JobStore e) = (None, st)" "inv st"
      "st_Get so st = (st_Get so (JobStore e))(nextJobID e + 1 \<mapsto> ?j)"
    using add_job_effect [OF assms, of ?j] by auto
  moreover have n: "next_id e = (nextJobID e + 1, e\<lparr>nextJobID := nextJobID e + 1\<rparr>)"
    using assms by (intro next_id_exact) (simp_all add: engine_ok_def)
  ultimately show ?thesis
    by (intro exI [of _ st]) (simp add: SubmitJobAt_def Let_def on_store_def with_job_def enqueue_new_def)
qed

lemma SubmitJobIdempotent_new:
  assumes ok: "engine_ok so inv e" "id_left e" and k: "k \<noteq> []" "st_FindByIdempotencyKey so k (JobStore e) = None"
  shows "\<exists>st. let j = (NewJob (nextJobID e + 1) t p)\<lparr>IdempotencyKey := k\<rparr> in
    SubmitJobIdempotent so None k t p e = (Inr (j, False), with_job so j ThePriorityQueue st e) \<and>
    inv st \<and> st_Get so st = (st_Get so (JobStore e))(ID j \<mapsto> j)"
proof -
  let ?j = "(NewJob (nextJobID e + 1) t p)\<lparr>IdempotencyKey := k\<rparr>"
  have inv: "inv (JobStore e)" using ok by (simp add: engine_ok_def)
  have "IdempotencyKey j' \<noteq> k" if "st_Get so (JobStore e) i = Some j'" for i j'
    using that Find_abs [OF inv, of k j'] k Get_ID [OF inv that] by (auto simp: Get_abs [OF inv])
  then obtain st where a: "st_Add so ?j (JobStore e) = (None, st)" "inv st"
      "st_Get so st = (st_Get so (JobStore e))(nextJobID e + 1 \<mapsto> ?j)"
    using add_job_effect [OF ok, of ?j] by auto
  moreover have n: "next_id e = (nextJobID e + 1, e\<lparr>nextJobID := nextJobID e + 1\<rparr>)"
    using ok by (intro next_id_exact) (simp_all add: engine_ok_def)
  ultimately show ?thesis using k
    by (intro exI [of _ st]) (simp add: SubmitJobIdempotent_def Let_def on_store_def with_job_def enqueue_new_def)
qed

text \<open>Every submission keeps the invariant.\<close>

lemma SubmitJob_ok:
  assumes "engine_ok so inv e" "id_left e"
  shows "engine_ok so inv (snd (SubmitJob so None t p e))"
  using SubmitJob_effect [OF assms, of t p] with_job_ok [OF assms, of "NewJob (nextJobID e + 1) t p" ThePriorityQueue]
  by (auto simp: Let_def goes_to_def)

lemma SubmitJobAt_ok:
  assumes "engine_ok so inv e" "id_left e"
  shows "engine_ok so inv (snd (SubmitJobAt so None t p runAt e))"
  using SubmitJobAt_effect [OF assms, where t = t and p = p and runAt = runAt]
    with_job_ok [OF assms, of "(NewJob (nextJobID e + 1) t p)\<lparr>Status := Scheduled, NextRunAt := runAt\<rparr>" TheDelayQueue]
  by (auto simp: Let_def goes_to_def)

lemma SubmitJobIdempotent_ok:
  assumes "engine_ok so inv e" "id_left e"
  shows "engine_ok so inv (snd (SubmitJobIdempotent so None k t p e))"
proof (cases "k = [] \<or> st_FindByIdempotencyKey so k (JobStore e) \<noteq> None")
  case True
  then show ?thesis using assms SubmitJob_ok [OF assms, of t p]
    by (auto simp: SubmitJobIdempotent_def split: prod.splits sum.splits)
next
  case False
  then show ?thesis using SubmitJobIdempotent_new [OF assms, of k t p]
      with_job_ok [OF assms, of "(NewJob (nextJobID e + 1) t p)\<lparr>IdempotencyKey := k\<rparr>" ThePriorityQueue]
    by (auto simp: Let_def goes_to_def)
qed

text \<open>
  Cancelling and deleting only touch the store: no new job appears, and what is left of a job
  that was tracked is tracked.
\<close>

lemma store_call_ok:
  assumes ok: "engine_ok so inv e" and st: "inv st"
    and g: "\<And>i j'. st_Get so st i = Some j' \<Longrightarrow> \<exists>j. st_Get so (JobStore e) i = Some j \<and> (Status j' = Status j \<or> terminal (Status j'))"
  shows "engine_ok so inv (e\<lparr>eScheduler := (eScheduler e)\<lparr>sStore := st\<rparr>\<rparr>)"
proof -
  have "tracked so ((eScheduler e)\<lparr>sStore := st\<rparr>)"
    unfolding tracked_but_def
  proof (intro allI impI)
    fix i j' assume "sched_get so ((eScheduler e)\<lparr>sStore := st\<rparr>) i = Some j'"
    then obtain j where j: "sched_get so (eScheduler e) i = Some j" "Status j' = Status j \<or> terminal (Status j')"
      using g by (auto simp: sched_get_def)
    have "(Status j = Pending \<longrightarrow> i \<in># queue_ids (PriorityQueue (eScheduler e)) \<or> lease_Get i (Leases (eScheduler e)) \<noteq> None) \<and>
        (Status j = Scheduled \<longrightarrow> i \<in># queue_ids (DelayQueue (eScheduler e)))"
      using ok j(1) unfolding engine_ok_def tracked_but_def by blast
    then show "(Status j' = Pending \<longrightarrow> i \<in># queue_ids (PriorityQueue ((eScheduler e)\<lparr>sStore := st\<rparr>)) \<or>
          lease_Get i (Leases ((eScheduler e)\<lparr>sStore := st\<rparr>)) \<noteq> None) \<and>
        (Status j' = Scheduled \<longrightarrow> i \<in># queue_ids (DelayQueue ((eScheduler e)\<lparr>sStore := st\<rparr>)))"
      using j(2) by (cases "Status j' = Status j") (auto simp: terminal_def)
  qed
  then show ?thesis using ok st g by (fastforce simp: engine_ok_def)
qed

lemma Cancel_stored:
  assumes inv: "inv s" and "st_Get so (snd (st_Cancel so k s)) i = Some j'"
  shows "\<exists>j. st_Get so s i = Some j \<and> (Status j' = Status j \<or> terminal (Status j'))"
proof (cases "st_Cancel so k s")
  case (Pair r s')
  show ?thesis
  proof (cases r)
    case None
    obtain x where x: "aJobs (abs s) k = Some x" "abs s' = aPut (x\<lparr>Status := Cancelled\<rparr>) (abs s)" and v: "inv s'"
      using Pair None Cancel_ok [OF inv, of k s'] by (auto simp: aCancel_def split: option.splits if_splits)
    then have "ID x = k" using inv_abs [OF inv] by (simp add: aInv_def)
    with x v Pair assms show ?thesis by (cases "i = k") (auto simp: aPut_def Get_abs)
  next
    case (Some e)
    with Pair Cancel_err [OF inv, of k e s'] assms show ?thesis by auto
  qed
qed

lemma Delete_stored:
  assumes inv: "inv s"
  shows "inv (snd (st_Delete so k s))" "st_Get so (snd (st_Delete so k s)) i = Some j \<Longrightarrow> st_Get so s i = Some j"
proof -
  obtain b r s' where p: "st_Delete so k s = ((b, r), s')" by (metis prod.collapse)
  have "inv s' \<and> (st_Get so s' i = Some j \<longrightarrow> st_Get so s i = Some j)"
    using Delete_err [OF inv, of k b _ s'] Delete_ok [OF inv, of k b s'] p inv
    by (cases r) (auto simp: Get_abs aDelete_def split: if_splits)
  then show "inv (snd (st_Delete so k s))" "st_Get so (snd (st_Delete so k s)) i = Some j \<Longrightarrow> st_Get so s i = Some j"
    using p by simp_all
qed

lemma cron_calls_stored:
  assumes inv: "inv s"
  shows "inv (snd (st_AddCron so c s))" "st_Get so (snd (st_AddCron so c s)) = st_Get so s"
    "inv (snd (st_DeleteCron so k s))" "st_Get so (snd (st_DeleteCron so k s)) = st_Get so s"
proof -
  obtain r s' where p: "st_AddCron so c s = (r, s')" by fastforce
  have "inv s' \<and> st_Get so s' = st_Get so s"
    using AddCron_err [OF inv, of c _ s'] AddCron_ok [OF inv, of c s'] p inv by (cases r) (auto simp: Get_abs)
  then show "inv (snd (st_AddCron so c s))" "st_Get so (snd (st_AddCron so c s)) = st_Get so s" using p by simp_all
  obtain b r' s'' where q: "st_DeleteCron so k s = ((b, r'), s'')" by (metis prod.collapse)
  have "inv s'' \<and> st_Get so s'' = st_Get so s"
    using DeleteCron_err [OF inv, of k b _ s''] DeleteCron_ok [OF inv, of k b s''] q inv
    by (cases r') (auto simp: Get_abs)
  then show "inv (snd (st_DeleteCron so k s))" "st_Get so (snd (st_DeleteCron so k s)) = st_Get so s" using q by simp_all
qed

lemma on_store_ok:
  assumes "engine_ok so inv e" "inv (snd (f (JobStore e)))"
    "\<And>i j'. st_Get so (snd (f (JobStore e))) i = Some j' \<Longrightarrow>
      \<exists>j. st_Get so (JobStore e) i = Some j \<and> (Status j' = Status j \<or> terminal (Status j'))"
  shows "engine_ok so inv (snd (on_store f e))"
  using store_call_ok [OF assms(1), of "snd (f (JobStore e))"] assms(2,3) by (auto simp: on_store_def split: prod.split)

lemma CancelJob_ok: "engine_ok so inv e \<Longrightarrow> engine_ok so inv (snd (CancelJob so None i e))"
  using on_store_ok [of e "st_Cancel so i"] Cancel_snd_inv [of "JobStore e" i] Cancel_stored [of "JobStore e" i]
  by (simp add: CancelJob_def engine_ok_def)

lemma DeleteJob_ok: "engine_ok so inv e \<Longrightarrow> engine_ok so inv (snd (DeleteJob so None i e))"
  using on_store_ok [of e "st_Delete so i"] Delete_stored [of "JobStore e" i]
  by (fastforce simp: DeleteJob_def engine_ok_def split: prod.splits)

lemma engine_ok_cron [simp]: "engine_ok so inv (e\<lparr>CronScheduler := cs\<rparr>) = engine_ok so inv e"
  by (simp add: engine_ok_def)

lemma AddCronJob_ok: "engine_ok so inv e \<Longrightarrow> engine_ok so inv (snd (AddCronJob so None off now i sch t p e))"
  using on_store_ok [of e "st_AddCron so \<lparr>cID = i, cSchedule = sch, cType = t, cPriority = p, cNextRun = 0\<rparr>"]
    cron_calls_stored [of "JobStore e"]
  by (auto simp: AddCronJob_def Let_def engine_ok_def split: prod.splits option.splits)

lemma RemoveCronJob_ok: "engine_ok so inv e \<Longrightarrow> engine_ok so inv (RemoveCronJob so None i e)"
  using on_store_ok [of e "st_DeleteCron so i"] cron_calls_stored [of "JobStore e"]
  by (simp add: RemoveCronJob_def Let_def engine_ok_def)

text \<open>A tick of the cron scheduler submits the due jobs one after the other.\<close>

lemma SubmitJobs_ok:
  "engine_ok so inv e \<Longrightarrow> nextJobID e + int (length cs) < 2 ^ 63 \<Longrightarrow>
    engine_ok so inv (fold (\<lambda>c e. snd (SubmitJob so None (cType c) (cPriority c) e)) cs e)"
proof (induction cs arbitrary: e)
  case (Cons c cs)
  have left: "id_left e" using Cons.prems(2) by simp
  have "nextJobID (snd (SubmitJob so None (cType c) (cPriority c) e)) = nextJobID e + 1"
    using SubmitJob_effect [OF Cons.prems(1) left, of "cType c" "cPriority c"] by (auto simp: Let_def with_job_def)
  then show ?case using Cons.IH [OF SubmitJob_ok [OF Cons.prems(1) left, of "cType c" "cPriority c"]] Cons.prems(2) by simp
qed simp

lemma engine_cron_tick_ok:
  assumes "engine_ok so inv e" "nextJobID e + int (length (fst (cron_tick off ord now (CronScheduler e)))) < 2 ^ 63"
  shows "engine_ok so inv (engine_cron_tick so None off ord now e)"
  using SubmitJobs_ok [of "e\<lparr>CronScheduler := snd (cron_tick off ord now (CronScheduler e))\<rparr>"
      "fst (cron_tick off ord now (CronScheduler e))"] assms
  by (auto simp: engine_cron_tick_def split: prod.splits)

end

text \<open>The in-memory store meets the contract.\<close>

interpretation meng: engine_store memory_ops mem_inv mem_abs
  by unfold_locales

section \<open>Properties\<close>

lemma mem_engine_New_ok: "engine_ok memory_ops mem_inv (engine_New now (config_Default env) NewMemoryStore)"
proof -
  have "mem_Get NewMemoryStore i = None" for i by (simp add: mem_Get_def NewMemoryStore_def)
  then show ?thesis
    by (simp add: engine_ok_def engine_New_def NewScheduler_def config_Default_def Let_def tracked_but_def sched_get_def)
qed

text \<open>
  C19. A submission to a standalone engine succeeds while IDs are left: the job gets the
  next ID, which no stored job has, it is stored as pending with no retries used, its ID is in
  the priority queue, every other job is as before, and the invariant (all jobs tracked,
  counter above all IDs) is kept.
\<close>

theorem submit_stores_and_queues:
  assumes "engine_ok memory_ops mem_inv e" "id_left e"
  shows "\<exists>e'. SubmitJob memory_ops None t p e = (Inr (NewJob (nextJobID e + 1) t p), e') \<and>
    mem_Get (JobStore e) (nextJobID e + 1) = None \<and>
    mem_Get (JobStore e') = (mem_Get (JobStore e))(nextJobID e + 1 \<mapsto> NewJob (nextJobID e + 1) t p) \<and>
    queue_ids (PriorityQueue (eScheduler e')) = add_mset (nextJobID e + 1) (queue_ids (PriorityQueue (eScheduler e))) \<and>
    engine_ok memory_ops mem_inv e'"
proof -
  obtain st where s: "SubmitJob memory_ops None t p e =
      (Inr (NewJob (nextJobID e + 1) t p), with_job memory_ops (NewJob (nextJobID e + 1) t p) ThePriorityQueue st e)"
      "mem_Get st = (mem_Get (JobStore e))(nextJobID e + 1 \<mapsto> NewJob (nextJobID e + 1) t p)"
    using meng.SubmitJob_effect [OF assms, of t p] by (auto simp: Let_def)
  have "mem_Get (JobStore e) (nextJobID e + 1) = None"
    using assms(1) by (force simp: engine_ok_def)
  then show ?thesis using s meng.SubmitJob_ok [OF assms, of t p] by (simp add: with_job_def)
qed

theorem submit_stores_and_queues_witness:
  "let e = engine_New 0 (config_Default (\<lambda>_. [])) NewMemoryStore
   in \<exists>e'. SubmitJob memory_ops None ''email'' 5 e = (Inr (NewJob 1 ''email'' 5), e') \<and>
        mem_Get (JobStore e') 1 = Some (NewJob 1 ''email'' 5) \<and> engine_ok memory_ops mem_inv e'"
proof -
  let ?e = "engine_New 0 (config_Default (\<lambda>_. [])) NewMemoryStore"
  have n: "nextJobID ?e = 0" by (simp add: engine_New_def Let_def)
  then show ?thesis using submit_stores_and_queues [OF mem_engine_New_ok, of 0 "\<lambda>_. []" "''email''" 5]
    by (auto simp: Let_def)
qed

lemma keyed_twice:
  assumes "engine_ok memory_ops mem_inv e" "id_left e" "k \<noteq> []"
  shows "\<exists>j dup e'. SubmitJobIdempotent memory_ops None k t p e = (Inr (j, dup), e') \<and> IdempotencyKey j = k \<and>
    (\<forall>t' p'. SubmitJobIdempotent memory_ops None k t' p' e' = (Inr (j, True), e'))"
proof (cases "mem_FindByIdempotencyKey k (JobStore e)")
  case None
  let ?j = "(NewJob (nextJobID e + 1) t p)\<lparr>IdempotencyKey := k\<rparr>"
  obtain st where s: "SubmitJobIdempotent memory_ops None k t p e = (Inr (?j, False), with_job memory_ops ?j ThePriorityQueue st e)"
      "mem_inv st" "mem_Get st = (mem_Get (JobStore e))(nextJobID e + 1 \<mapsto> ?j)"
    using meng.SubmitJobIdempotent_new [OF assms(1,2,3), where t = t and p = p] None by (auto simp: Let_def)
  have "mem_Get st (ID ?j) = Some ?j" using s(3) by simp
  then have "aJobs (mem_abs st) (ID ?j) = Some ?j" by (simp add: mem_Get_def mem_abs_def)
  then have "mem_FindByIdempotencyKey k st = Some ?j"
    using mem.Find_abs [OF s(2), of k ?j] assms(3) by simp
  then have "\<forall>t' p'. SubmitJobIdempotent memory_ops None k t' p' (with_job memory_ops ?j ThePriorityQueue st e) =
      (Inr (?j, True), with_job memory_ops ?j ThePriorityQueue st e)"
    using assms(3) by (simp add: SubmitJobIdempotent_def with_job_def)
  then show ?thesis using s(1) by auto
next
  case (Some j)
  have "mem_inv (JobStore e)" using assms(1) by (simp add: engine_ok_def)
  then have "IdempotencyKey j = k" using mem.Find_abs [of "JobStore e" k j] Some by simp
  then show ?thesis using Some assms(3) by (auto simp: SubmitJobIdempotent_def)
qed





text \<open>
  A restart recovers the schedule from the store alone: whatever well-formed contents the
  store has, \<open>Restore\<close> on a fresh engine succeeds, sets the counter to the largest ID, and puts
  every pending job into the priority queue and every scheduled job into the delay queue,
  each exactly once; the invariant holds afterwards.
\<close>

theorem restore_recovers_schedule:
  assumes "mem_inv st" "Restore memory_ops ord ord1 ord2 (engine_New now (config_Default env) st) = (r, e)"
  shows "r = None \<and> engine_ok memory_ops mem_inv e \<and> JobStore e = st \<and>
    nextJobID e = Max (insert 0 {i. mem_Get st i \<noteq> None}) \<and>
    count (queue_ids (PriorityQueue (eScheduler e))) i =
      (if \<exists>j. mem_Get st i = Some j \<and> Status j = Pending then 1 else 0) \<and>
    count (queue_ids (DelayQueue (eScheduler e))) i =
      (if \<exists>j. mem_Get st i = Some j \<and> Status j = Scheduled then 1 else 0)"
proof -
  let ?e = "engine_New now (config_Default env) st"
  have e: "JobStore ?e = st" "queue_ids (PriorityQueue (eScheduler ?e)) = {#}" "queue_ids (DelayQueue (eScheduler ?e)) = {#}"
    "lease_inv (Leases (eScheduler ?e))"
    by (simp_all add: engine_New_def NewScheduler_def config_Default_def Let_def)
  obtain s where s: "Restore memory_ops ord ord1 ord2 ?e =
        (None, ?e\<lparr>nextJobID := Max (insert 0 {i. mem_Get st i \<noteq> None}), eScheduler := s\<rparr>)"
      "RebuildQueuesFromStore memory_ops ord1 ord2 (eScheduler ?e) = (None, s)"
      "engine_ok memory_ops mem_inv (snd (Restore memory_ops ord ord1 ord2 ?e))"
    using memq.Restore_effect [of ?e ord ord1 ord2] e assms(1) by auto
  show ?thesis
    using s assms(2) memq.Rebuild_counts(1,2) [OF _ s(2), of i] memq.Rebuild_counts(3) [OF _ s(2)] assms(1) e by (auto simp: sched_get_def)
qed

theorem restore_recovers_schedule_witness:
  "let st = snd (mem_Add example_job NewMemoryStore);
       (r, e) = Restore memory_ops [] [] [] (engine_New 0 (config_Default (\<lambda>_. [])) st)
   in r = None \<and> count (queue_ids (PriorityQueue (eScheduler e))) 1 = 1"
proof -
  let ?st = "snd (mem_Add example_job NewMemoryStore)"
  obtain r e where s: "Restore memory_ops [] [] [] (engine_New 0 (config_Default (\<lambda>_. [])) ?st) = (r, e)" by fastforce
  have inv: "mem_inv ?st"
    by (rule mem_inv_fresh [OF mem_inv_New]) (simp add: aFresh_def mem_abs_def NewMemoryStore_def in_int64_def)
  have "mem_Get ?st 1 = Some example_job"
    by (simp add: mem_Get_def mem_Add_def Let_def NewMemoryStore_def)
  then show ?thesis using restore_recovers_schedule [OF inv s, of 1] s by (simp add: Let_def)
qed

text \<open>
  The start-up sequence of a standalone server queues every pending and every scheduled
  job twice, because \<open>Restore\<close> rebuilds the queues and \<open>Start\<close> rebuilds them again without
  emptying them.
\<close>

theorem startup_queues_jobs_twice:
  assumes "mem_inv st" "mem_Get st i = Some j"
  shows "let e = engine_Start memory_ops None ord3 ord4
           (snd (Restore memory_ops ord ord1 ord2 (engine_New now (config_Default env) st)))
         in (Status j = Pending \<longrightarrow> count (queue_ids (PriorityQueue (eScheduler e))) i = 2) \<and>
            (Status j = Scheduled \<longrightarrow> count (queue_ids (DelayQueue (eScheduler e))) i = 2)"
proof -
  let ?e = "engine_New now (config_Default env) st"
  have e: "JobStore ?e = st" "queue_ids (PriorityQueue (eScheduler ?e)) = {#}" "queue_ids (DelayQueue (eScheduler ?e)) = {#}"
    "lease_inv (Leases (eScheduler ?e))"
    by (simp_all add: engine_New_def NewScheduler_def config_Default_def Let_def)
  obtain s where s: "snd (Restore memory_ops ord ord1 ord2 ?e) = ?e\<lparr>nextJobID := Max (insert 0 {i. mem_Get st i \<noteq> None}), eScheduler := s\<rparr>"
      "RebuildQueuesFromStore memory_ops ord1 ord2 (eScheduler ?e) = (None, s)"
    using memq.Restore_effect [of ?e ord ord1 ord2] e assms(1) by auto
  have inv: "mem_inv (sStore s)" "sStore s = st" using memq.Rebuild_counts(3) [OF _ s(2)] assms(1) e(1) by auto
  obtain s' where s': "RebuildQueuesFromStore memory_ops ord3 ord4 s = (None, s')"
    using memq.Rebuild_succeeds [OF inv(1)] by blast
  have "eScheduler (engine_Start memory_ops None ord3 ord4 (snd (Restore memory_ops ord ord1 ord2 ?e))) = s'"
    using s(1) s' by (simp add: engine_Start_def)
  then show ?thesis
    using memq.Rebuild_counts(1,2) [OF _ s(2), of i] memq.Rebuild_counts(1,2) [OF inv(1) s', of i] inv e assms
    by (simp add: Let_def sched_get_def)
qed

theorem startup_queues_jobs_twice_witness:
  "let st = snd (mem_Add example_job NewMemoryStore);
       e = engine_Start memory_ops None [] [] (snd (Restore memory_ops [] [] [] (engine_New 0 (config_Default (\<lambda>_. [])) st)))
   in count (queue_ids (PriorityQueue (eScheduler e))) 1 = 2"
proof -
  let ?st = "snd (mem_Add example_job NewMemoryStore)"
  have inv: "mem_inv ?st"
    by (rule mem_inv_fresh [OF mem_inv_New]) (simp add: aFresh_def mem_abs_def NewMemoryStore_def in_int64_def)
  have g: "mem_Get ?st 1 = Some example_job"
    by (simp add: mem_Get_def mem_Add_def Let_def NewMemoryStore_def)
  show ?thesis using startup_queues_jobs_twice [OF inv g, of "[]" "[]" "[]" "[]" "[]" 0 "\<lambda>_. []"] by (simp add: Let_def)
qed

text \<open>
  Adding a cron job to a standalone engine stores it before it is checked: a job that the
  cron scheduler refuses (an unsupported schedule, an empty type, a negative priority, a
  known ID) is answered with an error and still stored, over an accepted one of the same ID, and the running
  schedule does not change.
\<close>

theorem refused_cron_job_is_stored:
  assumes "fst (cron_Add off now \<lparr>cID = i, cSchedule = sch, cType = t, cPriority = p, cNextRun = 0\<rparr> (CronScheduler e)) = Some err"
  shows "\<exists>e'. AddCronJob memory_ops None off now i sch t p e = (Some err, e') \<and>
    map_of (mCrons (JobStore e')) i = Some \<lparr>cID = i, cSchedule = sch, cType = t, cPriority = p, cNextRun = 0\<rparr> \<and>
    CronScheduler e' = CronScheduler e"
proof -
  let ?c = "\<lparr>cID = i, cSchedule = sch, cType = t, cPriority = p, cNextRun = 0\<rparr>"
  have "cron_Add off now ?c (CronScheduler e) = (Some err, CronScheduler e)"
    using assms cron_Add_error [OF assms] by (metis prod.collapse)
  then show ?thesis by (simp add: AddCronJob_def on_store_def mem_AddCron_def Let_def)
qed

theorem refused_cron_job_is_stored_witness:
  "let e = engine_New 0 (config_Default (\<lambda>_. [])) NewMemoryStore
   in \<exists>e'. AddCronJob memory_ops None 0 0 ''c'' ''0 12 * * *'' ''email'' 1 e = (Some ECronSchedule, e') \<and>
        map_of (mCrons (JobStore e')) ''c'' \<noteq> None \<and> CronScheduler e' = []"
proof -
  let ?e = "engine_New 0 (config_Default (\<lambda>_. [])) NewMemoryStore"
  have c: "CronScheduler ?e = []" by (simp add: engine_New_def cron_New_def Let_def)
  have "fst (cron_Add 0 0 \<lparr>cID = ''c'', cSchedule = ''0 12 * * *'', cType = ''email'', cPriority = 1, cNextRun = 0\<rparr> []) = Some ECronSchedule"
    by code_simp
  then show ?thesis using refused_cron_job_is_stored [of 0 0 "''c''" "''0 12 * * *''" "''email''" 1 ?e ECronSchedule] c
    by (auto simp: Let_def)
qed

text \<open>
  Leadership is followed correctly as long as claims and step-downs alternate: after a
  step-down no scheduler of this node runs and no lease is left. Two claims in a row, which the
  consensus library may deliver when leadership is lost and regained while the first claim is
  handled, leave a scheduler running that nothing can stop: it survives the next step-down.
\<close>

theorem second_claim_leaks_scheduler:
  assumes "running w = 0" "\<not> schedCancel w"
  shows "running (watchLeadership so o3 o4 False (watchLeadership so o1 o2 True w)) = 0 \<and>
    Leases (eScheduler (lwEngine (watchLeadership so o3 o4 False (watchLeadership so o1 o2 True w)))) = [] \<and>
    running (watchLeadership so o5 o6 False (watchLeadership so o3 o4 True (watchLeadership so o1 o2 True w))) = 1 \<and>
    \<not> schedCancel (watchLeadership so o5 o6 False (watchLeadership so o3 o4 True (watchLeadership so o1 o2 True w)))"
  using assms by (simp add: watchLeadership_def Let_def Clear_def)

theorem second_claim_leaks_scheduler_witness:
  "let w = \<lparr>lwEngine = engine_New 0 (config_Default (\<lambda>_. [])) NewMemoryStore, schedCancel = False, running = 0\<rparr>
   in running (watchLeadership memory_ops [] [] False (watchLeadership memory_ops [] [] True
        (watchLeadership memory_ops [] [] True w))) = 1"
  using second_claim_leaks_scheduler
    [of "\<lparr>lwEngine = engine_New 0 (config_Default (\<lambda>_. [])) NewMemoryStore, schedCancel = False, running = 0\<rparr>"
      memory_ops "[]" "[]" "[]" "[]" "[]" "[]"]
  by (simp add: Let_def)

text \<open>
  A node that becomes leader after it has applied entries of another leader hands out IDs
  that are taken: claiming the leadership rebuilds the queues but leaves the counter, so its
  first submission proposes an ID of the log and is refused.
\<close>

theorem new_leader_reuses_ids:
  "let e0 = engine_New 0 (config_Default (\<lambda>_. [])) NewMemoryStore;
       st = apply_log memory_ops [CommandJSON ((zero_command CmdAddJob)\<lparr>cmdJob := NewJob 1 ''email'' 5\<rparr>)] NewMemoryStore;
       w = watchLeadership memory_ops [] [] True
             \<lparr>lwEngine = e0\<lparr>eScheduler := (eScheduler e0)\<lparr>sStore := st\<rparr>\<rparr>, schedCancel = False, running = 0\<rparr>
   in fst (SubmitJob memory_ops (Some (single_node memory_ops)) ''sms'' 1 (lwEngine w)) =
        Inl (EWrap ''raft propose add_job failed'' (EJobExists 1))"
proof -
  let ?st = "snd (mem_Add (NewJob 1 ''email'' 5) NewMemoryStore)"
  have st: "apply_log memory_ops [CommandJSON ((zero_command CmdAddJob)\<lparr>cmdJob := NewJob 1 ''email'' 5\<rparr>)] NewMemoryStore = ?st"
    by (simp add: fsm_Apply_def split: prod.split option.split)
  have rb: "sStore (snd (RebuildQueuesFromStore memory_ops [] [] s)) = sStore s" for s :: "memory_store scheduler"
    by (simp add: RebuildQueuesFromStore_def Let_def enqueue_all split: sum.split)
  have "map_of (mJobs ?st) 1 = Some (NewJob 1 ''email'' 5)" by (simp add: mem_Add_def Let_def NewMemoryStore_def)
  then show ?thesis unfolding st Let_def
    by (simp add: rb watchLeadership_def SubmitJob_def next_id_def on_store_def ProposeAddJob_def Propose_def IsLeader_def
        single_node_def marshal_command_def time_marshals_def Day_def zero_cron_def fsm_Apply_def mem_Add_def [of "NewJob 1 ''sms'' 1"]
        engine_New_def wrap64_def Let_def)
qed

end
