(* ===== verification/Control_Plane.thy ===== *)
theory Control_Plane
  imports Engine
begin

text \<open>
  The control plane as one system: a standalone engine whose operations, scheduler loops,
  worker registry, reports and in-process workers interleave in any order. \<open>step\<close> is one atomic
  action of one goroutine; the invariants below hold in every reachable state of every
  interleaving.
\<close>

section \<open>How a stored job may change\<close>

definition same_job :: "job \<Rightarrow> job \<Rightarrow> bool" where
  "same_job j j' \<longleftrightarrow> ID j' = ID j \<and> Type j' = Type j \<and> Priority j' = Priority j \<and> MaxRetries j' = MaxRetries j \<and>
     IdempotencyKey j' = IdempotencyKey j \<and> (0 \<le> RetryCount j \<and> MaxRetries j < 2 ^ 63 \<longrightarrow> 0 \<le> RetryCount j')"

definition evolves :: "job \<Rightarrow> job \<Rightarrow> bool" where
  "evolves j j' \<longleftrightarrow> same_job j j' \<and> status_path (Status j) (Status j')"

lemma evolves_refl [simp, intro]: "evolves j j"
  by (auto simp: evolves_def same_job_def)

lemma evolves_trans: "evolves a b \<Longrightarrow> evolves b c \<Longrightarrow> evolves a c"
  by (auto simp: evolves_def same_job_def intro: status_path_trans)

text \<open>Jobs as the engine creates and keeps them: a named status and a sane retry budget.\<close>

definition sane :: "job \<Rightarrow> bool" where
  "sane j \<longleftrightarrow> named (Status j) \<and> 0 \<le> RetryCount j \<and> MaxRetries j < 2 ^ 63"

lemma named_path: "status_path s t \<Longrightarrow> named s \<Longrightarrow> named t"
  by (induction rule: status_path.induct) (auto simp: named_def IsValidTransition_terminal)

lemma evolves_sane: "evolves j j' \<Longrightarrow> sane j \<Longrightarrow> sane j'"
  using named_path by (auto simp: evolves_def same_job_def sane_def)

text \<open>
  From one map of jobs to the next: a job evolves or is deleted, and an ID that was not there
  is above \<open>n\<close>, with a sane job.
\<close>

definition jobs_step :: "int \<Rightarrow> job_lookup \<Rightarrow> job_lookup \<Rightarrow> bool" where
  "jobs_step n g g' \<longleftrightarrow>
     (\<forall>i j j'. g i = Some j \<longrightarrow> g' i = Some j' \<longrightarrow> evolves j j') \<and>
     (\<forall>i j'. g i = None \<longrightarrow> g' i = Some j' \<longrightarrow> n < i \<and> sane j')"

definition evolve_all :: "job_lookup \<Rightarrow> job_lookup \<Rightarrow> bool" where
  "evolve_all g g' \<longleftrightarrow> (\<forall>i j'. g' i = Some j' \<longrightarrow> (\<exists>j. g i = Some j \<and> evolves j j'))"

lemma evolve_all_refl [simp, intro]: "evolve_all g g"
  by (auto simp: evolve_all_def)

lemma evolve_all_trans: "evolve_all g g' \<Longrightarrow> evolve_all g' g'' \<Longrightarrow> evolve_all g g''"
  unfolding evolve_all_def by (meson evolves_trans)

lemma evolve_all_step: "evolve_all g g' \<Longrightarrow> jobs_step n g g'"
  unfolding jobs_step_def evolve_all_def by (metis option.inject option.simps(3))

lemma evolve_all_put: "g i = Some j \<Longrightarrow> evolves j j' \<Longrightarrow> evolve_all g (g(i \<mapsto> j'))"
  by (auto simp: evolve_all_def)

lemma jobs_step_new:
  "n < ID j \<Longrightarrow> g (ID j) = None \<Longrightarrow> sane j \<Longrightarrow> jobs_step n g (g(ID j \<mapsto> j))"
  by (simp add: jobs_step_def)

section \<open>The loops of the scheduler change jobs only in this way\<close>

lemma Dispatch_leases: "Dispatch so d now submit j s = (ok, s') \<Longrightarrow> lease_inv (Leases s) \<Longrightarrow> lease_inv (Leases s')"
  by (auto simp: Dispatch_def Let_def split: if_splits option.splits prod.splits)

lemma dispatch_iter_frames:
  assumes "dispatch_iter so d now submit s = (st, s')"
  shows "sStore s' = sStore s" "Results s' = Results s" "lease_inv (Leases s) \<Longrightarrow> lease_inv (Leases s')"
  using assms Dispatch_frames Dispatch_leases
  by (fastforce simp: dispatch_iter_def Let_def sched_get_def split: option.splits if_splits prod.splits)+

lemma recover_jobs_frames [simp]:
  "sStore (fold (recover_job so) is s) = sStore s" "Leases (fold (recover_job so) is s) = Leases s"
  by (induction "is" arbitrary: s) simp_all

lemma recover_worker_frames:
  "sStore (recover_worker so ord w s) = sStore s"
  "lease_inv (Leases s) \<Longrightarrow> lease_inv (Leases (recover_worker so ord w s))"
  using lease_inv_ReleaseByWorker [of "Leases s" ord w]
  by (cases "ReleaseByWorker ord w (Leases s)", simp add: recover_worker_def)+

lemma recover_job_results [simp]: "Results (recover_job so i s) = Results s"
  by (auto simp: recover_job_def enqueueJob_def split: option.splits)

lemma recover_worker_results [simp]: "Results (recover_worker so ord w s) = Results s"
proof -
  have "Results (fold (recover_job so) is s) = Results s" for "is" and s :: "'a scheduler"
    by (induction "is" arbitrary: s) simp_all
  then show ?thesis by (simp add: recover_worker_def split: prod.split)
qed

text \<open>The two versions a failed attempt writes.\<close>

lemma same_job_retry: "RetryCount j < MaxRetries j \<Longrightarrow> same_job j ((retry_job e j)\<lparr>NextRunAt := t\<rparr>)"
  by (auto simp: same_job_def retry_job_def wrap64_def)

lemma same_job_failed: "same_job j (failed_job e j)"
  by (auto simp: same_job_def failed_job_def)

lemma same_job_status: "same_job j (j\<lparr>Status := st\<rparr>)"
  by (auto simp: same_job_def)

context engine_store
begin

lemma Update_evolves:
  assumes inv: "inv s" and g: "\<And>j. st_Get so s (ID u) = Some j \<Longrightarrow> same_job j u"
  shows "evolve_all (st_Get so s) (st_Get so (snd (st_Update so u s)))" "inv (snd (st_Update so u s))"
proof -
  have "IdempotencyKey old = IdempotencyKey u" if "aJobs (abs s) (ID u) = Some old" for old
    using g [of old] that by (simp add: Get_abs [OF inv] same_job_def)
  then show v: "inv (snd (st_Update so u s))"
    by (intro Update_snd_inv [OF inv]) (simp add: aSameKey_def)
  show "evolve_all (st_Get so s) (st_Get so (snd (st_Update so u s)))"
  proof (cases "st_Get so s (ID u)")
    case None
    then have "st_Get so (snd (st_Update so u s)) = st_Get so s"
      using Update_effect(1) [OF inv, of u] by (simp add: Get_abs inv v aUpdate_def)
    then show ?thesis by auto
  next
    case (Some j)
    then have k: "IdempotencyKey u = IdempotencyKey j" using g by (simp add: same_job_def)
    have "IsValidTransition (Status j) (Status u) \<Longrightarrow> evolves j u"
      using g [OF Some] path_step [OF path_refl] by (simp add: evolves_def)
    then show ?thesis
      using Get_Update(2) [OF inv Some refl k] evolve_all_put [of "st_Get so s" "ID u" j u] Some
        evolve_all_refl [of "st_Get so s"] by (auto split: if_splits)
  qed
qed

lemma AddDLQ_Get: "inv s \<Longrightarrow> st_Get so (snd (st_AddDLQ so j s)) = st_Get so s"
  using AddDLQ_snd [of s j] by (simp add: Get_abs)

lemma handle_result_evolves:
  assumes inv: "inv (sStore s)" and r: "handle_result so now r s = Some s'"
  shows "evolve_all (sched_get so s) (sched_get so s')" "Results s' = Results s"
    "lease_inv (Leases s) \<Longrightarrow> lease_inv (Leases s')"
proof -
  have up: "evolve_all (sched_get so s) (st_Get so (snd (st_Update so u (sStore s))))" "inv (snd (st_Update so u (sStore s)))"
    if "sched_get so s (rJobID r) = Some j" "same_job j u" for u j
    using Update_evolves [OF inv, of u] Get_ID [OF inv, of "rJobID r" j] that
    by (simp_all add: same_job_def sched_get_def)
  have "evolve_all (sched_get so s) (sched_get so s') \<and> Results s' = Results s \<and>
      (lease_inv (Leases s) \<longrightarrow> lease_inv (Leases s'))"
    using r
  proof (cases rule: handle_result_cases)
    case ignored
    then show ?thesis by simp
  next
    case (succeeded j)
    then show ?thesis using up(1) [OF _ same_job_status] by (simp add: sched_get_def)
  next
    case (retried j e t)
    then show ?thesis using up(1) [OF _ same_job_retry] by (simp add: sched_get_def)
  next
    case (dead j e)
    then show ?thesis using up [OF _ same_job_failed, of j e] AddDLQ_Get by (simp add: sched_get_def)
  qed
  then show "evolve_all (sched_get so s) (sched_get so s')" "Results s' = Results s"
    "lease_inv (Leases s) \<Longrightarrow> lease_inv (Leases s')" by auto
qed

lemma delay_step_evolves:
  assumes inv: "inv (sStore s)" and r: "delay_step so now s = Some s'"
  shows "evolve_all (sched_get so s) (sched_get so s') \<and> Results s' = Results s \<and> Leases s' = Leases s"
proof -
  obtain i where i: "Peek (DelayQueue s) = Some i" using r by (auto simp: delay_step_def split: option.splits)
  show ?thesis
  proof (cases "sched_get so s i")
    case None
    then show ?thesis using r i by (auto simp: delay_step_def sched_get_def)
  next
    case (Some j)
    let ?u = "j\<lparr>Status := Pending\<rparr>"
    have g: "st_Get so (sStore s) (ID ?u) = Some j" using Get_ID [OF inv, of i j] Some by (simp add: sched_get_def)
    obtain e st where u: "st_Update so ?u (sStore s) = (e, st)" by fastforce
    have "evolve_all (sched_get so s) (st_Get so st)"
      using Update_evolves(1) [OF inv, of ?u] g u by (simp add: sched_get_def same_job_status)
    then show ?thesis using r i Some u
      by (auto simp: delay_step_def sched_get_def enqueueJob_def Let_def split: if_splits option.splits)
  qed
qed

lemma ProcessDelayedJobs_evolves:
  "inv (sStore s) \<Longrightarrow> tracked so s \<Longrightarrow>
    evolve_all (sched_get so s) (sched_get so (ProcessDelayedJobs so clock s)) \<and>
    Results (ProcessDelayedJobs so clock s) = Results s \<and> Leases (ProcessDelayedJobs so clock s) = Leases s"
proof (induction "size (queue_ids (DelayQueue s))" arbitrary: s clock rule: less_induct)
  case less
  show ?case
  proof (cases "delay_step so (clock 0) s")
    case None
    then show ?thesis by (simp add: ProcessDelayedJobs.simps [of so clock s])
  next
    case (Some s')
    have "evolve_all (sched_get so s') (sched_get so (ProcessDelayedJobs so (\<lambda>n. clock (Suc n)) s')) \<and>
        Results (ProcessDelayedJobs so (\<lambda>n. clock (Suc n)) s') = Results s' \<and>
        Leases (ProcessDelayedJobs so (\<lambda>n. clock (Suc n)) s') = Leases s'"
      using less.hyps [OF delay_step_size [OF Some]] delay_step_tracked [OF less.prems Some] by blast
    then show ?thesis using delay_step_evolves [OF less.prems(1) Some] Some
      by (auto simp: ProcessDelayedJobs.simps [of so clock s] intro: evolve_all_trans)
  qed
qed

lemma delay_iter_ok:
  assumes inv: "inv (sStore s)" and t: "tracked so s"
  shows "tracked so (delay_iter so now clock s)" "inv (sStore (delay_iter so now clock s))"
    "evolve_all (sched_get so s) (sched_get so (delay_iter so now clock s))"
    "Results (delay_iter so now clock s) = Results s" "Leases (delay_iter so now clock s) = Leases s"
proof -
  have "tracked so (delay_iter so now clock s) \<and> inv (sStore (delay_iter so now clock s)) \<and>
    evolve_all (sched_get so s) (sched_get so (delay_iter so now clock s)) \<and>
    Results (delay_iter so now clock s) = Results s \<and> Leases (delay_iter so now clock s) = Leases s"
  proof (cases "Peek (DelayQueue s)")
    case None
    then show ?thesis using assms by (simp add: delay_iter_def)
  next
    case (Some i)
    show ?thesis
    proof (cases "sched_get so s i")
      case None
      have g: "sched_get so (drop_delayed so s) = sched_get so s" by (simp add: sched_get_def)
      have "delay_step so now s = Some (drop_delayed so s)" using Some None by (simp add: delay_step_def)
      then have "tracked so (drop_delayed so s)" using delay_step_tracked [OF assms] by blast
      then show ?thesis using Some None inv g by (simp add: delay_iter_def)
    next
      case (Some j)
      then show ?thesis
        using ProcessDelayedJobs_tracked [OF assms] ProcessDelayedJobs_evolves [OF assms] assms \<open>Peek (DelayQueue s) = Some i\<close>
        by (simp add: delay_iter_def)
    qed
  qed
  then show "tracked so (delay_iter so now clock s)" "inv (sStore (delay_iter so now clock s))"
    "evolve_all (sched_get so s) (sched_get so (delay_iter so now clock s))"
    "Results (delay_iter so now clock s) = Results s" "Leases (delay_iter so now clock s) = Leases s" by auto
qed

end

section \<open>The system\<close>

text \<open>
  A copy of a job that a worker holds: made from the stored job at some earlier time.
\<close>

definition copy_of :: "job \<Rightarrow> job \<Rightarrow> bool" where
  "copy_of j0 j \<longleftrightarrow> same_job j0 j \<and> 0 \<le> RetryCount j"

text \<open>The version of the job that the runner stores at the end of an execution.\<close>

definition final_job :: "error option \<Rightarrow> job \<Rightarrow> job" where
  "final_job outcome j =
     (case outcome of
        None \<Rightarrow> j\<lparr>Status := Completed\<rparr>
      | Some e \<Rightarrow> if is_canceled e then j\<lparr>Status := Cancelled\<rparr> else failed_job e j)"

lemma final_job_copy:
  "copy_of j0 j \<Longrightarrow> same_job j0 (final_job outcome j) \<and> ID (final_job outcome j) = ID j \<and> terminal (Status (final_job outcome j))"
  by (cases outcome) (simp_all add: final_job_def copy_of_def same_job_def failed_job_def)

lemma execute_end_store:
  "rnHasStore r \<Longrightarrow> snd (execute_end so outcome j (r, st)) = snd (st_Update so (final_job outcome j) st)"
  by (auto simp: execute_end_def runner_update_def final_job_def failed_job_def split: option.split)

text \<open>
  The actions: client calls (\<open>submit\<close> to \<open>remove_cron\<close>), the cron scheduler, the four loops of
  the scheduler, the monitor, the calls of remote workers, eviction by an operator, and the
  end of an execution on an in-process worker. \<open>submit_outcome\<close> is any behaviour of the workers
  on \<open>Submit\<close>. The engine's context lives, and IDs are left where one is drawn.
\<close>

inductive step :: "'s store_ops \<Rightarrow> 's engine \<Rightarrow> 's engine \<Rightarrow> bool" for so where
  submit: "id_left e \<Longrightarrow> step so e (snd (SubmitJob so None t p e))"
| submit_at: "id_left e \<Longrightarrow> step so e (snd (SubmitJobAt so None t p runAt e))"
| submit_key: "id_left e \<Longrightarrow> step so e (snd (SubmitJobIdempotent so None k t p e))"
| cancel: "step so e (snd (CancelJob so None i e))"
| delete: "step so e (snd (DeleteJob so None i e))"
| add_cron: "step so e (snd (AddCronJob so None off now c sch t p e))"
| remove_cron: "step so e (RemoveCronJob so None c e)"
| cron: "nextJobID e + int (length (fst (cron_tick off ord now (CronScheduler e)))) < 2 ^ 63 \<Longrightarrow>
    step so e (engine_cron_tick so None off ord now e)"
| dispatch: "dispatch_iter so False now submit_outcome (eScheduler e) = (st, s') \<Longrightarrow> step so e (e\<lparr>eScheduler := s'\<rparr>)"
| result: "try_recv (Results (eScheduler e)) = Some (r, ch) \<Longrightarrow>
    handle_result so now r ((eScheduler e)\<lparr>Results := ch\<rparr>) = Some s' \<Longrightarrow> step so e (e\<lparr>eScheduler := s'\<rparr>)"
| delay: "step so e (e\<lparr>eScheduler := delay_iter so now clock (eScheduler e)\<rparr>)"
| timer: "delay_resume so clock wake (eScheduler e) = Some s' \<Longrightarrow> step so e (e\<lparr>eScheduler := s'\<rparr>)"
| recover: "try_recv (DeadWorkers (Manager (eScheduler e))) = Some (w, ch) \<Longrightarrow>
    step so e (e\<lparr>eScheduler := recover_worker so ord w
      ((eScheduler e)\<lparr>Manager := (Manager (eScheduler e))\<lparr>DeadWorkers := ch\<rparr>\<rparr>)\<rparr>)"
| monitor: "step so e (e\<lparr>eScheduler := (eScheduler e)\<lparr>Manager := monitor_tick now timeout ord (Manager (eScheduler e))\<rparr>\<rparr>)"
| register: "rpc_RegisterWorker dial ref now req (Manager (eScheduler e)) = (ok, m) \<Longrightarrow>
    step so e (e\<lparr>eScheduler := (eScheduler e)\<lparr>Manager := m\<rparr>\<rparr>)"
| heartbeat: "step so e (e\<lparr>eScheduler := (eScheduler e)\<lparr>Manager := rpc_Heartbeat now i (Manager (eScheduler e))\<rparr>\<rparr>)"
| report: "ReportResult req ctxDone pick (eScheduler e) = Some (ack, s') \<Longrightarrow> step so e (e\<lparr>eScheduler := s'\<rparr>)"
| evict: "step so e (e\<lparr>eScheduler := (eScheduler e)\<lparr>Manager := Remove i (Manager (eScheduler e))\<rparr>\<rparr>)"
| local_worker: "st_Get so (JobStore e) (ID j) = Some j0 \<Longrightarrow> copy_of j0 j \<Longrightarrow>
    rnHasStore r \<Longrightarrow> rnResults r = Results (eScheduler e) \<Longrightarrow>
    execute_end so outcome j (r, JobStore e) = (r', st) \<Longrightarrow>
    step so e (e\<lparr>eScheduler := (eScheduler e)\<lparr>Results := rnResults r', sStore := st\<rparr>\<rparr>)"

text \<open>
  What every reachable state satisfies besides \<open>engine_ok\<close>: the stored jobs are
  sane, and an unsuccessful result carries an error.
\<close>

definition results_ok :: "result channel \<Rightarrow> bool" where
  "results_ok ch \<longleftrightarrow> (\<forall>r \<in> set (buf ch). \<not> rSuccess r \<longrightarrow> rError r \<noteq> None)"

definition system_ok :: "'s store_ops \<Rightarrow> ('s \<Rightarrow> bool) \<Rightarrow> 's engine \<Rightarrow> bool" where
  "system_ok so invar e \<longleftrightarrow> engine_ok so invar e \<and> results_ok (Results (eScheduler e)) \<and>
     (\<forall>i j. st_Get so (JobStore e) i = Some j \<longrightarrow> sane j)"

text \<open>What one action does: it keeps the invariant, and changes the jobs as \<open>jobs_step\<close> says.\<close>

definition good_step :: "'s store_ops \<Rightarrow> ('s \<Rightarrow> bool) \<Rightarrow> 's engine \<Rightarrow> 's engine \<Rightarrow> bool" where
  "good_step so invar e e' \<longleftrightarrow> engine_ok so invar e' \<and> results_ok (Results (eScheduler e')) \<and> nextJobID e \<le> nextJobID e' \<and>
     jobs_step (nextJobID e) (st_Get so (JobStore e)) (st_Get so (JobStore e'))"

lemma good_step_ok:
  assumes "system_ok so invar e" "good_step so invar e e'"
  shows "system_ok so invar e'"
proof -
  have "sane j'" if "st_Get so (JobStore e') i = Some j'" for i j'
  proof (cases "st_Get so (JobStore e) i")
    case None
    then show ?thesis using assms(2) that unfolding good_step_def jobs_step_def by blast
  next
    case (Some j)
    then have "evolves j j'" "sane j"
      using assms that unfolding good_step_def jobs_step_def system_ok_def by blast+
    then show ?thesis by (rule evolves_sane)
  qed
  then show ?thesis using assms(2) by (simp add: system_ok_def good_step_def)
qed

lemma results_ok_recv: "results_ok c \<Longrightarrow> try_recv c = Some (r, c') \<Longrightarrow> results_ok c' \<and> (\<not> rSuccess r \<longrightarrow> rError r \<noteq> None)"
  by (auto simp: results_ok_def try_recv_def split: list.splits)

lemma results_ok_send: "results_ok c \<Longrightarrow> (\<not> rSuccess r \<longrightarrow> rError r \<noteq> None) \<Longrightarrow> results_ok (snd (try_send r c))"
  by (auto simp: results_ok_def try_send_def)

lemma good_step_trans:
  assumes ok: "engine_ok so invar e" and a: "good_step so invar e e'" and b: "good_step so invar e' e''"
  shows "good_step so invar e e''"
proof -
  let ?g = "st_Get so (JobStore e)" and ?g' = "st_Get so (JobStore e')" and ?g'' = "st_Get so (JobStore e'')"
  have n: "nextJobID e \<le> nextJobID e'" using a by (simp add: good_step_def)
  have s: "jobs_step (nextJobID e) ?g ?g'" "jobs_step (nextJobID e') ?g' ?g''" using a b by (simp_all add: good_step_def)
  have "evolves j j''" if g: "?g i = Some j" "?g'' i = Some j''" for i j j''
  proof (cases "?g' i")
    case None
    then have "nextJobID e' < i" using s(2) g(2) unfolding jobs_step_def by blast
    then show ?thesis using ok g(1) n by (force simp: engine_ok_def)
  next
    case (Some j')
    then show ?thesis using s g evolves_trans [of j j' j''] unfolding jobs_step_def by blast
  qed
  moreover have "nextJobID e < i \<and> sane j''" if g: "?g i = None" "?g'' i = Some j''" for i j''
  proof (cases "?g' i")
    case None
    then show ?thesis using s(2) g(2) n unfolding jobs_step_def by force
  next
    case (Some j')
    then have "evolves j' j''" "nextJobID e < i" "sane j'"
      using s g unfolding jobs_step_def by blast+
    then show ?thesis using evolves_sane by blast
  qed
  ultimately show ?thesis using a b unfolding good_step_def jobs_step_def by force
qed

lemma tracked_frame:
  assumes "tracked so s" "sStore s' = sStore s" "Leases s' = Leases s" "PriorityQueue s' = PriorityQueue s" "DelayQueue s' = DelayQueue s"
  shows "tracked so s'"
proof -
  have "sched_get so s' = sched_get so s" using assms(2) by (simp add: sched_get_def)
  then show ?thesis using assms by (simp add: tracked_but_def)
qed

context engine_store
begin

lemma sched_good:
  assumes "engine_ok so inv e" "tracked so s'" "inv (sStore s')" "lease_inv (Leases s')" "results_ok (Results s')"
    "evolve_all (sched_get so (eScheduler e)) (sched_get so s')"
  shows "good_step so inv e (e\<lparr>eScheduler := s'\<rparr>)"
proof -
  have "i \<le> nextJobID e" if "st_Get so (sStore s') i = Some j'" for i j'
    using that assms(1,6) by (force simp: evolve_all_def engine_ok_def sched_get_def)
  then show ?thesis using assms evolve_all_step [of "sched_get so (eScheduler e)" "sched_get so s'" "nextJobID e"]
    by (simp add: good_step_def engine_ok_def sched_get_def)
qed

lemma frame_good:
  assumes "engine_ok so inv e" "sStore s' = JobStore e" "Leases s' = Leases (eScheduler e)"
    "PriorityQueue s' = PriorityQueue (eScheduler e)" "DelayQueue s' = DelayQueue (eScheduler e)" "results_ok (Results s')"
  shows "good_step so inv e (e\<lparr>eScheduler := s'\<rparr>)"
  using assms tracked_frame [of so "eScheduler e" s'] by (intro sched_good) (simp_all add: engine_ok_def sched_get_def)

lemma with_job_good:
  assumes "engine_ok so inv e" "id_left e" "ID j = nextJobID e + 1" "goes_to j q" "inv st"
    "st_Get so st = (st_Get so (JobStore e))(ID j \<mapsto> j)" "sane j"
    "results_ok (Results (eScheduler e))"
  shows "good_step so inv e (with_job so j q st e)"
proof -
  have "st_Get so (JobStore e) (ID j) = None" using assms(1,3) by (force simp: engine_ok_def)
  then have "jobs_step (nextJobID e) (st_Get so (JobStore e)) (st_Get so st)"
    using jobs_step_new [of "nextJobID e" j] assms(3,6,7) by simp
  then show ?thesis using with_job_ok [OF assms(1-6)] assms(3,8) by (simp add: good_step_def with_job_def)
qed

lemma SubmitJob_good:
  assumes "engine_ok so inv e" "id_left e" "results_ok (Results (eScheduler e))"
  shows "good_step so inv e (snd (SubmitJob so None t p e))"
  using SubmitJob_effect [OF assms(1,2), of t p]
    with_job_good [OF assms(1,2), of "NewJob (nextJobID e + 1) t p" ThePriorityQueue] assms(3)
  by (auto simp: Let_def goes_to_def sane_def named_def)

lemma SubmitJobAt_good:
  assumes "engine_ok so inv e" "id_left e" "results_ok (Results (eScheduler e))"
  shows "good_step so inv e (snd (SubmitJobAt so None t p runAt e))"
  using SubmitJobAt_effect [OF assms(1,2), where t = t and p = p and runAt = runAt]
    with_job_good [OF assms(1,2), of "(NewJob (nextJobID e + 1) t p)\<lparr>Status := Scheduled, NextRunAt := runAt\<rparr>" TheDelayQueue] assms(3)
  by (auto simp: Let_def goes_to_def sane_def named_def)

lemma good_refl: "engine_ok so inv e \<Longrightarrow> results_ok (Results (eScheduler e)) \<Longrightarrow> good_step so inv e e"
  by (simp add: good_step_def evolve_all_step)

lemma SubmitJobIdempotent_good:
  assumes "engine_ok so inv e" "id_left e" "results_ok (Results (eScheduler e))"
  shows "good_step so inv e (snd (SubmitJobIdempotent so None k t p e))"
proof (cases "k = [] \<or> st_FindByIdempotencyKey so k (JobStore e) \<noteq> None")
  case True
  then show ?thesis using assms SubmitJob_good [OF assms, of t p] good_refl [OF assms(1,3)]
    by (auto simp: SubmitJobIdempotent_def split: prod.splits sum.splits)
next
  case False
  then show ?thesis using SubmitJobIdempotent_new [OF assms(1,2), of k t p] assms(3)
      with_job_good [OF assms(1,2), of "(NewJob (nextJobID e + 1) t p)\<lparr>IdempotencyKey := k\<rparr>" ThePriorityQueue]
    by (auto simp: Let_def goes_to_def sane_def named_def)
qed

lemma SubmitJobs_good:
  "engine_ok so inv e \<Longrightarrow> results_ok (Results (eScheduler e)) \<Longrightarrow> nextJobID e + int (length cs) < 2 ^ 63 \<Longrightarrow>
    good_step so inv e (fold (\<lambda>c e. snd (SubmitJob so None (cType c) (cPriority c) e)) cs e)"
proof (induction cs arbitrary: e)
  case Nil
  then show ?case using good_refl by simp
next
  case (Cons c cs)
  let ?e = "snd (SubmitJob so None (cType c) (cPriority c) e)"
  have left: "id_left e" using Cons.prems(3) by simp
  have a: "good_step so inv e ?e" by (rule SubmitJob_good [OF Cons.prems(1) left Cons.prems(2)])
  have "nextJobID ?e = nextJobID e + 1"
    using SubmitJob_effect [OF Cons.prems(1) left, of "cType c" "cPriority c"] by (auto simp: Let_def with_job_def)
  then have "good_step so inv ?e (fold (\<lambda>c e. snd (SubmitJob so None (cType c) (cPriority c) e)) cs ?e)"
    using a Cons.prems(3) by (intro Cons.IH) (simp_all add: good_step_def)
  then show ?case using good_step_trans [OF Cons.prems(1) a] by simp
qed

lemma on_store_good:
  assumes ok: "system_ok so inv e" and v: "inv (snd (f (JobStore e)))"
    and g: "evolve_all (st_Get so (JobStore e)) (st_Get so (snd (f (JobStore e))))"
    and t: "engine_ok so inv (snd (on_store f e))"
  shows "good_step so inv e (snd (on_store f e))"
  using assms evolve_all_step [OF g]
  by (auto simp: good_step_def system_ok_def on_store_def split: prod.splits)

lemma Cancel_evolves:
  assumes inv: "inv s" and n: "\<And>i j. st_Get so s i = Some j \<Longrightarrow> named (Status j)"
  shows "evolve_all (st_Get so s) (st_Get so (snd (st_Cancel so k s)))"
proof (cases "st_Cancel so k s")
  case (Pair r s')
  show ?thesis
  proof (cases r)
    case None
    obtain y where y: "aJobs (abs s) k = Some y" "\<not> terminal (Status y)" "abs s' = aPut (y\<lparr>Status := Cancelled\<rparr>) (abs s)" "inv s'"
      using Pair None Cancel_ok [OF inv, of k s'] by (auto simp: aCancel_def split: option.splits if_splits)
    then obtain x where x: "st_Get so s k = Some x" "\<not> terminal (Status x)" "st_Get so s' = (st_Get so s)(ID x \<mapsto> x\<lparr>Status := Cancelled\<rparr>)"
      by (simp add: Get_abs inv aPut_def)
    have "IsValidTransition (Status x) Cancelled" using n [OF x(1)] x(2) by (auto simp: named_def)
    then have "evolves x (x\<lparr>Status := Cancelled\<rparr>)"
      using path_step [OF path_refl] by (simp add: evolves_def same_job_status)
    then show ?thesis using x evolve_all_put [of "st_Get so s" "ID x" x] Get_ID [OF inv x(1)] Pair by simp
  next
    case (Some e)
    with Pair Cancel_err [OF inv, of k e s'] show ?thesis by simp
  qed
qed

lemma client_calls_good:
  assumes ok: "system_ok so inv e"
  shows "good_step so inv e (snd (CancelJob so None i e))" "good_step so inv e (snd (DeleteJob so None i e))"
    "good_step so inv e (snd (AddCronJob so None off now c sch t p e))" "good_step so inv e (RemoveCronJob so None c e)"
proof -
  have e: "engine_ok so inv e" and inv: "inv (JobStore e)" using ok by (simp_all add: system_ok_def engine_ok_def)
  have n: "named (Status j)" if "st_Get so (JobStore e) i = Some j" for i j
    using that ok by (simp add: system_ok_def sane_def)
  show "good_step so inv e (snd (CancelJob so None i e))"
    using on_store_good [OF ok, of "st_Cancel so i"] Cancel_evolves [OF inv n] Cancel_snd_inv [OF inv] CancelJob_ok [OF e, of i]
    by (simp add: CancelJob_def)
  have "evolve_all (st_Get so (JobStore e)) (st_Get so (snd (st_Delete so i (JobStore e))))"
    using Delete_stored(2) [OF inv, of i] by (auto simp: evolve_all_def)
  moreover have d: "snd (DeleteJob so None i e) = snd (on_store (st_Delete so i) e)"
    by (simp add: DeleteJob_def split: prod.split)
  ultimately show "good_step so inv e (snd (DeleteJob so None i e))"
    using on_store_good [OF ok, of "st_Delete so i"] Delete_stored(1) [OF inv] DeleteJob_ok [OF e, of i] by simp
  have frame: "good_step so inv e (x\<lparr>CronScheduler := cs\<rparr>) = good_step so inv e x" for x cs
    by (simp add: good_step_def)
  let ?c = "\<lparr>cID = c, cSchedule = sch, cType = t, cPriority = p, cNextRun = 0\<rparr>"
  have a: "good_step so inv e (snd (on_store (st_AddCron so ?c) e))"
    using cron_calls_stored [OF inv] by (intro on_store_good [OF ok] on_store_ok [OF e]) auto
  show "good_step so inv e (snd (AddCronJob so None off now c sch t p e))"
    using a by (auto simp: AddCronJob_def Let_def frame split: prod.splits option.splits)
  have "good_step so inv e (snd (on_store (st_DeleteCron so c) e))"
    using cron_calls_stored [OF inv] by (intro on_store_good [OF ok] on_store_ok [OF e]) auto
  then show "good_step so inv e (RemoveCronJob so None c e)" by (simp add: RemoveCronJob_def Let_def frame)
qed

lemma cron_good:
  assumes "system_ok so inv e" "nextJobID e + int (length (fst (cron_tick off ord now (CronScheduler e)))) < 2 ^ 63"
  shows "good_step so inv e (engine_cron_tick so None off ord now e)"
proof -
  obtain due cs where c: "cron_tick off ord now (CronScheduler e) = (due, cs)" by fastforce
  have "good_step so inv (e\<lparr>CronScheduler := cs\<rparr>)
      (fold (\<lambda>c e. snd (SubmitJob so None (cType c) (cPriority c) e)) due (e\<lparr>CronScheduler := cs\<rparr>))"
    using assms c by (intro SubmitJobs_good) (simp_all add: system_ok_def)
  then show ?thesis by (simp add: engine_cron_tick_def c good_step_def)
qed

lemma dispatch_good:
  assumes ok: "system_ok so inv e" and d: "dispatch_iter so False now submit_outcome (eScheduler e) = (st, s')"
  shows "good_step so inv e (e\<lparr>eScheduler := s'\<rparr>)"
proof -
  have e: "engine_ok so inv e" "inv (JobStore e)" "tracked so (eScheduler e)" "lease_inv (Leases (eScheduler e))"
    "results_ok (Results (eScheduler e))" using ok by (simp_all add: system_ok_def engine_ok_def)
  have id: "ID j = i" if "sched_get so (eScheduler e) i = Some j" for i j
    using Get_ID [OF e(2)] that by (simp add: sched_get_def)
  have "tracked so s'" by (rule dispatch_iter_tracked [OF e(3) id d])
  then show ?thesis using dispatch_iter_frames [OF d] e by (intro sched_good) (simp_all add: sched_get_def)
qed

lemma result_good:
  assumes ok: "system_ok so inv e" and r: "try_recv (Results (eScheduler e)) = Some (r, ch)"
    and h: "handle_result so now r ((eScheduler e)\<lparr>Results := ch\<rparr>) = Some s'"
  shows "good_step so inv e (e\<lparr>eScheduler := s'\<rparr>)"
proof -
  let ?s = "(eScheduler e)\<lparr>Results := ch\<rparr>"
  have e: "engine_ok so inv e" "inv (sStore ?s)" "lease_inv (Leases ?s)" "results_ok ch"
    using ok results_ok_recv [OF _ r] by (simp_all add: system_ok_def engine_ok_def)
  have t: "tracked so ?s" by (rule tracked_frame [of so "eScheduler e"]) (use e(1) in \<open>simp_all add: engine_ok_def\<close>)
  have g: "sched_get so ?s = sched_get so (eScheduler e)" by (simp add: sched_get_def)
  show ?thesis using handle_result_tracked [OF e(2) t h] handle_result_evolves [OF e(2) h] e
    by (intro sched_good) (simp_all add: g)
qed

lemma delay_good:
  assumes ok: "system_ok so inv e"
  shows "good_step so inv e (e\<lparr>eScheduler := delay_iter so now clock (eScheduler e)\<rparr>)"
proof -
  have e: "engine_ok so inv e" "inv (JobStore e)" "tracked so (eScheduler e)" "lease_inv (Leases (eScheduler e))"
    "results_ok (Results (eScheduler e))" using ok by (simp_all add: system_ok_def engine_ok_def)
  show ?thesis using delay_iter_ok [OF e(2,3), of now clock] e by (intro sched_good) simp_all
qed

lemma timer_good:
  assumes ok: "system_ok so inv e" and r: "delay_resume so clock wake (eScheduler e) = Some s'"
  shows "good_step so inv e (e\<lparr>eScheduler := s'\<rparr>)"
proof -
  have e: "engine_ok so inv e" "inv (JobStore e)" "tracked so (eScheduler e)" "lease_inv (Leases (eScheduler e))"
    "results_ok (Results (eScheduler e))" using ok by (simp_all add: system_ok_def engine_ok_def)
  have "s' = eScheduler e \<or> s' = ProcessDelayedJobs so clock (eScheduler e)"
    using r by (auto simp: delay_resume_def split: delay_wake.splits)
  then show ?thesis
    using ProcessDelayedJobs_tracked [OF e(2,3), of clock] ProcessDelayedJobs_evolves [OF e(2,3), of clock] e
    by (intro sched_good) auto
qed

lemma recover_good:
  assumes ok: "system_ok so inv e"
  shows "good_step so inv e (e\<lparr>eScheduler := recover_worker so ord w ((eScheduler e)\<lparr>Manager := m\<rparr>)\<rparr>)"
proof -
  let ?s = "(eScheduler e)\<lparr>Manager := m\<rparr>"
  have e: "engine_ok so inv e" "inv (JobStore e)" "lease_inv (Leases ?s)" "results_ok (Results ?s)"
    using ok by (simp_all add: system_ok_def engine_ok_def)
  have t: "tracked so ?s" by (rule tracked_frame [of so "eScheduler e"]) (use e(1) in \<open>simp_all add: engine_ok_def\<close>)
  show ?thesis using tracked_recover_worker [OF t e(3), of ord w] recover_worker_frames(1) [of so ord w ?s]
      recover_worker_frames(2) [OF e(3), of so ord w] e
    by (intro sched_good) (simp_all add: sched_get_def)
qed

lemma manager_good:
  assumes "system_ok so inv e"
  shows "good_step so inv e (e\<lparr>eScheduler := (eScheduler e)\<lparr>Manager := m\<rparr>\<rparr>)"
  using assms by (intro frame_good) (simp_all add: system_ok_def)

lemma report_good:
  assumes ok: "system_ok so inv e" and r: "ReportResult req ctxDone pick (eScheduler e) = Some (ack, s')"
  shows "good_step so inv e (e\<lparr>eScheduler := s'\<rparr>)"
proof -
  have "results_ok (snd (try_send (reported_result req) (Results (eScheduler e))))"
    using ok by (intro results_ok_send) (simp_all add: system_ok_def reported_result_def)
  then show ?thesis using ok r
    by (intro frame_good) (auto simp: system_ok_def ReportResult_def Let_def split: prod.splits if_splits option.splits)
qed

lemma local_worker_good:
  assumes ok: "system_ok so inv e" and g: "st_Get so (JobStore e) (ID j) = Some j0" and c: "copy_of j0 j"
    and r: "rnHasStore r" "rnResults r = Results (eScheduler e)"
    and x: "execute_end so outcome j (r, JobStore e) = (r', st)"
  shows "good_step so inv e (e\<lparr>eScheduler := (eScheduler e)\<lparr>Results := rnResults r', sStore := st\<rparr>\<rparr>)"
proof -
  have e: "engine_ok so inv e" "inv (JobStore e)" "results_ok (Results (eScheduler e))"
    using ok by (simp_all add: system_ok_def engine_ok_def)
  let ?u = "final_job outcome j"
  have u: "st = snd (st_Update so ?u (JobStore e))" "ID ?u = ID j" "same_job j0 ?u" "terminal (Status ?u)"
    using execute_end_store [OF r(1), of so outcome j "JobStore e"] x final_job_copy [OF c, of outcome] by simp_all
  have up: "evolve_all (st_Get so (JobStore e)) (st_Get so st)" "inv st"
    using Update_evolves [OF e(2), of ?u] g u by simp_all
  have "\<exists>j. st_Get so (JobStore e) i = Some j \<and> (Status j' = Status j \<or> terminal (Status j'))" if "st_Get so st i = Some j'" for i j'
  proof -
    have k: "IdempotencyKey ?u = IdempotencyKey j0" using u(3) by (simp add: same_job_def)
    have "st_Get so st = (if IsValidTransition (Status j0) (Status ?u) then (st_Get so (JobStore e))(ID j \<mapsto> ?u) else st_Get so (JobStore e))"
      using Get_Update(2) [OF e(2) g u(2) k] u(1) by simp
    then show ?thesis using that g u(4) by (cases "i = ID j") (auto split: if_splits)
  qed
  from store_call_ok [OF e(1) up(2) this]
  have "engine_ok so inv (e\<lparr>eScheduler := (eScheduler e)\<lparr>sStore := st\<rparr>\<rparr>)" .
  then have t: "tracked so ((eScheduler e)\<lparr>sStore := st\<rparr>)" "lease_inv (Leases (eScheduler e))" by (simp_all add: engine_ok_def)
  have "results_ok (rnResults r')"
    using x r(2) e(3) execute_end_results [of so outcome j r "JobStore e"] by (fastforce simp: results_ok_def)
  then show ?thesis using e(1) up t tracked_frame [OF t(1), of "(eScheduler e)\<lparr>Results := rnResults r', sStore := st\<rparr>"]
    by (intro sched_good) (simp_all add: sched_get_def)
qed

lemma step_good:
  assumes "step so e e'" "system_ok so inv e"
  shows "good_step so inv e e'"
  using assms
proof (induction rule: step.induct)
  case (submit e t p)
  then show ?case by (intro SubmitJob_good) (simp_all add: system_ok_def)
next
  case (submit_at e t p runAt)
  then show ?case by (intro SubmitJobAt_good) (simp_all add: system_ok_def)
next
  case (submit_key e k t p)
  then show ?case by (intro SubmitJobIdempotent_good) (simp_all add: system_ok_def)
qed (auto intro: client_calls_good cron_good dispatch_good result_good delay_good timer_good recover_good manager_good
    report_good local_worker_good)

lemma steps_good:
  assumes "(step so)\<^sup>*\<^sup>* e e'" "system_ok so inv e"
  shows "good_step so inv e e'"
  using assms
proof (induction rule: rtranclp_induct)
  case base
  then show ?case using good_refl by (simp add: system_ok_def)
next
  case (step e1 e2)
  then show ?case using good_step_trans [of so inv e e1 e2] step_good [of e1 e2] good_step_ok [of so inv e e1]
    by (simp add: system_ok_def)
qed

lemma steps_ok: "(step so)\<^sup>*\<^sup>* e e' \<Longrightarrow> system_ok so inv e \<Longrightarrow> system_ok so inv e'"
  using steps_good good_step_ok by blast

end

section \<open>Reachable states of a server with the in-memory store\<close>

text \<open>
  A server starts on the contents an earlier run has left: \<open>Restore\<close> on a new engine, and
  then any actions in any order.
\<close>

definition started :: "(string \<Rightarrow> string) \<Rightarrow> memory_store \<Rightarrow> memory_store engine" where
  "started env st = snd (Restore memory_ops [] [] [] (engine_New 0 (config_Default env) st))"

definition left_by_earlier_run :: "memory_store \<Rightarrow> bool" where
  "left_by_earlier_run st \<longleftrightarrow> mem_inv st \<and> (\<forall>i j. mem_Get st i = Some j \<longrightarrow> sane j)"

abbreviation reaches :: "memory_store engine \<Rightarrow> memory_store engine \<Rightarrow> bool" where
  "reaches \<equiv> (step memory_ops)\<^sup>*\<^sup>*"

lemma Rebuild_results: "Results (snd (RebuildQueuesFromStore so ord1 ord2 s)) = Results s"
proof -
  have f: "Results (fold (\<lambda>j. enqueueJob so (ID j) q) js x) = Results x" for q js and x :: "'a scheduler"
    by (induction js arbitrary: x) simp_all
  show ?thesis by (simp add: RebuildQueuesFromStore_def Let_def f split: sum.split)
qed

lemma started_results: "Results (eScheduler (started env st)) = make_chan 100"
proof -
  have "eScheduler (started env st) = snd (RebuildQueuesFromStore memory_ops [] [] (eScheduler (engine_New 0 (config_Default env) st)))"
    by (simp add: started_def Restore_def split: prod.split)
  then show ?thesis by (simp add: Rebuild_results engine_New_def NewScheduler_def config_Default_def Let_def)
qed

lemma started_ok:
  assumes "left_by_earlier_run st"
  shows "system_ok memory_ops mem_inv (started env st)" "JobStore (started env st) = st"
proof -
  let ?e = "engine_New 0 (config_Default env) st"
  have e: "JobStore ?e = st" "lease_inv (Leases (eScheduler ?e))"
    by (simp_all add: engine_New_def NewScheduler_def config_Default_def Let_def)
  obtain s where s: "Restore memory_ops [] [] [] ?e = (None, ?e\<lparr>nextJobID := Max (insert 0 {i. mem_Get st i \<noteq> None}), eScheduler := s\<rparr>)"
      "RebuildQueuesFromStore memory_ops [] [] (eScheduler ?e) = (None, s)" "engine_ok memory_ops mem_inv (started env st)"
    using memq.Restore_effect [of ?e "[]" "[]" "[]"] e assms by (auto simp: left_by_earlier_run_def started_def)
  have inv: "mem_inv (sStore (eScheduler ?e))" using assms e(1) by (simp add: left_by_earlier_run_def)
  have "sStore s = st" using memq.Rebuild_effect [OF inv s(2)] e(1) by auto
  then have st: "JobStore (started env st) = st" using s(1) by (simp add: started_def)
  then show "JobStore (started env st) = st" .
  show "system_ok memory_ops mem_inv (started env st)"
    using s(3) st assms started_results [of env st] by (simp add: system_ok_def results_ok_def make_chan_def left_by_earlier_run_def)
qed

lemma new_store_ok: "left_by_earlier_run NewMemoryStore"
  by (simp add: left_by_earlier_run_def) (simp add: mem_Get_def NewMemoryStore_def)

lemma example_store_ok:
  "left_by_earlier_run (snd (mem_Add example_job NewMemoryStore))"
  "mem_Get (snd (mem_Add example_job NewMemoryStore)) 1 = Some example_job"
proof -
  have g: "mem_Get (snd (mem_Add example_job NewMemoryStore)) i = (if i = 1 then Some example_job else None)" for i
    by (simp add: mem_Get_def mem_Add_def Let_def NewMemoryStore_def)
  moreover have "sane example_job" by (simp add: sane_def named_def)
  moreover have "mem_inv (snd (mem_Add example_job NewMemoryStore))"
    by (rule mem_inv_fresh [OF mem_inv_New]) (simp add: aFresh_def mem_abs_def NewMemoryStore_def in_int64_def)
  ultimately show "left_by_earlier_run (snd (mem_Add example_job NewMemoryStore))"
    "mem_Get (snd (mem_Add example_job NewMemoryStore)) 1 = Some example_job"
    by (simp_all add: left_by_earlier_run_def)
qed

text \<open>An error with every failed attempt and a sane job are enough for a result not to panic.\<close>

lemma handle_result_returns:
  assumes "\<And>j. sched_get so s (rJobID r) = Some j \<Longrightarrow> sane j" "\<not> rSuccess r \<longrightarrow> rError r \<noteq> None"
  shows "handle_result so now r s \<noteq> None"
proof (cases "sched_get so s (rJobID r)")
  case None
  then show ?thesis by (simp add: handle_result_def)
next
  case (Some j)
  have "NextRetryTime (retry_job e j) MaxBackoff_default now \<noteq> None" if "RetryCount j < MaxRetries j" for e
    using that assms(1) [OF Some] by (simp add: NextRetryTime_def Backoff_def sane_def wrap64_def Let_def)
  then show ?thesis using assms(2)
    by (auto simp: handle_result_unfold [OF Some] ShouldRetry_def Let_def bind_eq_None_conv simp del: not_None_eq)
qed

section \<open>Dispatching\<close>

lemma dispatch_effect:
  assumes "chan_ok (Available (Manager s))" "sHasBroker s" "Dispatch so False now submit_outcome j s = (ok, s')"
  shows "(\<exists>w us vs. buf (Available (Manager s)) = us @ w # vs \<and> CanHandle (mgrBroker (Manager s)) (cl_ID w) (Type j) \<and>
      (\<forall>u \<in> set us. \<not> CanHandle (mgrBroker (Manager s)) (cl_ID u) (Type j)) \<and> buf (Available (Manager s')) = vs @ us \<and>
      (if submit_outcome w j = None
       then ok \<and> queue_ids (PriorityQueue s') = queue_ids (PriorityQueue s) \<and>
         lease_Get (ID j) (Leases s') = Some \<lparr>lJobID = ID j, lWorkerID = cl_ID w, lTerm = 1,
           lAttempt = (case lease_Get (ID j) (Leases s) of None \<Rightarrow> 1 | Some l \<Rightarrow> wrap64 (lAttempt l + 1)), lStartedAt = now\<rparr>
       else \<not> ok \<and> queue_ids (PriorityQueue s') = add_mset (ID j) (queue_ids (PriorityQueue s)) \<and>
         lease_Get (ID j) (Leases s') = None)) \<or>
    (\<forall>w \<in> set (buf (Available (Manager s))). \<not> CanHandle (mgrBroker (Manager s)) (cl_ID w) (Type j)) \<and>
      \<not> ok \<and> s' = enqueueJob so (ID j) ThePriorityQueue s"
proof -
  obtain r av where sel: "SelectWorker (mgrBroker (Manager s)) (Type j) (Available (Manager s)) = (r, av)" by fastforce
  from assms(1) sel show ?thesis
  proof (cases rule: SelectWorker_cases)
    case none
    then show ?thesis using assms(2,3) sel by (simp add: Dispatch_def Let_def)
  next
    case (some w us vs)
    then have "buf (Available (Manager s')) = vs @ us \<and>
      (if submit_outcome w j = None
       then ok \<and> queue_ids (PriorityQueue s') = queue_ids (PriorityQueue s) \<and>
         lease_Get (ID j) (Leases s') = Some \<lparr>lJobID = ID j, lWorkerID = cl_ID w, lTerm = 1,
           lAttempt = (case lease_Get (ID j) (Leases s) of None \<Rightarrow> 1 | Some l \<Rightarrow> wrap64 (lAttempt l + 1)), lStartedAt = now\<rparr>
       else \<not> ok \<and> queue_ids (PriorityQueue s') = add_mset (ID j) (queue_ids (PriorityQueue s)) \<and>
         lease_Get (ID j) (Leases s') = None)"
      using assms(2,3) sel
      by (cases "submit_outcome w j") (auto simp: Dispatch_def Let_def lease_Get_Acquire lease_Get_Release)
    then show ?thesis using some by blast
  qed
qed

text \<open>A job that no available worker can handle.\<close>

fun dispatch_iters :: "'s store_ops \<Rightarrow> (nat \<Rightarrow> time) \<Rightarrow> (worker_client \<Rightarrow> job \<Rightarrow> error option) \<Rightarrow> nat \<Rightarrow> 's scheduler \<Rightarrow> 's scheduler" where
  "dispatch_iters so clock submit_outcome 0 s = s"
| "dispatch_iters so clock submit_outcome (Suc n) s =
     snd (dispatch_iter so False (clock n) submit_outcome (dispatch_iters so clock submit_outcome n s))"

definition blocked :: "'s store_ops \<Rightarrow> int \<Rightarrow> job \<Rightarrow> 's scheduler \<Rightarrow> bool" where
  "blocked so i j s \<longleftrightarrow> prio_inv (sched_get so s) (PriorityQueue s) \<and> sHasBroker s \<and> chan_ok (Available (Manager s)) \<and>
     sched_get so s i = Some j \<and> ID j = i \<and> Status j = Pending \<and> i \<in># queue_ids (PriorityQueue s) \<and>
     (\<forall>k \<in># queue_ids (PriorityQueue s). k \<noteq> i \<longrightarrow> Priority (job_or_zero (sched_get so s) k) < Priority j) \<and>
     (\<forall>w \<in> set (buf (Available (Manager s))). \<not> CanHandle (mgrBroker (Manager s)) (cl_ID w) (Type j))"

lemma blocked_iter:
  assumes b: "blocked so i j s" and d: "dispatch_iter so False now submit_outcome s = (st, s')"
  shows "st = Continue \<and> blocked so i j s' \<and> Leases s' = Leases s \<and> Manager s' = Manager s \<and> sStore s' = sStore s \<and>
    queue_ids (PriorityQueue s') = queue_ids (PriorityQueue s)"
proof -
  let ?g = "sched_get so s" and ?cmp = "PriorityComparator (sched_get so s)"
  have B: "prio_inv ?g (PriorityQueue s)" "sHasBroker s" "chan_ok (Available (Manager s))" "?g i = Some j" "ID j = i"
    "Status j = Pending" "i \<in># queue_ids (PriorityQueue s)"
    "\<And>k. k \<in># queue_ids (PriorityQueue s) \<Longrightarrow> k \<noteq> i \<Longrightarrow> Priority (job_or_zero ?g k) < Priority j"
    "\<forall>w \<in> set (buf (Available (Manager s))). \<not> CanHandle (mgrBroker (Manager s)) (cl_ID w) (Type j)"
    using b unfolding blocked_def by blast+
  obtain k q where q: "Dequeue ?cmp (PriorityQueue s) = Some (k, q)"
    using B(7) jq.deq_None [of ?cmp "PriorityQueue s"] by (cases "Dequeue ?cmp (PriorityQueue s)") auto
  have ids: "queue_ids (PriorityQueue s) = add_mset k (queue_ids q)" using jq.ids_deq [OF q] .
  have "\<not> ?cmp i k" using pq.deq_first [OF B(1) q B(7)] .
  then have k: "k = i" using B(4) B(8) [of k] ids by (auto simp: PriorityComparator_def job_or_zero_def Let_def split: if_splits)
  let ?s1 = "s\<lparr>PriorityQueue := q\<rparr>" and ?q = "Enqueue ?cmp i q"
  have g1: "sched_get so ?s1 = ?g" by (simp add: sched_get_def)
  obtain r av where sel: "SelectWorker (mgrBroker (Manager s)) (Type j) (Available (Manager s)) = (r, av)" by fastforce
  have r: "r = None" "av = Available (Manager s)"
    using B(9) SelectWorker_cases [OF B(3) sel] by (metis in_set_conv_decomp)+
  have "Dispatch so False now submit_outcome j ?s1 = (False, enqueueJob so i ThePriorityQueue ?s1)"
    using B(2,5) sel r by (simp add: Dispatch_def Let_def)
  then have d': "st = Continue \<and> s' = enqueueJob so i ThePriorityQueue ?s1"
    using d q k g1 B(4,6) by (simp add: dispatch_iter_def Let_def)
  have "prio_inv ?g q" using pq.invar_deq [OF B(1) q] .
  then have "prio_inv ?g ?q" by (rule pq.invar_enq)
  moreover have s': "PriorityQueue s' = ?q" "sched_get so s' = ?g" "Manager s' = Manager s" "Leases s' = Leases s"
    "sStore s' = sStore s" "sHasBroker s' = sHasBroker s"
    using d' by (simp_all add: enqueueJob_def sched_get_def)
  moreover have "queue_ids ?q = queue_ids (PriorityQueue s)" using ids k by (simp add: queue_ids_Enqueue)
  ultimately show ?thesis using b d' by (simp add: blocked_def)
qed

lemma blocked_iters:
  assumes "blocked so i j s"
  shows "blocked so i j (dispatch_iters so clock submit_outcome n s) \<and>
    Leases (dispatch_iters so clock submit_outcome n s) = Leases s \<and>
    Manager (dispatch_iters so clock submit_outcome n s) = Manager s \<and>
    queue_ids (PriorityQueue (dispatch_iters so clock submit_outcome n s)) = queue_ids (PriorityQueue s)"
proof (induction n)
  case (Suc n)
  let ?s = "dispatch_iters so clock submit_outcome n s"
  show ?case using blocked_iter [of so i j ?s "clock n" submit_outcome] Suc
    by (cases "dispatch_iter so False (clock n) submit_outcome ?s") simp
qed (use assms in simp)

end
