(* ===== verification/Wal_Log.thy ===== *)
theory Wal_Log
  imports Consensus
begin

text \<open>
  The write-ahead log and the snapshot file (\<open>src/internal/storage/wal.go\<close>, \<open>snapshot.go\<close>).
  The log file is its complete lines and what stands after the last line feed. A crash during a
  write leaves any prefix of the record, so that the tail may be torn; opened again, the file is appended to
  where it ends.
\<close>

section \<open>Records and the file\<close>

datatype wal_event = EventSubmit | EventRetry | EventFailure | EventComplete | EventCancel | OtherEvent string

record wal_record =
  wrKind :: wal_event
  wrJob :: "job option"
  wrJobID :: int

text \<open>
  A line is the JSON text of a record, the JSON text of a bare job (the older format, which also decodes as a
  record with an empty kind), or text that is neither.
\<close>

datatype wal_line = RecordLine wal_record | LegacyLine job | CorruptLine

datatype wal_tail = NoTail | WholeTail wal_record | TornTail

record wal_file =
  walLines :: "wal_line list"
  walTail :: wal_tail

definition NewWal :: wal_file where
  "NewWal = \<lparr>walLines = [], walTail = NoTail\<rparr>"

definition marshal_record :: "wal_record \<Rightarrow> bool" where
  "marshal_record r \<longleftrightarrow> (case wrJob r of None \<Rightarrow> True | Some j \<Rightarrow> time_marshals (NextRunAt j))"

text \<open>
  How far a write gets: to the end, to the end but for the line feed, or somewhere in the middle
  of the record. Text written after a tail merges with it into one line, which does not decode.
\<close>

datatype write_outcome = Written | NoLineFeed | Partly | Nothing

fun write_line :: "write_outcome \<Rightarrow> wal_record \<Rightarrow> wal_file \<Rightarrow> wal_file" where
  "write_line Nothing r f = f"
| "write_line Written r f =
     (if walTail f = NoTail then f\<lparr>walLines := walLines f @ [RecordLine r]\<rparr>
      else f\<lparr>walLines := walLines f @ [CorruptLine], walTail := NoTail\<rparr>)"
| "write_line NoLineFeed r f = f\<lparr>walTail := (if walTail f = NoTail then WholeTail r else TornTail)\<rparr>"
| "write_line Partly r f = f\<lparr>walTail := TornTail\<rparr>"

text \<open>\<open>appendRecord\<close>: an error of the encoder, of the write, or of the sync is returned.\<close>

definition appendRecord :: "write_outcome \<Rightarrow> error option \<Rightarrow> wal_record \<Rightarrow> wal_file \<Rightarrow> error option \<times> wal_file" where
  "appendRecord w sync r f =
     (if \<not> marshal_record r then (Some EMarshal, f)
      else if w \<noteq> Written then (Some (EText ''short write''), write_line w r f)
      else (sync, write_line Written r f))"

definition wal_Append :: "write_outcome \<Rightarrow> error option \<Rightarrow> job \<Rightarrow> wal_file \<Rightarrow> error option \<times> wal_file" where
  "wal_Append w sync j = appendRecord w sync \<lparr>wrKind = EventSubmit, wrJob = Some j, wrJobID = 0\<rparr>"

definition AppendRetry :: "write_outcome \<Rightarrow> error option \<Rightarrow> job \<Rightarrow> wal_file \<Rightarrow> error option \<times> wal_file" where
  "AppendRetry w sync j = appendRecord w sync \<lparr>wrKind = EventRetry, wrJob = Some j, wrJobID = 0\<rparr>"

definition AppendFailure :: "write_outcome \<Rightarrow> error option \<Rightarrow> job \<Rightarrow> wal_file \<Rightarrow> error option \<times> wal_file" where
  "AppendFailure w sync j = appendRecord w sync \<lparr>wrKind = EventFailure, wrJob = Some j, wrJobID = 0\<rparr>"

definition AppendCompletion :: "write_outcome \<Rightarrow> error option \<Rightarrow> int \<Rightarrow> wal_file \<Rightarrow> error option \<times> wal_file" where
  "AppendCompletion w sync i = appendRecord w sync \<lparr>wrKind = EventComplete, wrJob = None, wrJobID = i\<rparr>"

definition AppendCancel :: "write_outcome \<Rightarrow> error option \<Rightarrow> int \<Rightarrow> wal_file \<Rightarrow> error option \<times> wal_file" where
  "AppendCancel w sync i = appendRecord w sync \<lparr>wrKind = EventCancel, wrJob = None, wrJobID = i\<rparr>"

section \<open>Replay\<close>

type_synonym pending_jobs = "(int, job) gomap"

definition replay_record :: "wal_record \<Rightarrow> pending_jobs \<Rightarrow> pending_jobs" where
  "replay_record r p =
     (case wrKind r of
        EventSubmit \<Rightarrow> (case wrJob r of None \<Rightarrow> p | Some j \<Rightarrow> mput (ID j) j p)
      | EventRetry \<Rightarrow> (case wrJob r of None \<Rightarrow> p | Some j \<Rightarrow> mput (ID j) j p)
      | EventFailure \<Rightarrow> (case wrJob r of None \<Rightarrow> p | Some j \<Rightarrow> mdel (ID j) p)
      | EventCancel \<Rightarrow> mdel (wrJobID r) p
      | EventComplete \<Rightarrow> mdel (wrJobID r) p
      | OtherEvent _ \<Rightarrow> p)"

text \<open>
  The loop over the lines: it ends at a line that does not decode. A record with an empty kind
  is decoded again as a job, all of whose members are missing.
\<close>

fun replay_lines :: "wal_line list \<Rightarrow> pending_jobs \<Rightarrow> pending_jobs" where
  "replay_lines [] p = p"
| "replay_lines (RecordLine r # ls) p =
     (if wrKind r = OtherEvent [] then replay_lines ls (mput 0 zero_job p) else replay_lines ls (replay_record r p))"
| "replay_lines (LegacyLine j # ls) p = replay_lines ls (mput (ID j) j p)"
| "replay_lines (CorruptLine # ls) p = p"

definition scanned :: "wal_file \<Rightarrow> wal_line list" where
  "scanned f = walLines f @ (case walTail f of NoTail \<Rightarrow> [] | WholeTail r \<Rightarrow> [RecordLine r] | TornTail \<Rightarrow> [CorruptLine])"

text \<open>
  The scanner refuses a line of 64 KB or more (\<open>fits\<close> says which lines are shorter): the scan ends there and
  \<open>Replay\<close> returns the scanner's error, unless a line before it did not decode.
\<close>

fun scan_fails :: "(wal_line \<Rightarrow> bool) \<Rightarrow> wal_line list \<Rightarrow> bool" where
  "scan_fails fits [] \<longleftrightarrow> False"
| "scan_fails fits (l # ls) \<longleftrightarrow> \<not> fits l \<or> l \<noteq> CorruptLine \<and> scan_fails fits ls"

definition Replay :: "(wal_line \<Rightarrow> bool) \<Rightarrow> order_choice \<Rightarrow> error option \<Rightarrow> wal_file \<Rightarrow> error + job list" where
  "Replay fits ord seek f =
     (case seek of
        Some e \<Rightarrow> Inl e
      | None \<Rightarrow>
          if scan_fails fits (scanned f) then Inl (EText ''bufio.Scanner: token too long'')
          else Inr (map snd (range_order ord (replay_lines (scanned f) []))))"

definition wal_Reset :: "error option \<Rightarrow> error option \<Rightarrow> wal_file \<Rightarrow> error option \<times> wal_file" where
  "wal_Reset close_err open_err f =
     (case close_err of
        Some e \<Rightarrow> (Some e, f)
      | None \<Rightarrow> (case open_err of Some e \<Rightarrow> (Some e, f) | None \<Rightarrow> (None, NewWal)))"

section \<open>The snapshot file\<close>

text \<open>
  \<open>os.WriteFile\<close> truncates the file first: a write that fails leaves what it got to (\<open>left\<close>), and the
  former contents are gone.
\<close>

definition snapshot_Save :: "(error \<times> snapshot_data) option \<Rightarrow> job list \<Rightarrow> snapshot_data option \<Rightarrow> error option \<times> snapshot_data option" where
  "snapshot_Save failure jobs file =
     (case marshal_jobs jobs of
        Inl e \<Rightarrow> (Some e, file)
      | Inr d \<Rightarrow> (case failure of Some (e, left) \<Rightarrow> (Some e, Some left) | None \<Rightarrow> (None, Some d)))"

definition snapshot_Load :: "error option \<Rightarrow> snapshot_data option \<Rightarrow> error + job list" where
  "snapshot_Load read_err file =
     (case file of
        None \<Rightarrow> Inr []
      | Some d \<Rightarrow> (case read_err of Some e \<Rightarrow> Inl e | None \<Rightarrow> decode_jobs d))"

section \<open>What replaying a log gives\<close>

text \<open>
  The job a sequence of records leaves under an ID: that of the last record about the ID, if this record
  is a submission or a retry.
\<close>

fun about :: "int \<Rightarrow> wal_record \<Rightarrow> bool" where
  "about i r \<longleftrightarrow>
     (case wrKind r of
        EventComplete \<Rightarrow> wrJobID r = i
      | EventCancel \<Rightarrow> wrJobID r = i
      | OtherEvent _ \<Rightarrow> False
      | _ \<Rightarrow> map_option ID (wrJob r) = Some i)"

fun leaves_job :: "wal_record \<Rightarrow> job option" where
  "leaves_job r = (if wrKind r = EventSubmit \<or> wrKind r = EventRetry then wrJob r else None)"

definition surviving :: "wal_record list \<Rightarrow> int \<Rightarrow> job option" where
  "surviving rs i = Option.bind (find (about i) (rev rs)) leaves_job"

definition keyed :: "pending_jobs \<Rightarrow> bool" where
  "keyed p \<longleftrightarrow> wf_map p \<and> (\<forall>i j. map_of p i = Some j \<longrightarrow> ID j = i)"

lemma replay_record_wf [simp]: "wf_map p \<Longrightarrow> wf_map (replay_record r p)"
  by (auto simp: replay_record_def split: wal_event.split option.split)

lemma fold_replay_wf [simp]: "wf_map p \<Longrightarrow> wf_map (fold replay_record rs p)"
  by (induction rs arbitrary: p) simp_all

lemma replay_records:
  "\<forall>r \<in> set rs. wrKind r \<noteq> OtherEvent [] \<Longrightarrow>
    replay_lines (map RecordLine rs @ ls) p = replay_lines ls (fold replay_record rs p)"
  by (induction rs arbitrary: p) auto

definition written :: "wal_record \<Rightarrow> bool" where
  "written r \<longleftrightarrow> marshal_record r \<and> wrKind r \<noteq> OtherEvent []"

lemma append_all:
  "\<forall>r \<in> set rs. written r \<Longrightarrow> walTail f = NoTail \<Longrightarrow>
    fold (\<lambda>r f. snd (appendRecord Written None r f)) rs f = f\<lparr>walLines := walLines f @ map RecordLine rs\<rparr>"
  by (induction rs arbitrary: f) (auto simp: appendRecord_def written_def)

abbreviation logged :: "wal_record list \<Rightarrow> wal_file" where
  "logged rs \<equiv> fold (\<lambda>r f. snd (appendRecord Written None r f)) rs NewWal"

lemma logged_lines: "\<forall>r \<in> set rs. written r \<Longrightarrow> logged rs = \<lparr>walLines = map RecordLine rs, walTail = NoTail\<rparr>"
  using append_all [of rs NewWal] by (simp add: NewWal_def)

lemma replay_scanned:
  assumes "\<forall>r \<in> set rs. written r"
  shows "replay_lines (map RecordLine rs @ ls) [] = replay_lines ls (fold replay_record rs [])"
  using assms by (intro replay_records) (auto simp: written_def)

lemma keyed_replay_record: "keyed p \<Longrightarrow> keyed (replay_record r p)"
  by (auto simp: keyed_def replay_record_def split: wal_event.split option.split)

lemma keyed_replay: "keyed p \<Longrightarrow> keyed (fold replay_record rs p)"
  by (induction rs arbitrary: p) (simp_all add: keyed_replay_record)

lemma replay_record_lookup:
  "map_of (replay_record r p) i = (if about i r then leaves_job r else map_of p i)"
  by (auto simp: replay_record_def split: wal_event.split option.split)

lemma replay_surviving: "map_of (fold replay_record rs []) i = surviving rs i"
  by (induction rs rule: rev_induct) (simp_all add: replay_record_lookup surviving_def del: about.simps leaves_job.simps)

lemma surviving_ID: "surviving rs i = Some j \<Longrightarrow> ID j = i"
  using keyed_replay [of "[]" rs] replay_surviving [of rs i] by (simp add: keyed_def)

lemma scan_ok: "\<forall>l \<in> set ls. fits l \<Longrightarrow> \<not> scan_fails fits ls"
  by (induction ls) auto

lemma replayed_jobs:
  assumes "p = fold replay_record rs []"
  shows "distinct (map ID (map snd (range_order ord p)))"
    and "j \<in> set (map snd (range_order ord p)) \<longleftrightarrow> surviving rs (ID j) = Some j"
proof -
  let ?q = "range_order ord p"
  have k: "keyed p" unfolding assms by (rule keyed_replay) (simp add: keyed_def)
  then have "wf_map ?q" and "\<forall>(i, j) \<in> set ?q. ID j = i" by (auto simp: keyed_def wf_map_mem)
  then have "map ID (map snd ?q) = map fst ?q" by auto
  then show "distinct (map ID (map snd ?q))" using \<open>wf_map ?q\<close> by (simp only: wf_map_def)
  have "j \<in> set (map snd ?q) \<longleftrightarrow> (\<exists>i. map_of p i = Some j)"
    using k wf_map_values [of p j] by (simp add: keyed_def)
  then show "j \<in> set (map snd ?q) \<longleftrightarrow> surviving rs (ID j) = Some j"
    unfolding assms replay_surviving using surviving_ID by metis
qed

lemma snapshot_roundtrip:
  assumes "\<forall>j \<in> set jobs. time_marshals (NextRunAt j)"
  shows "snapshot_Load None (snd (snapshot_Save None jobs file)) = Inr jobs"
  using assms by (simp add: snapshot_Save_def snapshot_Load_def marshal_jobs_def)

section \<open>Properties\<close>



text \<open>
  C27. A torn write hides every later record: once an append has been interrupted in the middle of its text,
  all later appends return nil, but the first of them is merged with the torn text into a line that does not
  decode, and a replay stops there, with the jobs the log had before the torn write.
\<close>

theorem torn_write_hides_later_records:
  assumes "\<forall>r' \<in> set rs. written r'" "\<forall>r' \<in> set later. written r'"
  shows "Replay (\<lambda>_. True) ord None (fold (\<lambda>r' f. snd (appendRecord Written None r' f)) later (write_line Partly r (logged rs))) =
      Replay (\<lambda>_. True) ord None (logged rs) \<and>
    (\<forall>r' f. r' \<in> set later \<longrightarrow> fst (appendRecord Written None r' f) = None)"
proof
  let ?f = "write_line Partly r (logged rs)" and ?app = "\<lambda>r' f. snd (appendRecord Written None r' f)"
  have "\<exists>ls t. fold ?app later ?f = \<lparr>walLines = map RecordLine rs @ ls, walTail = t\<rparr> \<and>
      (ls = [] \<and> t = TornTail \<or> (\<exists>ls'. ls = CorruptLine # ls') \<and> t = NoTail)"
  proof (cases later)
    case (Cons r' later')
    then have "?app r' ?f = \<lparr>walLines = map RecordLine rs @ [CorruptLine], walTail = NoTail\<rparr>"
      unfolding logged_lines [OF assms(1)] using assms(2) by (simp add: appendRecord_def written_def)
    then show ?thesis
      using Cons assms(2) append_all [of later' "?app r' ?f"] by simp
  qed (use assms in \<open>simp add: logged_lines\<close>)
  then obtain ls where s: "scanned (fold ?app later ?f) = map RecordLine rs @ CorruptLine # ls"
    by (auto simp: scanned_def)
  show "Replay (\<lambda>_. True) ord None (fold ?app later ?f) = Replay (\<lambda>_. True) ord None (logged rs)"
    using replay_scanned [OF assms(1)] replay_scanned [OF assms(1), of "[]"] assms(1)
    unfolding Replay_def s by (simp add: scan_ok logged_lines scanned_def)
next
  show "\<forall>r' f. r' \<in> set later \<longrightarrow> fst (appendRecord Written None r' f) = None"
    using assms(2) by (simp add: appendRecord_def written_def)
qed

theorem torn_write_hides_later_records_witness:
  "Replay (\<lambda>_. True) [] None (snd (wal_Append Written None (NewJob 2 ''b'' 1) (write_line Partly \<lparr>wrKind = EventCancel, wrJob = None, wrJobID = 7\<rparr> NewWal))) = Inr []"
proof -
  have "\<forall>r' \<in> set [\<lparr>wrKind = EventSubmit, wrJob = Some (NewJob 2 ''b'' 1), wrJobID = 0\<rparr>]. written r'"
    by (simp add: written_def marshal_record_def NewJob_def zero_job_def time_marshals_def Day_def Hour_def)
  from torn_write_hides_later_records [of "[]", OF _ this, of "[]" "\<lparr>wrKind = EventCancel, wrJob = None, wrJobID = 7\<rparr>"]
  show ?thesis by (simp add: wal_Append_def Replay_def NewWal_def scanned_def)
qed

end
