(* ===== verification/Json.thy ===== *)
theory Json
  imports Go_Strings "HOL-Library.Monad_Syntax"
begin

text \<open>
  The parts of Go's \<open>encoding/json\<close> and \<open>unicode/utf8\<close> packages that the sources call: reading a
  text into a value, storing the value into a struct of texts and integers, and writing texts. They serve
  \<open>src/internal/auth/jwt.go\<close> (the claims of a token) and \<open>src/internal/handlers\<close> (request bodies).
\<close>

section \<open>UTF-8\<close>

abbreviation code :: "char \<Rightarrow> nat" where
  "code c \<equiv> of_char c"

definition cont_byte :: "char \<Rightarrow> bool" where
  "cont_byte c \<longleftrightarrow> 128 \<le> code c \<and> code c < 192"

definition second_byte :: "nat \<Rightarrow> char \<Rightarrow> bool" where
  "second_byte n c \<longleftrightarrow>
     (if n = 224 then 160 else if n = 240 then 144 else 128) \<le> code c \<and>
     code c \<le> (if n = 237 then 159 else if n = 244 then 143 else 191)"

text \<open>
  \<open>utf8.DecodeRune\<close>: the number of bytes of the code point a text starts with, 0 where it does not start with a
  valid one.
\<close>

fun rune_size :: "string \<Rightarrow> nat" where
  "rune_size [] = 0"
| "rune_size (a # s) =
     (let n = code a
      in if n < 128 then 1
         else if 194 \<le> n \<and> n \<le> 223 then
           (case s of b # _ \<Rightarrow> if cont_byte b then 2 else 0 | _ \<Rightarrow> 0)
         else if 224 \<le> n \<and> n \<le> 239 then
           (case s of b # c # _ \<Rightarrow> if second_byte n b \<and> cont_byte c then 3 else 0 | _ \<Rightarrow> 0)
         else if 240 \<le> n \<and> n \<le> 244 then
           (case s of b # c # d # _ \<Rightarrow> if second_byte n b \<and> cont_byte c \<and> cont_byte d then 4 else 0 | _ \<Rightarrow> 0)
         else 0)"

definition replacement :: string where
  "replacement = [CHR 0xEF, CHR 0xBF, CHR 0xBD]"

text \<open>A text with every byte that belongs to no valid code point replaced by U+FFFD.\<close>

function valid_utf8 :: "string \<Rightarrow> string" where
  "valid_utf8 [] = []"
| "valid_utf8 (a # s) =
     (let n = rune_size (a # s)
      in if n = 0 then replacement @ valid_utf8 s
         else take n (a # s) @ valid_utf8 (drop n (a # s)))"
  by pat_completeness auto
termination
  by (relation "measure length") (auto simp del: rune_size.simps)

text \<open>\<open>utf8.EncodeRune\<close>.\<close>

definition encode_rune :: "nat \<Rightarrow> string" where
  "encode_rune r =
     (if r < 128 then [char_of r]
      else if r < 2048 then [char_of (192 + r div 64), char_of (128 + r mod 64)]
      else if r < 65536 then [char_of (224 + r div 4096), char_of (128 + r div 64 mod 64), char_of (128 + r mod 64)]
      else [char_of (240 + r div 262144), char_of (128 + r div 4096 mod 64), char_of (128 + r div 64 mod 64), char_of (128 + r mod 64)])"

section \<open>Writing texts\<close>

definition hex_digit :: "nat \<Rightarrow> char" where
  "hex_digit n = (if n < 10 then char_of (48 + n) else char_of (87 + n))"

definition escape_ascii :: "char \<Rightarrow> string" where
  "escape_ascii c =
     (let n = code c
      in if n = 34 \<or> n = 92 then [CHR 0x5C, c]
         else if n = 8 then [CHR 0x5C, CHR ''b'']
         else if n = 12 then [CHR 0x5C, CHR ''f'']
         else if n = 10 then [CHR 0x5C, CHR ''n'']
         else if n = 13 then [CHR 0x5C, CHR ''r'']
         else if n = 9 then [CHR 0x5C, CHR ''t'']
         else if n < 32 \<or> n = 60 \<or> n = 62 \<or> n = 38 then
           [CHR 0x5C, CHR ''u'', CHR ''0'', CHR ''0'', hex_digit (n div 16), hex_digit (n mod 16)]
         else [c])"

function quote_body :: "string \<Rightarrow> string" where
  "quote_body [] = []"
| "quote_body (a # s) =
     (let n = rune_size (a # s); r = take n (a # s); t = drop n (a # s)
      in if code a < 128 then escape_ascii a @ quote_body s
         else if n = 0 then [CHR 0x5C, CHR ''u'', CHR ''f'', CHR ''f'', CHR ''f'', CHR ''d''] @ quote_body s
         else if r = [CHR 0xE2, CHR 0x80, CHR 0xA8] then
           [CHR 0x5C, CHR ''u'', CHR ''2'', CHR ''0'', CHR ''2'', CHR ''8''] @ quote_body t
         else if r = [CHR 0xE2, CHR 0x80, CHR 0xA9] then
           [CHR 0x5C, CHR ''u'', CHR ''2'', CHR ''0'', CHR ''2'', CHR ''9''] @ quote_body t
         else r @ quote_body t)"
  by pat_completeness auto
termination
  by (relation "measure length") (auto simp del: rune_size.simps)

definition quote :: "string \<Rightarrow> string" where
  "quote s = CHR 0x22 # quote_body s @ [CHR 0x22]"

text \<open>A struct is written as an object, its members in the order of the fields.\<close>

fun write_members :: "(string \<times> string) list \<Rightarrow> string" where
  "write_members [] = []"
| "write_members [(name, v)] = quote name @ CHR '':'' # v"
| "write_members ((name, v) # ms) = quote name @ CHR '':'' # v @ CHR '','' # write_members ms"

definition write_object :: "(string \<times> string) list \<Rightarrow> string" where
  "write_object ms = CHR 0x7B # write_members ms @ [CHR 0x7D]"

section \<open>Reading values\<close>

datatype json =
    JNull
  | JBool bool
  | JNum string
  | JStr string
  | JArr "json list"
  | JObj "(string \<times> json) list"

definition json_space :: "char \<Rightarrow> bool" where
  "json_space c \<longleftrightarrow> c \<in> {CHR '' '', CHR 0x09, CHR 0x0A, CHR 0x0D}"

abbreviation skip_ws :: "string \<Rightarrow> string" where
  "skip_ws \<equiv> dropWhile json_space"

definition hex_value :: "char \<Rightarrow> nat option" where
  "hex_value c =
     (let n = code c
      in if 48 \<le> n \<and> n \<le> 57 then Some (n - 48)
         else if 97 \<le> n \<and> n \<le> 102 then Some (n - 87)
         else if 65 \<le> n \<and> n \<le> 70 then Some (n - 55)
         else None)"

fun u4 :: "string \<Rightarrow> nat option" where
  "u4 (a # b # c # d # _) =
     (case (hex_value a, hex_value b, hex_value c, hex_value d) of
        (Some i, Some j, Some k, Some l) \<Rightarrow> Some (((i * 16 + j) * 16 + k) * 16 + l)
      | _ \<Rightarrow> None)"
| "u4 _ = None"

text \<open>The second half of a surrogate pair, if the text goes on with one.\<close>

fun low_surrogate :: "string \<Rightarrow> nat option" where
  "low_surrogate (a # b # s) =
     (if a = CHR 0x5C \<and> b = CHR ''u'' then
        (case u4 s of Some r \<Rightarrow> if 56320 \<le> r \<and> r < 57344 then Some r else None | None \<Rightarrow> None)
      else None)"
| "low_surrogate _ = None"

definition simple_escape :: "char \<Rightarrow> char option" where
  "simple_escape c =
     (if c = CHR 0x22 \<or> c = CHR 0x5C \<or> c = CHR ''/'' then Some c
      else if c = CHR ''b'' then Some (CHR 0x08)
      else if c = CHR ''f'' then Some (CHR 0x0C)
      else if c = CHR ''n'' then Some (CHR 0x0A)
      else if c = CHR ''r'' then Some (CHR 0x0D)
      else if c = CHR ''t'' then Some (CHR 0x09)
      else None)"

abbreviation prepend :: "string \<Rightarrow> (string \<times> string) option \<Rightarrow> (string \<times> string) option" where
  "prepend p \<equiv> map_option (apfst ((@) p))"

text \<open>
  The rest of a quoted text after its opening quote: its value, and what follows the closing quote.
  Control characters and unknown escapes are errors; a lone surrogate and invalid UTF-8 become U+FFFD.
\<close>

function unquote :: "string \<Rightarrow> (string \<times> string) option" where
  "unquote [] = None"
| "unquote (c # s) =
     (if c = CHR 0x22 then Some ([], s)
      else if c = CHR 0x5C then
        (case s of
           [] \<Rightarrow> None
         | e # t \<Rightarrow>
             if e = CHR ''u'' then
               (case u4 t of
                  None \<Rightarrow> None
                | Some r \<Rightarrow>
                    if 55296 \<le> r \<and> r < 57344 then
                      (case if r < 56320 then low_surrogate (drop 4 t) else None of
                         Some r2 \<Rightarrow> prepend (encode_rune (65536 + (r - 55296) * 1024 + (r2 - 56320))) (unquote (drop 10 t))
                       | None \<Rightarrow> prepend replacement (unquote (drop 4 t)))
                    else prepend (encode_rune r) (unquote (drop 4 t)))
             else (case simple_escape e of None \<Rightarrow> None | Some d \<Rightarrow> prepend [d] (unquote t)))
      else if code c < 32 then None
      else if rune_size (c # s) = 0 then prepend replacement (unquote s)
      else prepend (take (rune_size (c # s)) (c # s)) (unquote (drop (rune_size (c # s)) (c # s))))"
  by pat_completeness auto
termination
  by (relation "measure length") (auto simp del: rune_size.simps)

text \<open>Numbers keep their text.\<close>

abbreviation is_digit :: "char \<Rightarrow> bool" where
  "is_digit c \<equiv> digit_value c \<noteq> None"

definition digits1 :: "string \<Rightarrow> (string \<times> string) option" where
  "digits1 s = (let ds = takeWhile is_digit s in if ds = [] then None else Some (ds, dropWhile is_digit s))"

definition number_int :: "string \<Rightarrow> (string \<times> string) option" where
  "number_int s =
     (case s of
        [] \<Rightarrow> None
      | c # t \<Rightarrow> if c = CHR ''0'' then Some ([c], t) else digits1 s)"

definition number_frac :: "string \<Rightarrow> (string \<times> string) option" where
  "number_frac s =
     (case s of
        [] \<Rightarrow> Some ([], s)
      | c # t \<Rightarrow> if c = CHR ''.'' then prepend [c] (digits1 t) else Some ([], s))"

definition number_exp :: "string \<Rightarrow> (string \<times> string) option" where
  "number_exp s =
     (case s of
        [] \<Rightarrow> Some ([], s)
      | c # t \<Rightarrow>
          if c = CHR ''e'' \<or> c = CHR ''E'' then
            (case t of
               [] \<Rightarrow> None
             | d # u \<Rightarrow> if d = CHR ''+'' \<or> d = CHR ''-'' then prepend [c, d] (digits1 u) else prepend [c] (digits1 t))
          else Some ([], s))"

abbreviation and_then :: "(string \<times> string) option \<Rightarrow> (string \<Rightarrow> (string \<times> string) option) \<Rightarrow> (string \<times> string) option" where
  "and_then x f \<equiv> Option.bind x (\<lambda>(p, s). prepend p (f s))"

definition parse_number :: "string \<Rightarrow> (string \<times> string) option" where
  "parse_number s =
     (let number = (\<lambda>s. and_then (and_then (number_int s) number_frac) number_exp)
      in case s of
           [] \<Rightarrow> None
         | c # t \<Rightarrow> if c = CHR ''-'' then prepend [c] (number t) else number s)"

definition literal :: "string \<Rightarrow> json \<Rightarrow> string \<Rightarrow> (json \<times> string) option" where
  "literal w v s = (if HasPrefix s w then Some (v, drop (length w) s) else None)"

text \<open>The next character that is not white space, and what follows it.\<close>

definition next_char :: "string \<Rightarrow> (char \<times> string) option" where
  "next_char s = (case skip_ws s of [] \<Rightarrow> None | c # t \<Rightarrow> Some (c, t))"

definition max_depth :: nat where
  "max_depth = 10000"

text \<open>
  A value, the elements of an array after its bracket, and the members of an object after its brace. The first argument
  bounds the number of nested calls; of two nested calls one reads at least one character, so twice the length
  of the text is enough (\<open>parse_fuel\<close>). The second is the depth of nesting, which the package bounds.
\<close>

fun parse_value :: "nat \<Rightarrow> nat \<Rightarrow> string \<Rightarrow> (json \<times> string) option"
and parse_elems :: "nat \<Rightarrow> nat \<Rightarrow> string \<Rightarrow> (json list \<times> string) option"
and parse_members :: "nat \<Rightarrow> nat \<Rightarrow> string \<Rightarrow> ((string \<times> json) list \<times> string) option" where
  "parse_value 0 d s = None"
| "parse_value (Suc k) d s = do {
     (c, t) \<leftarrow> next_char s;
     if c = CHR 0x22 then map_option (apfst JStr) (unquote t)
     else if c = CHR 0x7B then
       if d \<ge> max_depth then None
       else do {
         (e, u) \<leftarrow> next_char t;
         if e = CHR 0x7D then Some (JObj [], u) else map_option (apfst JObj) (parse_members k (Suc d) (e # u))
       }
     else if c = CHR 0x5B then
       if d \<ge> max_depth then None
       else do {
         (e, u) \<leftarrow> next_char t;
         if e = CHR 0x5D then Some (JArr [], u) else map_option (apfst JArr) (parse_elems k (Suc d) (e # u))
       }
     else if c = CHR ''t'' then literal ''true'' (JBool True) (c # t)
     else if c = CHR ''f'' then literal ''false'' (JBool False) (c # t)
     else if c = CHR ''n'' then literal ''null'' JNull (c # t)
     else map_option (apfst JNum) (parse_number (c # t))
   }"
| "parse_elems 0 d s = None"
| "parse_elems (Suc k) d s = do {
     (v, r) \<leftarrow> parse_value k d s;
     (e, u) \<leftarrow> next_char r;
     if e = CHR 0x5D then Some ([v], u)
     else if e = CHR '','' then map_option (apfst (Cons v)) (parse_elems k d u)
     else None
   }"
| "parse_members 0 d s = None"
| "parse_members (Suc k) d s = do {
     (q, t) \<leftarrow> next_char s;
     if q \<noteq> CHR 0x22 then None
     else do {
       (name, r) \<leftarrow> unquote t;
       (e, u) \<leftarrow> next_char r;
       if e \<noteq> CHR '':'' then None
       else do {
         (v, r2) \<leftarrow> parse_value k d u;
         (e2, u2) \<leftarrow> next_char r2;
         if e2 = CHR 0x7D then Some ([(name, v)], u2)
         else if e2 = CHR '','' then map_option (apfst (Cons (name, v))) (parse_members k d u2)
         else None
       }
     }
   }"

text \<open>
  \<open>json.Unmarshal\<close> wants one value and white space after it; \<open>Decoder.Decode\<close> takes the first
  value of a stream and leaves the rest.
\<close>

definition json_first :: "string \<Rightarrow> json option" where
  "json_first s = map_option fst (parse_value (2 * length s + 1) 0 s)"

definition json_whole :: "string \<Rightarrow> json option" where
  "json_whole s =
     (case parse_value (2 * length s + 1) 0 s of
        None \<Rightarrow> None
      | Some (v, r) \<Rightarrow> if skip_ws r = [] then Some v else None)"

section \<open>Storing a value into a struct\<close>

datatype field = FString string | FInt int

text \<open>
  A member of the wrong type leaves the field and counts as an error, which is reported after all members
  have been stored; \<open>null\<close> leaves the field without one. An integer field takes numbers written
  as integers in the range of 64 bits.
\<close>

fun store_field :: "json \<Rightarrow> field \<Rightarrow> bool \<times> field" where
  "store_field JNull f = (True, f)"
| "store_field (JStr s) (FString _) = (True, FString s)"
| "store_field (JNum n) (FInt i) = (case Atoi n of Inr v \<Rightarrow> (True, FInt v) | Inl _ \<Rightarrow> (False, FInt i))"
| "store_field v f = (False, f)"

text \<open>
  Names match exactly or, failing that, up to case; the long s and the Kelvin sign count as forms of s and k.
\<close>

fun fold_name :: "string \<Rightarrow> string" where
  "fold_name [] = []"
| "fold_name (a # s) =
     (case s of
        b # t \<Rightarrow>
          if a = CHR 0xC5 \<and> b = CHR 0xBF then CHR ''S'' # fold_name t
          else (case t of
             c # u \<Rightarrow> if a = CHR 0xE2 \<and> b = CHR 0x84 \<and> c = CHR 0xAA then CHR ''K'' # fold_name u
                       else (if 97 \<le> code a \<and> code a \<le> 122 then char_of (code a - 32) else a) # fold_name s
           | [] \<Rightarrow> (if 97 \<le> code a \<and> code a \<le> 122 then char_of (code a - 32) else a) # fold_name s)
      | [] \<Rightarrow> (if 97 \<le> code a \<and> code a \<le> 122 then char_of (code a - 32) else a) # fold_name s)"

type_synonym struct = "(string \<times> field) list"

definition field_for :: "struct \<Rightarrow> string \<Rightarrow> string option" where
  "field_for fs name =
     (if name \<in> set (map fst fs) then Some name
      else find (\<lambda>f. fold_name f = fold_name name) (map fst fs))"

definition store_member :: "string \<times> json \<Rightarrow> bool \<times> struct \<Rightarrow> bool \<times> struct" where
  "store_member m st =
     (case st of (ok, fs) \<Rightarrow>
        (case field_for fs (fst m) of
           None \<Rightarrow> (ok, fs)
         | Some f \<Rightarrow>
             (case map_of fs f of
                None \<Rightarrow> (ok, fs)
              | Some old \<Rightarrow> (let (ok', new) = store_field (snd m) old in (ok \<and> ok', AList.update f new fs)))))"

text \<open>\<open>None\<close> is an error; the struct is then not used by any caller.\<close>

fun store_struct :: "json \<Rightarrow> struct \<Rightarrow> struct option" where
  "store_struct (JObj ms) fs = (let (ok, fs') = fold store_member ms (True, fs) in if ok then Some fs' else None)"
| "store_struct JNull fs = Some fs"
| "store_struct v fs = None"

definition get_string :: "struct \<Rightarrow> string \<Rightarrow> string" where
  "get_string fs f = (case map_of fs f of Some (FString s) \<Rightarrow> s | _ \<Rightarrow> [])"

definition get_int :: "struct \<Rightarrow> string \<Rightarrow> int" where
  "get_int fs f = (case map_of fs f of Some (FInt i) \<Rightarrow> i | _ \<Rightarrow> 0)"

section \<open>Round trip of texts\<close>

lemma hex_value_digit [simp]: "n < 16 \<Longrightarrow> hex_value (hex_digit n) = Some n"
  by (auto simp: hex_value_def hex_digit_def Let_def)

lemma hex_value_0 [simp]: "hex_value (CHR ''0'') = Some 0"
  by (simp add: hex_value_def)

lemma char_by_code: "c = d \<longleftrightarrow> code c = (code d :: nat)"
  by simp

declare unquote.simps(2) [simp del]

lemma unquote_end [simp]: "unquote (CHR 0x22 # s) = Some ([], s)"
  by (simp add: unquote.simps(2))

lemma unquote_plain:
  assumes "rune_size x \<noteq> 0" "x = c # s" "32 \<le> code c" "code c \<noteq> 34" "code c \<noteq> 92"
  shows "unquote x = prepend (take (rune_size x) x) (unquote (drop (rune_size x) x))"
proof -
  have "c \<noteq> CHR 0x22" "c \<noteq> CHR 0x5C" using assms(4,5) by auto
  then show ?thesis using assms(1-3) by (simp add: unquote.simps(2) del: rune_size.simps)
qed

lemma unquote_escape:
  "simple_escape e = Some d \<Longrightarrow> unquote (CHR 0x5C # e # t) = prepend [d] (unquote t)"
  by (auto simp: unquote.simps(2) simple_escape_def split: if_splits)

lemma unquote_u:
  assumes "u4 [i, j, k, l] = Some r" "r < 55296 \<or> 57344 \<le> r"
  shows "unquote (CHR 0x5C # CHR ''u'' # i # j # k # l # t) = prepend (encode_rune r) (unquote t)"
proof -
  have "u4 (i # j # k # l # t) = Some r" using assms(1) by simp
  then show ?thesis using assms(2) by (subst unquote.simps(2)) (auto simp del: u4.simps)
qed

lemma escape_ascii_unquote:
  assumes "code c < 128"
  shows "unquote (escape_ascii c @ t) = prepend [c] (unquote t)"
proof -
  let ?n = "code c"
  consider "?n = 34" | "?n = 92" | "?n = 8" | "?n = 12" | "?n = 10" | "?n = 13" | "?n = 9"
    | "?n \<notin> {34, 92, 8, 12, 10, 13, 9}" "?n < 32 \<or> ?n = 60 \<or> ?n = 62 \<or> ?n = 38"
    | "?n \<notin> {34, 92, 8, 12, 10, 13, 9}" "\<not> (?n < 32 \<or> ?n = 60 \<or> ?n = 62 \<or> ?n = 38)"
    by blast
  then show ?thesis
  proof cases
    case 8
    have "u4 [CHR ''0'', CHR ''0'', hex_digit (?n div 16), hex_digit (?n mod 16)] = Some ?n"
      using assms by simp
    from unquote_u [OF this, of t] show ?thesis
      using 8 assms by (simp add: escape_ascii_def encode_rune_def Let_def)
  next
    case 9
    then have "escape_ascii c = [c]" by (simp add: escape_ascii_def)
    then show ?thesis using 9 assms unquote_plain [of "c # t" c t] by simp
  qed (auto simp: escape_ascii_def char_by_code unquote_escape simple_escape_def)
qed

lemma encode_rune_special:
  "encode_rune 65533 = replacement"
  "encode_rune 8232 = [CHR 0xE2, CHR 0x80, CHR 0xA8]"
  "encode_rune 8233 = [CHR 0xE2, CHR 0x80, CHR 0xA9]"
  by (simp_all add: encode_rune_def replacement_def char_of_eq_iff take_bit_eq_mod)

lemma rune_size_take:
  assumes "0 < rune_size x"
  shows "rune_size (take (rune_size x) x @ t) = rune_size x"
proof -
  obtain a s where x: "x = a # s" using assms by (cases x) auto
  let ?n = "code a"
  consider "?n < 128" | b u where "128 \<le> ?n" "194 \<le> ?n \<and> ?n \<le> 223" "s = b # u" "cont_byte b"
    | b c u where "128 \<le> ?n" "\<not> ?n \<le> 223" "224 \<le> ?n \<and> ?n \<le> 239" "s = b # c # u" "second_byte ?n b \<and> cont_byte c"
    | b c d u where "128 \<le> ?n" "\<not> ?n \<le> 239" "240 \<le> ?n \<and> ?n \<le> 244" "s = b # c # d # u"
        "second_byte ?n b \<and> cont_byte c \<and> cont_byte d"
    using assms unfolding x by (auto simp: Let_def split: if_splits list.splits)
  then show ?thesis unfolding x by cases (simp_all add: numeral_eq_Suc)
qed

lemma rune_size_le: "rune_size x \<le> length x"
  by (cases x rule: rune_size.cases) (auto simp: Let_def split: list.splits)

lemma unquote_rune:
  assumes "rune_size (a # s) = Suc m" "128 \<le> code a"
  shows "unquote (take (Suc m) (a # s) @ t) = prepend (take (Suc m) (a # s)) (unquote t)"
proof -
  let ?y = "take (Suc m) (a # s) @ t"
  have y: "rune_size ?y = Suc m" using rune_size_take [of "a # s" t] assms(1) by (simp only: zero_less_Suc)
  have l: "m \<le> length s" using rune_size_le [of "a # s"] unfolding assms(1) by simp
  have "unquote ?y = prepend (take (Suc m) ?y) (unquote (drop (Suc m) ?y))"
    using unquote_plain [of ?y a "take m s @ t"] assms(2) unfolding y by simp
  then show ?thesis using l by simp
qed

lemma unquote_quote_body: "unquote (quote_body s @ CHR 0x22 # r) = Some (valid_utf8 s, r)"
proof (induction s rule: quote_body.induct)
  case (2 a s)
  let ?n = "rune_size (a # s)" and ?x = "a # s" and ?t = "\<lambda>s. quote_body s @ CHR 0x22 # r"
  note IH = 2(1) [OF refl refl refl] 2(2) [OF refl refl refl] 2(3,4,5) [OF refl refl refl]
  consider "code a < 128" | "128 \<le> code a" "?n = 0" | m where "128 \<le> code a" "?n = Suc m"
    using not0_implies_Suc not_less by blast
  then show ?case
  proof cases
    case 1
    then show ?thesis using IH(1) by (simp add: escape_ascii_unquote)
  next
    case 2
    have "u4 [CHR ''f'', CHR ''f'', CHR ''f'', CHR ''d''] = Some 65533" by (simp add: hex_value_def)
    from unquote_u [OF this, of "?t s"] show ?thesis
      using 2 IH(2) by (simp add: encode_rune_special del: rune_size.simps)
  next
    case 3
    let ?r = "take ?n ?x" and ?rest = "drop ?n ?x"
    have q: "unquote (?t ?rest) = Some (valid_utf8 ?rest, r)"
      using IH(3-5) 3 by (metis Suc_neq_Zero not_less)
    have v: "valid_utf8 ?x = ?r @ valid_utf8 ?rest" using 3 by (simp only: valid_utf8.simps Let_def) simp
    have u: "u4 [CHR ''2'', CHR ''0'', CHR ''2'', CHR ''8''] = Some 8232" "u4 [CHR ''2'', CHR ''0'', CHR ''2'', CHR ''9''] = Some 8233"
      by (simp_all add: hex_value_def)
    consider "?r = [CHR 0xE2, CHR 0x80, CHR 0xA8]" | "?r = [CHR 0xE2, CHR 0x80, CHR 0xA9]"
      | "?r \<noteq> [CHR 0xE2, CHR 0x80, CHR 0xA8]" "?r \<noteq> [CHR 0xE2, CHR 0x80, CHR 0xA9]" by blast
    then have "unquote (?t ?x) = prepend ?r (unquote (?t ?rest))"
    proof cases
      case 3
      then show ?thesis
        using unquote_rune [of a s m "?t ?rest"] \<open>?n = Suc m\<close> \<open>128 \<le> code a\<close>
        by (simp only: quote_body.simps Let_def append_assoc) simp
    qed (use 3 unquote_u [OF u(1), of "?t ?rest"] unquote_u [OF u(2), of "?t ?rest"] in
        \<open>simp_all add: encode_rune_special Let_def del: rune_size.simps\<close>)
    then show ?thesis unfolding v q by simp
  qed
qed simp

lemma valid_utf8_ascii: "\<forall>c \<in> set s. code c < 128 \<Longrightarrow> valid_utf8 s = s"
  by (induction s) simp_all

section \<open>Enough steps\<close>

lemma unquote_length: "unquote s = Some (v, r) \<Longrightarrow> length r < length s"
proof (induction s arbitrary: v rule: unquote.induct)
  case (2 c s)
  from 2(7) show ?case
    using 2(1-6) by (fastforce simp: unquote.simps(2) simp del: rune_size.simps split: if_splits list.splits option.splits)
qed simp

lemma digits1_length: "digits1 s = Some (p, r) \<Longrightarrow> length r < length s"
proof -
  assume "digits1 s = Some (p, r)"
  then have "takeWhile is_digit s \<noteq> []" "r = dropWhile is_digit s" by (simp_all add: digits1_def Let_def split: if_splits)
  moreover have "length (takeWhile is_digit s) + length (dropWhile is_digit s) = length s"
    by (metis length_append takeWhile_dropWhile_id)
  ultimately show ?thesis by (metis length_greater_0_conv less_add_same_cancel2)
qed

lemma number_lengths:
  "number_int s = Some (p, r) \<Longrightarrow> length r < length s"
  "number_frac s = Some (p, r) \<Longrightarrow> length r \<le> length s"
  "number_exp s = Some (p, r) \<Longrightarrow> length r \<le> length s"
  by (fastforce simp: number_int_def number_frac_def number_exp_def dest: digits1_length split: list.splits if_splits)+

lemma parse_number_length: "parse_number s = Some (p, r) \<Longrightarrow> length r < length s"
  by (fastforce simp: parse_number_def bind_eq_Some_conv dest: number_lengths split: list.splits if_splits)

lemma literal_length: "literal w v s = Some (u, r) \<Longrightarrow> w \<noteq> [] \<Longrightarrow> s \<noteq> [] \<Longrightarrow> length r < length s"
  by (auto simp: literal_def split: if_splits)

definition shrinks :: "string \<Rightarrow> ('a \<times> string) option \<Rightarrow> bool" where
  "shrinks s x \<longleftrightarrow> (\<forall>v r. x = Some (v, r) \<longrightarrow> length r < length s)"

lemma shrinks_map [simp]: "shrinks s (map_option (apfst f) x) = shrinks s x"
  by (force simp: shrinks_def)

lemma shrinks_None [simp]: "shrinks s None"
  by (simp add: shrinks_def)

lemma shrinks_Some [simp]: "shrinks s (Some (v, r)) \<longleftrightarrow> length r < length s"
  by (simp add: shrinks_def)

lemma shrinks_mono: "shrinks t x \<Longrightarrow> length t \<le> length s \<Longrightarrow> shrinks s x"
  by (force simp: shrinks_def)

lemma shrinks_bind:
  "shrinks s x \<Longrightarrow> (\<And>v r. x = Some (v, r) \<Longrightarrow> length r < length s \<Longrightarrow> shrinks s (f (v, r))) \<Longrightarrow> shrinks s (Option.bind x f)"
  by (cases x) (auto simp: shrinks_def)

lemma shrinks_if: "(b \<Longrightarrow> shrinks s x) \<Longrightarrow> (\<not> b \<Longrightarrow> shrinks s y) \<Longrightarrow> shrinks s (if b then x else y)"
  by simp

lemma shrinks_next: "shrinks s (next_char s)"
  using length_dropWhile_le [of json_space s] by (auto simp: shrinks_def next_char_def split: list.splits)

lemma shrinks_unquote: "length t \<le> length s \<Longrightarrow> shrinks s (unquote t)"
  using unquote_length by (fastforce simp: shrinks_def)

lemma shrinks_number: "length t \<le> length s \<Longrightarrow> shrinks s (parse_number t)"
  using parse_number_length by (fastforce simp: shrinks_def)

lemma shrinks_literal: "w \<noteq> [] \<Longrightarrow> length (c # t) \<le> length s \<Longrightarrow> shrinks s (literal w v (c # t))"
  using literal_length by (fastforce simp: shrinks_def)

lemma parse_shrinks:
  "shrinks s (parse_value k d s)" "shrinks s (parse_elems k d s)" "shrinks s (parse_members k d s)"
proof (induction k arbitrary: d s)
  case (Suc k)
  have m: "length t \<le> length s \<Longrightarrow> shrinks s (next_char t)" "length t \<le> length s \<Longrightarrow> shrinks s (parse_value k d t)"
    "length t \<le> length s \<Longrightarrow> shrinks s (parse_elems k d t)" "length t \<le> length s \<Longrightarrow> shrinks s (parse_members k d t)"
    for s t :: string and d
    using shrinks_next Suc shrinks_mono by blast+
  note m' = shrinks_unquote shrinks_number shrinks_literal m
  {
    case 1
    show ?case by (auto intro!: shrinks_bind shrinks_if m')
  next
    case 2
    show ?case by (auto intro!: shrinks_bind shrinks_if m')
  next
    case 3
    show ?case by (auto intro!: shrinks_bind shrinks_if m')
  }
qed simp_all

lemma bind_eq: "x = y \<Longrightarrow> (\<And>v r. y = Some (v, r) \<Longrightarrow> f (v, r) = g (v, r)) \<Longrightarrow> Option.bind x f = Option.bind y g"
  by (cases y) auto

lemma if_eq: "(b \<Longrightarrow> x = x') \<Longrightarrow> (\<not> b \<Longrightarrow> y = y') \<Longrightarrow> (if b then x else y) = (if b then x' else y')"
  by simp

lemma shrinksD: "shrinks s x \<Longrightarrow> x = Some (v, r) \<Longrightarrow> length r < length s"
  by (simp add: shrinks_def)

lemma parse_fuel:
  "2 * length s < k \<Longrightarrow> 2 * length s < k' \<Longrightarrow> parse_value k d s = parse_value k' d s"
  "2 * length s + 1 < k \<Longrightarrow> 2 * length s + 1 < k' \<Longrightarrow> parse_elems k d s = parse_elems k' d s"
  "2 * length s < k \<Longrightarrow> 2 * length s < k' \<Longrightarrow> parse_members k d s = parse_members k' d s"
proof (induction k arbitrary: k' d s)
  case (Suc k)
  note next_less = shrinksD [OF shrinks_next] and value_less = shrinksD [OF parse_shrinks(1)]
  have V: "2 * length t < k \<Longrightarrow> 2 * length t < l \<Longrightarrow> parse_value k d t = parse_value l d t"
    and E: "2 * length t + 1 < k \<Longrightarrow> 2 * length t + 1 < l \<Longrightarrow> parse_elems k d t = parse_elems l d t"
    and M: "2 * length t < k \<Longrightarrow> 2 * length t < l \<Longrightarrow> parse_members k d t = parse_members l d t" for t l d
    using Suc.IH by blast+
  {
    case 1
    obtain l where l: "k' = Suc l" using 1(2) by (cases k') auto
    have "parse_elems k (Suc d) (e # u) = parse_elems l (Suc d) (e # u) \<and> parse_members k (Suc d) (e # u) = parse_members l (Suc d) (e # u)"
      if "next_char s = Some (c, t)" "next_char t = Some (e, u)" for c t e u
      using E [of "e # u" l "Suc d"] M [of "e # u" l "Suc d"] 1 next_less [OF that(1)] next_less [OF that(2)] l by simp
    then show ?case unfolding l by (auto intro!: bind_eq if_eq)
  next
    case 2
    obtain l where l: "k' = Suc l" using 2(2) by (cases k') auto
    have "parse_elems k d u = parse_elems l d u" if "parse_value l d s = Some (v, r)" "next_char r = Some (e, u)" for v r e u
      using E [of u l d] 2 value_less [OF that(1)] next_less [OF that(2)] l by simp
    then show ?case unfolding l using V [of s l d] 2 l by (auto intro!: bind_eq if_eq)
  next
    case 3
    obtain l where l: "k' = Suc l" using 3(2) by (cases k') auto
    have "parse_value k d u = parse_value l d u \<and>
        (parse_value l d u = Some (v, r2) \<longrightarrow> next_char r2 = Some (e2, u2) \<longrightarrow> parse_members k d u2 = parse_members l d u2)"
      if "next_char s = Some (q, t)" "unquote t = Some (name, r)" "next_char r = Some (e, u)" for q t name r e u v r2 e2 u2
      using V [of u l d] M [of u2 l d] 3 next_less [OF that(1)] unquote_length [OF that(2)] next_less [OF that(3)]
        value_less [of l d u v r2] next_less [of r2 e2 u2] l by auto
    then show ?case unfolding l by (auto intro!: bind_eq if_eq)
  }
qed simp_all

section \<open>Reading written objects\<close>

text \<open>A text that is read as a value wherever a comma or a closing brace follows it.\<close>

definition reads :: "string \<Rightarrow> json \<Rightarrow> bool" where
  "reads v j \<longleftrightarrow> (\<forall>k d e r. e = CHR '','' \<or> e = CHR 0x7D \<longrightarrow> parse_value (Suc k) d (v @ e # r) = Some (j, e # r))"

lemma next_char_Cons [simp]: "\<not> json_space c \<Longrightarrow> next_char (c # t) = Some (c, t)"
  by (simp add: next_char_def)

lemma json_space_marks [simp]:
  "\<not> json_space (CHR 0x22)" "\<not> json_space (CHR '':'')" "\<not> json_space (CHR '','')" "\<not> json_space (CHR 0x7B)" "\<not> json_space (CHR 0x7D)"
  by (simp_all add: json_space_def)

lemma reads_quote: "reads (quote s) (JStr (valid_utf8 s))"
  using unquote_quote_body [of s] by (simp add: reads_def quote_def)

lemma nat_digits_are_digits: "c \<in> set (nat_digits n) \<Longrightarrow> \<exists>d < 10. c = digit d"
proof (induction n rule: nat_digits.induct)
  case (1 n)
  then have "c = digit (n mod 10) \<or> (\<exists>d < 10. c = digit d)" by (subst (asm) (2) nat_digits.simps) (auto split: if_splits)
  then show ?case by (auto intro: exI [of _ "n mod 10"])
qed

lemma nat_digits_0: "nat_digits 0 = [CHR ''0'']"
  by (simp add: nat_digits.simps [of 0] digit_def char_of_eq_iff take_bit_eq_mod)

lemma hd_nat_digits_pos: "0 < n \<Longrightarrow> hd (nat_digits n) \<noteq> CHR ''0''"
proof (induction n rule: nat_digits.induct)
  case (1 n)
  show ?case
  proof (cases "n < 10")
    case True
    then have "hd (nat_digits n) = digit n" by (simp add: nat_digits.simps [of n])
    then have "code (hd (nat_digits n)) = 48 + n" using True by simp
    then show ?thesis using 1(2) by auto
  next
    case False
    then show ?thesis using 1 by (simp add: nat_digits.simps [of n])
  qed
qed

lemma digits1_nat_digits:
  "\<not> is_digit e \<Longrightarrow> digits1 (nat_digits n @ e # r) = Some (nat_digits n, e # r)"
proof -
  assume e: "\<not> is_digit e"
  have "\<forall>c \<in> set (nat_digits n). is_digit c" using nat_digits_are_digits by (metis digit_value_digit not_None_eq)
  then show ?thesis using e by (simp add: digits1_def takeWhile_append dropWhile_append)
qed

lemma number_int_nat_digits:
  assumes "\<not> is_digit e"
  shows "number_int (nat_digits n @ e # r) = Some (nat_digits n, e # r)"
proof (cases "n = 0")
  case True
  then show ?thesis by (simp add: number_int_def nat_digits_0)
next
  case False
  then obtain c cs where "nat_digits n = c # cs" "c \<noteq> CHR ''0''" using hd_nat_digits_pos [of n] by (cases "nat_digits n") auto
  then show ?thesis using digits1_nat_digits [OF assms, of n r] by (simp add: number_int_def)
qed

lemma mark_not_digit: "e = CHR '','' \<or> e = CHR 0x7D \<Longrightarrow> \<not> is_digit e"
  by (auto simp: digit_value_def)

lemma number_nat_digits:
  assumes "e = CHR '','' \<or> e = CHR 0x7D"
  shows "Option.bind (Option.bind (number_int (nat_digits n @ e # r)) (\<lambda>(p, s). prepend p (number_frac s))) (\<lambda>(p, s). prepend p (number_exp s)) =
    Some (nat_digits n, e # r)"
proof -
  have "number_int (nat_digits n @ e # r) = Some (nat_digits n, e # r)"
    by (rule number_int_nat_digits) (rule mark_not_digit [OF assms])
  then show ?thesis using assms by (auto simp: number_frac_def number_exp_def)
qed

lemma parse_number_Itoa:
  assumes "e = CHR '','' \<or> e = CHR 0x7D"
  shows "parse_number (Itoa n @ e # r) = Some (Itoa n, e # r)"
proof (cases "n < 0")
  case True
  then show ?thesis using number_nat_digits [OF assms, of "nat (- n)" r] by (simp add: parse_number_def Itoa_def)
next
  case False
  obtain c cs where c: "nat_digits (nat n) = c # cs" by (cases "nat_digits (nat n)") auto
  then have "c \<noteq> CHR ''-''" using nat_digits_no_minus by metis
  then show ?thesis using number_nat_digits [OF assms, of "nat n" r] False c by (simp add: parse_number_def Itoa_def)
qed

lemma hd_Itoa: "\<exists>c cs. Itoa n = c # cs \<and> (c = CHR ''-'' \<or> (\<exists>d < 10. c = digit d))"
  using hd_nat_digits [of "nat n"] by (cases "nat_digits (nat n)") (auto simp: Itoa_def)

lemma reads_Itoa: "reads (Itoa n) (JNum (Itoa n))"
proof -
  obtain c cs where i: "Itoa n = c # cs" and c: "c = CHR ''-'' \<or> (\<exists>d < 10. c = digit d)" using hd_Itoa by blast
  have "code c = 45 \<or> 48 \<le> code c \<and> code c < 58" using c by auto
  then have "c \<notin> {CHR 0x22, CHR 0x7B, CHR 0x5B, CHR ''t'', CHR ''f'', CHR ''n''} \<and> \<not> json_space c"
    by (auto simp: json_space_def)
  then show ?thesis using parse_number_Itoa [of _ n] i by (auto simp: reads_def)
qed

lemma readsD:
  "reads v j \<Longrightarrow> 0 < k \<Longrightarrow> e = CHR '','' \<or> e = CHR 0x7D \<Longrightarrow> parse_value k d (v @ e # r) = Some (j, e # r)"
  unfolding reads_def by (metis not0_implies_Suc less_numeral_extra(3))

lemma parse_member:
  assumes "reads v j" "0 < k"
  shows "parse_members (Suc k) d (quote name @ CHR '':'' # v @ CHR '','' # t) = map_option (apfst (Cons (valid_utf8 name, j))) (parse_members k d t)"
    and "parse_members (Suc k) d (quote name @ CHR '':'' # v @ CHR 0x7D # t) = Some ([(valid_utf8 name, j)], t)"
  using readsD [OF assms] unquote_quote_body [of name] by (simp_all add: quote_def)

lemma parse_written_members:
  "ms \<noteq> [] \<Longrightarrow> length ms \<le> k \<Longrightarrow> \<forall>(name, v) \<in> set ms. reads v (j (name, v)) \<Longrightarrow>
    parse_members (Suc k) d (write_members ms @ CHR 0x7D # r) = Some (map (\<lambda>m. (valid_utf8 (fst m), j m)) ms, r)"
proof (induction ms arbitrary: k rule: write_members.induct)
  case (2 name v)
  then show ?case using parse_member(2) [of v "j (name, v)" k] by (simp del: parse_members.simps)
next
  case (3 name v m ms)
  obtain l where l: "k = Suc l" using 3(3) by (cases k) auto
  then have "parse_members k d (write_members (m # ms) @ CHR 0x7D # r) = Some (map (\<lambda>m. (valid_utf8 (fst m), j m)) (m # ms), r)"
    using 3(1) [of l] 3(3,4) by (simp del: parse_members.simps)
  then show ?case using 3(4) parse_member(1) [of v "j (name, v)" k] l by (simp del: parse_members.simps)
qed simp

lemma write_members_length: "length ms \<le> length (write_members ms)"
  by (induction ms rule: write_members.induct) (auto simp: quote_def)

lemma parse_object:
  assumes "ms \<noteq> []" "\<forall>(name, v) \<in> set ms. reads v (j (name, v))"
  shows "parse_value (2 * length (write_object ms) + 1) 0 (write_object ms) = Some (JObj (map (\<lambda>m. (valid_utf8 (fst m), j m)) ms), [])"
proof -
  have "write_members ms \<noteq> [] \<and> hd (write_members ms) = CHR 0x22"
    using assms(1) by (cases ms rule: write_members.cases) (auto simp: quote_def)
  then obtain u where u: "write_members ms = CHR 0x22 # u" by (cases "write_members ms") auto
  let ?k = "2 * length (write_object ms)"
  obtain k where k: "?k = Suc k" "length ms \<le> k"
    using write_members_length [of ms] by (cases ?k) (auto simp: write_object_def)
  show ?thesis
    using parse_written_members [OF assms(1) k(2) assms(2), of "Suc 0" "[]"] k(1)
    by (simp add: write_object_def u max_depth_def)
qed

lemma json_whole_object:
  assumes "ms \<noteq> []" "\<forall>(name, v) \<in> set ms. reads v (j (name, v))"
  shows "json_whole (write_object ms) = Some (JObj (map (\<lambda>m. (valid_utf8 (fst m), j m)) ms))"
    and "json_first (write_object ms) = Some (JObj (map (\<lambda>m. (valid_utf8 (fst m), j m)) ms))"
  using parse_object [OF assms] by (simp_all add: json_whole_def json_first_def del: parse_value.simps)

end
