(* ===== verification/Auth.thy ===== *)
theory Auth
  imports Json
begin

text \<open>
  Tokens (\<open>src/internal/auth/jwt.go\<close>): roles, claims, the base64 alphabet of URLs, and signing and verifying a
  token. The keyed hash is a parameter \<open>mac\<close> of message and key; nothing is assumed of it.
\<close>

section \<open>Roles and claims\<close>

definition RoleAdmin :: string where "RoleAdmin = ''admin''"
definition RoleSubmitter :: string where "RoleSubmitter = ''submitter''"
definition RoleViewer :: string where "RoleViewer = ''viewer''"

datatype auth_error = ErrInvalidToken | ErrExpiredToken | ErrInvalidRole | ErrEmptySecret | ErrRoleNamed string

record claims =
  UserID :: string
  Role :: string
  IssuedAt :: int
  ExpiresAt :: int

definition IsValidRole :: "string \<Rightarrow> bool" where
  "IsValidRole role \<longleftrightarrow> role = RoleAdmin \<or> role = RoleSubmitter \<or> role = RoleViewer"

fun role_loop :: "string \<Rightarrow> string list \<Rightarrow> bool" where
  "role_loop userRole [] = False"
| "role_loop userRole (allowed # rest) = (if userRole = allowed then True else role_loop userRole rest)"

definition RoleSatisfies :: "string \<Rightarrow> string list \<Rightarrow> bool" where
  "RoleSatisfies userRole allowedRoles = (if userRole = RoleAdmin then True else role_loop userRole allowedRoles)"

section \<open>base64.RawURLEncoding\<close>

definition b64_char :: "nat \<Rightarrow> char" where
  "b64_char n =
     (if n < 26 then char_of (65 + n) else if n < 52 then char_of (71 + n) else if n < 62 then char_of (n - 4)
      else if n = 62 then CHR ''-'' else CHR ''_'')"

definition b64_value :: "char \<Rightarrow> nat option" where
  "b64_value c =
     (let n = code c
      in if 65 \<le> n \<and> n \<le> 90 then Some (n - 65)
         else if 97 \<le> n \<and> n \<le> 122 then Some (n - 71)
         else if 48 \<le> n \<and> n \<le> 57 then Some (n + 4)
         else if n = 45 then Some 62
         else if n = 95 then Some 63
         else None)"

fun b64_values :: "nat list \<Rightarrow> nat list" where
  "b64_values [] = []"
| "b64_values [a] = [a div 4, a mod 4 * 16]"
| "b64_values [a, b] = [a div 4, a mod 4 * 16 + b div 16, b mod 16 * 4]"
| "b64_values (a # b # c # r) = [a div 4, a mod 4 * 16 + b div 16, b mod 16 * 4 + c div 64, c mod 64] @ b64_values r"

definition EncodeToString :: "string \<Rightarrow> string" where
  "EncodeToString s = map b64_char (b64_values (map code s))"

text \<open>
  Decoding skips line breaks, fails on any other foreign character and on a single left-over one, and ignores
  the unused bits of the last one.
\<close>

fun b64_bytes :: "nat list \<Rightarrow> nat list option" where
  "b64_bytes [] = Some []"
| "b64_bytes [p] = None"
| "b64_bytes [p, q] = Some [p * 4 + q div 16]"
| "b64_bytes [p, q, r] = Some [p * 4 + q div 16, q mod 16 * 16 + r div 4]"
| "b64_bytes (p # q # r # s # t) =
     map_option ((@) [p * 4 + q div 16, q mod 16 * 16 + r div 4, r mod 4 * 64 + s]) (b64_bytes t)"

fun b64_read :: "string \<Rightarrow> nat list option" where
  "b64_read [] = Some []"
| "b64_read (c # s) =
     (if c = CHR 0x0A \<or> c = CHR 0x0D then b64_read s
      else case b64_value c of None \<Rightarrow> None | Some v \<Rightarrow> map_option (Cons v) (b64_read s))"

definition DecodeString :: "string \<Rightarrow> string option" where
  "DecodeString s = map_option (map char_of) (Option.bind (b64_read s) b64_bytes)"

section \<open>Tokens\<close>

text \<open>\<open>Time.Unix\<close>: seconds since 1970.\<close>

definition unix :: "time \<Rightarrow> int" where
  "unix t = t div Second - 62135596800"

definition header_json :: string where
  "header_json = write_object [(''alg'', quote ''HS256''), (''typ'', quote ''JWT'')]"

definition marshal_claims :: "claims \<Rightarrow> string" where
  "marshal_claims c = write_object
     [(''user_id'', quote (UserID c)), (''role'', quote (Role c)), (''iat'', Itoa (IssuedAt c)), (''exp'', Itoa (ExpiresAt c))]"

definition unmarshal_claims :: "string \<Rightarrow> claims option" where
  "unmarshal_claims bytes = do {
     v \<leftarrow> json_whole bytes;
     fs \<leftarrow> store_struct v [(''user_id'', FString []), (''role'', FString []), (''iat'', FInt 0), (''exp'', FInt 0)];
     Some \<lparr>UserID = get_string fs ''user_id'', Role = get_string fs ''role'',
           IssuedAt = get_int fs ''iat'', ExpiresAt = get_int fs ''exp''\<rparr>
   }"

abbreviation dot :: char where "dot \<equiv> CHR ''.''"

definition GenerateToken ::
  "(string \<Rightarrow> string \<Rightarrow> string) \<Rightarrow> time \<Rightarrow> string \<Rightarrow> string \<Rightarrow> string \<Rightarrow> duration \<Rightarrow> auth_error + string" where
  "GenerateToken mac now secret userID role ttl =
     (if secret = [] then Inl ErrEmptySecret
      else if \<not> IsValidRole role then Inl (ErrRoleNamed role)
      else
        let claims = \<lparr>UserID = userID, Role = role, IssuedAt = unix now, ExpiresAt = unix (now + ttl)\<rparr>;
            headerB64 = EncodeToString header_json;
            claimsB64 = EncodeToString (marshal_claims claims);
            signingInput = headerB64 @ [dot] @ claimsB64;
            sigB64 = EncodeToString (mac signingInput secret)
        in Inr (signingInput @ [dot] @ sigB64))"

definition VerifyToken :: "(string \<Rightarrow> string \<Rightarrow> string) \<Rightarrow> time \<Rightarrow> string \<Rightarrow> string \<Rightarrow> auth_error + claims" where
  "VerifyToken mac now secret tokenStr =
     (if secret = [] then Inl ErrEmptySecret
      else case split_on dot tokenStr of
        [headerB64, claimsB64, sigB64] \<Rightarrow>
          (case DecodeString sigB64 of
             None \<Rightarrow> Inl ErrInvalidToken
           | Some actualSig \<Rightarrow>
               if mac (headerB64 @ [dot] @ claimsB64) secret \<noteq> actualSig then Inl ErrInvalidToken
               else (case Option.bind (DecodeString claimsB64) unmarshal_claims of
                  None \<Rightarrow> Inl ErrInvalidToken
                | Some claims \<Rightarrow>
                    if ExpiresAt claims > 0 \<and> unix now > ExpiresAt claims then Inl ErrExpiredToken
                    else if \<not> IsValidRole (Role claims) then Inl ErrInvalidRole
                    else Inr claims))
      | _ \<Rightarrow> Inl ErrInvalidToken)"

section \<open>Round trips\<close>

lemma b64_value_char: "n < 64 \<Longrightarrow> b64_value (b64_char n) = Some n"
  by (auto simp: b64_value_def b64_char_def Let_def)

lemma b64_char_code: "n < 64 \<Longrightarrow> 45 \<le> code (b64_char n) \<and> code (b64_char n) \<noteq> 46"
  by (auto simp: b64_char_def)

lemma b64_values_less: "\<forall>b \<in> set bs. b < 256 \<Longrightarrow> v \<in> set (b64_values bs) \<Longrightarrow> v < 64"
  by (induction bs rule: b64_values.induct) auto

lemma b64_bytes_values: "\<forall>b \<in> set bs. b < 256 \<Longrightarrow> b64_bytes (b64_values bs) = Some bs"
  by (induction bs rule: b64_values.induct) auto

lemma b64_read_chars: "\<forall>v \<in> set vs. v < 64 \<Longrightarrow> b64_read (map b64_char vs) = Some vs"
proof (induction vs)
  case (Cons v vs)
  then have "b64_char v \<noteq> CHR 0x0A" "b64_char v \<noteq> CHR 0x0D" using b64_char_code [of v] by auto
  then show ?case using Cons by (simp add: b64_value_char)
qed simp

lemma codes_less: "\<forall>b \<in> set (map code s). b < (256 :: nat)"
  using of_char_mod_256 by auto

lemma DecodeString_EncodeToString: "DecodeString (EncodeToString s) = Some s"
proof -
  have "\<forall>v \<in> set (b64_values (map code s)). v < 64" using b64_values_less [OF codes_less] by blast
  then show ?thesis
    using b64_bytes_values [OF codes_less, of s] by (simp add: DecodeString_def EncodeToString_def b64_read_chars comp_def)
qed

lemma dot_not_encoded: "dot \<notin> set (EncodeToString s)"
proof
  assume "dot \<in> set (EncodeToString s)"
  then obtain v where "v \<in> set (b64_values (map code s))" "b64_char v = dot" by (auto simp: EncodeToString_def)
  then show False using b64_values_less [OF codes_less, of v s] b64_char_code [of v] by simp
qed

lemma claim_names:
  "valid_utf8 ''user_id'' = ''user_id''" "valid_utf8 ''role'' = ''role''" "valid_utf8 ''iat'' = ''iat''" "valid_utf8 ''exp'' = ''exp''"
  by (rule valid_utf8_ascii, simp)+

lemma role_utf8: "IsValidRole role \<Longrightarrow> valid_utf8 role = role"
  by (rule valid_utf8_ascii) (auto simp: IsValidRole_def RoleAdmin_def RoleSubmitter_def RoleViewer_def)

lemma unmarshal_marshal_claims:
  assumes "in_int64 (IssuedAt c)" "in_int64 (ExpiresAt c)"
  shows "unmarshal_claims (marshal_claims c) = Some (c\<lparr>UserID := valid_utf8 (UserID c), Role := valid_utf8 (Role c)\<rparr>)"
proof -
  let ?ms = "[(''user_id'', quote (UserID c)), (''role'', quote (Role c)), (''iat'', Itoa (IssuedAt c)), (''exp'', Itoa (ExpiresAt c))]"
  let ?j = "\<lambda>m. if fst m = ''user_id'' then JStr (valid_utf8 (UserID c)) else if fst m = ''role'' then JStr (valid_utf8 (Role c))
      else if fst m = ''iat'' then JNum (Itoa (IssuedAt c)) else JNum (Itoa (ExpiresAt c))"
  have "json_whole (marshal_claims c) = Some (JObj (map (\<lambda>m. (valid_utf8 (fst m), ?j m)) ?ms))"
    unfolding marshal_claims_def by (rule json_whole_object(1)) (simp_all add: reads_quote reads_Itoa)
  then show ?thesis
    using assms by (simp add: unmarshal_claims_def claim_names store_member_def field_for_def get_string_def get_int_def)
qed

lemma split_token:
  "dot \<notin> set h \<Longrightarrow> dot \<notin> set c \<Longrightarrow> dot \<notin> set s \<Longrightarrow> split_on dot (h @ dot # c @ dot # s) = [h, c, s]"
  by (simp add: split_on_append split_on_no_sep)

lemma split_on_parts: "w \<in> set (split_on c s) \<Longrightarrow> c \<notin> set w"
  by (induction s arbitrary: w) (auto split: if_splits list.splits)

fun join_on :: "char \<Rightarrow> string list \<Rightarrow> string" where
  "join_on c [] = []"
| "join_on c [w] = w"
| "join_on c (w # ws) = w @ c # join_on c ws"

lemma join_split: "join_on c (split_on c s) = s"
proof (induction s)
  case (Cons x s)
  obtain w ws where w: "split_on c s = w # ws" by (cases "split_on c s") auto
  then show ?case using Cons by (cases ws) auto
qed simp

lemma split_three:
  "split_on c s = [x, y, z] \<Longrightarrow> s = x @ [c] @ y @ [c] @ z \<and> c \<notin> set (x @ y @ z)"
  using join_split [of c s] split_on_parts [of _ c s] by auto

definition signed :: "(string \<Rightarrow> string \<Rightarrow> string) \<Rightarrow> string \<Rightarrow> claims \<Rightarrow> string" where
  "signed mac secret c =
     (let input = EncodeToString header_json @ [dot] @ EncodeToString (marshal_claims c)
      in input @ [dot] @ EncodeToString (mac input secret))"

lemma verify_signed:
  assumes "secret \<noteq> []" "IsValidRole (Role c)" "in_int64 (IssuedAt c)" "in_int64 (ExpiresAt c)"
  shows "VerifyToken mac now secret (signed mac secret c) =
    (if 0 < ExpiresAt c \<and> ExpiresAt c < unix now then Inl ErrExpiredToken else Inr (c\<lparr>UserID := valid_utf8 (UserID c)\<rparr>))"
  using assms unmarshal_marshal_claims [OF assms(3,4)]
  by (simp add: signed_def VerifyToken_def Let_def split_token dot_not_encoded DecodeString_EncodeToString role_utf8)

section \<open>Properties\<close>

text \<open>
  C13. A token does what it was issued for: with a secret and one of the three roles, \<open>GenerateToken\<close> succeeds,
  and verifying the token with the same secret gives back the user (invalid UTF-8 replaced), the role, and both times,
  until the second of its expiry has passed, and the expiry error after that. An expiry before 1970 never takes effect.
\<close>

theorem token_roundtrip:
  assumes "secret \<noteq> []" "IsValidRole role" "in_int64 (unix now)" "in_int64 (unix (now + ttl))"
  shows "\<exists>tok. GenerateToken mac now secret userID role ttl = Inr tok \<and>
    VerifyToken mac later secret tok =
      (if 0 < unix (now + ttl) \<and> unix (now + ttl) < unix later then Inl ErrExpiredToken
       else Inr \<lparr>UserID = valid_utf8 userID, Role = role, IssuedAt = unix now, ExpiresAt = unix (now + ttl)\<rparr>)"
proof -
  let ?c = "\<lparr>UserID = userID, Role = role, IssuedAt = unix now, ExpiresAt = unix (now + ttl)\<rparr>"
  have "GenerateToken mac now secret userID role ttl = Inr (signed mac secret ?c)"
    using assms(1,2) by (simp add: GenerateToken_def signed_def Let_def)
  then show ?thesis using verify_signed [of secret ?c mac later] assms by simp
qed

theorem token_roundtrip_witness:
  "\<exists>tok. GenerateToken (\<lambda>m k. k @ rev m) (62135596800 * Second) ''key'' ''ann'' ''viewer'' Hour = Inr tok \<and>
    VerifyToken (\<lambda>m k. k @ rev m) (62135596800 * Second + Minute) ''key'' tok =
      Inr \<lparr>UserID = ''ann'', Role = ''viewer'', IssuedAt = 0, ExpiresAt = 3600\<rparr> \<and>
    VerifyToken (\<lambda>m k. k @ rev m) (62135596800 * Second + 2 * Hour) ''key'' tok = Inl ErrExpiredToken"
proof -
  let ?t = "62135596800 * Second" and ?mac = "\<lambda>m k. k @ rev m"
  have u: "unix ?t = 0" "unix (?t + Hour) = 3600" "unix (?t + Minute) = 60" "unix (?t + 2 * Hour) = 7200"
    by (simp_all add: unix_def duration_defs)
  have r: "IsValidRole ''viewer''" and v: "valid_utf8 ''ann'' = ''ann''"
    by (simp add: IsValidRole_def RoleViewer_def, rule valid_utf8_ascii, simp)
  show ?thesis
    using token_roundtrip [of "''key''" "''viewer''" ?t Hour ?mac "''ann''" "?t + Minute"]
      token_roundtrip [of "''key''" "''viewer''" ?t Hour ?mac "''ann''" "?t + 2 * Hour"] r
    by (auto simp: u v in_int64_def)
qed

text \<open>
  C12. No token is accepted without its signature: if verification succeeds, the secret is not empty, the token has
  exactly three parts, the third is an encoding of the keyed hash of the first two under the secret, the claims are those of
  the second part, their role is one of the three, and their expiry, if positive, has not passed.
\<close>

theorem verified_token_is_signed:
  assumes "VerifyToken mac now secret tok = Inr c"
  shows "secret \<noteq> [] \<and> IsValidRole (Role c) \<and> (ExpiresAt c \<le> 0 \<or> unix now \<le> ExpiresAt c) \<and>
    (\<exists>h p s. tok = h @ [dot] @ p @ [dot] @ s \<and> dot \<notin> set (h @ p @ s) \<and>
       DecodeString s = Some (mac (h @ [dot] @ p) secret) \<and> Option.bind (DecodeString p) unmarshal_claims = Some c)"
proof -
  obtain h p s where s: "split_on dot tok = [h, p, s]" and rest:
      "DecodeString s = Some (mac (h @ [dot] @ p) secret)" "Option.bind (DecodeString p) unmarshal_claims = Some c"
      "\<not> (ExpiresAt c > 0 \<and> unix now > ExpiresAt c)" "IsValidRole (Role c)" "secret \<noteq> []"
    using assms by (auto simp: VerifyToken_def split: if_splits list.splits option.splits)
  then show ?thesis using split_three [OF s] by fastforce
qed

theorem verified_token_is_signed_witness:
  "\<exists>tok c. VerifyToken (\<lambda>m k. k @ rev m) 0 ''key'' tok = Inr c \<and> UserID c = ''ann'' \<and>
    (\<exists>h p s. tok = h @ [dot] @ p @ [dot] @ s \<and> DecodeString s = Some (''key'' @ rev (h @ [dot] @ p)))"
proof -
  let ?c = "\<lparr>UserID = ''ann'', Role = RoleViewer, IssuedAt = 0, ExpiresAt = 0\<rparr>" and ?mac = "\<lambda>m k. k @ rev m"
  have "valid_utf8 ''ann'' = ''ann''" by (rule valid_utf8_ascii) simp
  then have v: "VerifyToken ?mac 0 ''key'' (signed ?mac ''key'' ?c) = Inr ?c"
    using verify_signed [of "''key''" ?c ?mac 0] by (simp add: IsValidRole_def in_int64_def)
  show ?thesis using v verified_token_is_signed [OF v] by (intro exI [of _ "signed ?mac ''key'' ?c"] exI [of _ ?c]) auto
qed

end
