(* ===== verification/Events.thy ===== *)
theory Events
  imports Prelude
begin

text \<open>
  The event broadcaster (\<open>src/internal/events/broadcaster.go\<close>). A channel is known by a number; subscribing makes a
  new one. The mutex makes every method one step.
\<close>

section \<open>State\<close>

datatype event_type =
    EventWorkerRegistered | EventWorkerEvicted | EventJobSubmitted | EventLeaseGranted | EventLeaseReleased
  | EventLeaderChanged | EventQueueRebuilt | EventDispatchResumed | EventFailoverTriggered | EventOther string

record event =
  evType :: event_type
  evMessage :: string
  evTimestamp :: time
  evMetadata :: "(string, string) gomap"

record broadcaster =
  subscribers :: "nat goset"
  evChans :: "(nat, event channel) gomap"
  evClosed :: "nat goset"
  evNext :: nat

definition globalBroadcaster :: broadcaster where
  "globalBroadcaster = \<lparr>subscribers = [], evChans = [], evClosed = [], evNext = 0\<rparr>"

definition the_chan :: "broadcaster \<Rightarrow> nat \<Rightarrow> event channel" where
  "the_chan b ch = (case map_of (evChans b) ch of Some c \<Rightarrow> c | None \<Rightarrow> make_chan 0)"

section \<open>Operations\<close>

definition Subscribe :: "broadcaster \<Rightarrow> nat \<times> broadcaster" where
  "Subscribe b =
     (let ch = evNext b
      in (ch, b\<lparr>evChans := mput ch (make_chan 100) (evChans b), subscribers := mput ch () (subscribers b), evNext := Suc ch\<rparr>))"

text \<open>Closing a closed channel panics (\<open>None\<close>).\<close>

definition Unsubscribe :: "nat \<Rightarrow> broadcaster \<Rightarrow> broadcaster option" where
  "Unsubscribe ch b =
     (let b1 = b\<lparr>subscribers := mdel ch (subscribers b)\<rparr>
      in if map_of (evClosed b1) ch \<noteq> None then None else Some (b1\<lparr>evClosed := mput ch () (evClosed b1)\<rparr>))"

text \<open>Offering an event to one subscriber: a full channel drops it, a closed one panics.\<close>

definition offer :: "event \<Rightarrow> nat \<Rightarrow> broadcaster \<Rightarrow> broadcaster option" where
  "offer evt ch b =
     (if map_of (evClosed b) ch \<noteq> None then None
      else Some (b\<lparr>evChans := mput ch (snd (try_send evt (the_chan b ch))) (evChans b)\<rparr>))"

fun offer_all :: "event \<Rightarrow> nat list \<Rightarrow> broadcaster \<Rightarrow> broadcaster option" where
  "offer_all evt [] b = Some b"
| "offer_all evt (ch # chs) b = Option.bind (offer evt ch b) (offer_all evt chs)"

definition Broadcast :: "time \<Rightarrow> order_choice \<Rightarrow> event \<Rightarrow> broadcaster \<Rightarrow> broadcaster option" where
  "Broadcast now ord evt b =
     (let evt1 = (if evTimestamp evt = 0 then evt\<lparr>evTimestamp := now\<rparr> else evt)
      in offer_all evt1 (map fst (range_order ord (subscribers b))) b)"

text \<open>Several broadcasts, one after the other.\<close>

fun broadcasts :: "(time \<times> order_choice \<times> event) list \<Rightarrow> broadcaster \<Rightarrow> broadcaster option" where
  "broadcasts [] b = Some b"
| "broadcasts ((now, ord, evt) # es) b = Option.bind (Broadcast now ord evt b) (broadcasts es)"

text \<open>The reader's side of a subscription: an event, the end of a closed and drained channel, or nothing yet.\<close>

datatype received = Event event | Ended | Waiting

definition receive :: "nat \<Rightarrow> broadcaster \<Rightarrow> received \<times> broadcaster" where
  "receive ch b =
     (case try_recv (the_chan b ch) of
        Some (evt, c) \<Rightarrow> (Event evt, b\<lparr>evChans := mput ch c (evChans b)\<rparr>)
      | None \<Rightarrow> (if map_of (evClosed b) ch \<noteq> None then Ended else Waiting, b))"

section \<open>The invariant\<close>

text \<open>Every subscriber has an open channel of its own with room for 100 events; numbers are not used twice.\<close>

definition events_inv :: "broadcaster \<Rightarrow> bool" where
  "events_inv b \<longleftrightarrow> wf_map (subscribers b) \<and>
     (\<forall>ch. map_of (subscribers b) ch \<noteq> None \<longrightarrow>
        map_of (evClosed b) ch = None \<and> cap (the_chan b ch) = 100 \<and> chan_ok (the_chan b ch) \<and> ch < evNext b) \<and>
     (\<forall>ch. map_of (evClosed b) ch \<noteq> None \<longrightarrow> ch < evNext b)"

lemma events_inv_global: "events_inv globalBroadcaster"
  by (simp add: events_inv_def globalBroadcaster_def)

lemma the_chan_put:
  "the_chan (b\<lparr>evChans := mput ch c (evChans b)\<rparr>) ch' = (if ch' = ch then c else the_chan b ch')"
  by (simp add: the_chan_def)

lemma the_chan_frame [simp]: "the_chan (b\<lparr>subscribers := s\<rparr>) = the_chan b" "the_chan (b\<lparr>evClosed := s\<rparr>) = the_chan b"
  "the_chan (b\<lparr>evNext := n\<rparr>) = the_chan b"
  by (simp_all add: the_chan_def fun_eq_iff)

lemma Subscribe_new:
  assumes "events_inv b" "Subscribe b = (ch, b')"
  shows "events_inv b'" "map_of (subscribers b) ch = None" "map_of (subscribers b') ch \<noteq> None" "buf (the_chan b' ch) = []"
proof -
  have b': "b' = b\<lparr>evChans := mput ch (make_chan 100) (evChans b), subscribers := mput ch () (subscribers b), evNext := Suc ch\<rparr>"
    and ch: "ch = evNext b" using assms(2) by (auto simp: Subscribe_def Let_def)
  have c: "the_chan b' x = (if x = ch then make_chan 100 else the_chan b x)" for x by (simp add: b' the_chan_def)
  have "map_of (evClosed b) ch = None" using assms(1) ch unfolding events_inv_def by blast
  then show "events_inv b'"
    using assms(1) ch unfolding events_inv_def c by (auto simp: b' make_chan_def chan_ok_def less_Suc_eq)
  show "map_of (subscribers b) ch = None" using assms(1) ch unfolding events_inv_def by blast
  show "map_of (subscribers b') ch \<noteq> None" by (simp add: b')
  show "buf (the_chan b' ch) = []" unfolding c by (simp add: make_chan_def)
qed

lemma Unsubscribe_once:
  assumes "events_inv b" "map_of (subscribers b) ch \<noteq> None"
  shows "\<exists>b'. Unsubscribe ch b = Some b' \<and> events_inv b' \<and> map_of (subscribers b') ch = None \<and> Unsubscribe ch b' = None"
  using assms by (auto simp: Unsubscribe_def events_inv_def Let_def)

lemma offer_all_open:
  assumes "distinct chs" "\<forall>ch \<in> set chs. map_of (evClosed b) ch = None"
  shows "\<exists>cs. offer_all evt chs b = Some (b\<lparr>evChans := cs\<rparr>) \<and>
    (\<forall>ch. the_chan (b\<lparr>evChans := cs\<rparr>) ch = (if ch \<in> set chs then snd (try_send evt (the_chan b ch)) else the_chan b ch))"
  using assms
proof (induction chs arbitrary: b)
  case Nil
  then show ?case by (intro exI [of _ "evChans b"]) simp
next
  case (Cons ch chs)
  let ?b = "b\<lparr>evChans := mput ch (snd (try_send evt (the_chan b ch))) (evChans b)\<rparr>"
  obtain cs where cs: "offer_all evt chs ?b = Some (?b\<lparr>evChans := cs\<rparr>)"
      "\<forall>x. the_chan (?b\<lparr>evChans := cs\<rparr>) x = (if x \<in> set chs then snd (try_send evt (the_chan ?b x)) else the_chan ?b x)"
    using Cons.IH [of ?b] Cons.prems by auto
  have "offer_all evt (ch # chs) b = Some (b\<lparr>evChans := cs\<rparr>)" using cs(1) Cons.prems by (simp add: offer_def)
  moreover have "the_chan (b\<lparr>evChans := cs\<rparr>) x =
      (if x \<in> set (ch # chs) then snd (try_send evt (the_chan b x)) else the_chan b x)" for x
    using cs(2) Cons.prems(1) by (auto simp: the_chan_put)
  ultimately show ?case by blast
qed

definition stamped :: "time \<Rightarrow> event \<Rightarrow> event" where
  "stamped now evt = (if evTimestamp evt = 0 then evt\<lparr>evTimestamp := now\<rparr> else evt)"

lemma Broadcast_effect:
  assumes "events_inv b"
  shows "\<exists>b'. Broadcast now ord evt b = Some b' \<and> events_inv b' \<and> subscribers b' = subscribers b \<and>
    (\<forall>ch. the_chan b' ch =
       (if map_of (subscribers b) ch \<noteq> None then snd (try_send (stamped now evt) (the_chan b ch)) else the_chan b ch))"
proof -
  let ?chs = "map fst (range_order ord (subscribers b))"
  have m: "ch \<in> set ?chs \<longleftrightarrow> map_of (subscribers b) ch \<noteq> None" for ch using mem_dom_map [of ch "subscribers b"] by simp
  have "wf_map (range_order ord (subscribers b))" using assms by (simp add: events_inv_def)
  then have d: "distinct ?chs" by (simp add: wf_map_def)
  have "\<forall>ch \<in> set ?chs. map_of (evClosed b) ch = None" using assms m unfolding events_inv_def by blast
  then obtain cs where cs: "offer_all (stamped now evt) ?chs b = Some (b\<lparr>evChans := cs\<rparr>)"
      "\<forall>ch. the_chan (b\<lparr>evChans := cs\<rparr>) ch = (if ch \<in> set ?chs then snd (try_send (stamped now evt) (the_chan b ch)) else the_chan b ch)"
    using offer_all_open [OF d] by blast
  have "events_inv (b\<lparr>evChans := cs\<rparr>)"
    using assms cs(2) m unfolding events_inv_def by simp
  then show ?thesis using cs m by (intro exI [of _ "b\<lparr>evChans := cs\<rparr>"]) (simp add: Broadcast_def stamped_def)
qed

section \<open>Properties\<close>

text \<open>
  C26. Broadcasting never panics and never waits for a reader: whatever is broadcast, in whatever order the subscribers are
  visited, every subscriber's channel holds what it held before followed by the new events in order, cut off
  at 100. Events beyond that are lost for this subscriber and for no other.
\<close>

theorem events_in_order_until_full:
  assumes "events_inv b" "map_of (subscribers b) ch \<noteq> None"
  shows "\<exists>b'. broadcasts es b = Some b' \<and> events_inv b' \<and>
    buf (the_chan b' ch) = take 100 (buf (the_chan b ch) @ map (\<lambda>(now, _, evt). stamped now evt) es)"
  using assms
proof (induction es arbitrary: b)
  case Nil
  then have "length (buf (the_chan b ch)) \<le> 100" unfolding events_inv_def chan_ok_def by fastforce
  then show ?case using Nil by simp
next
  case (Cons x es)
  obtain now ord evt where x: "x = (now, ord, evt)" by (cases x)
  obtain b1 where b1: "Broadcast now ord evt b = Some b1" "events_inv b1" "subscribers b1 = subscribers b"
      "the_chan b1 ch = snd (try_send (stamped now evt) (the_chan b ch))"
    using Broadcast_effect [OF Cons.prems(1)] Cons.prems(2) by metis
  have "length (buf (the_chan b ch)) \<le> 100" "cap (the_chan b ch) = 100"
    using Cons.prems unfolding events_inv_def chan_ok_def by fastforce+
  then have "take 100 (buf (the_chan b1 ch) @ ys) = take 100 (buf (the_chan b ch) @ stamped now evt # ys)" for ys
    by (auto simp: b1(4) try_send_def take_Cons')
  then show ?case using Cons.IH [OF b1(2)] Cons.prems(2) b1(1,3) by (auto simp: x)
qed

theorem events_in_order_until_full_witness:
  "let (ch, b) = Subscribe globalBroadcaster;
       evt = \<lparr>evType = EventQueueRebuilt, evMessage = [], evTimestamp = 0, evMetadata = []\<rparr>
   in \<exists>b'. broadcasts [(5, [], evt), (6, [1], evt)] b = Some b' \<and> map evTimestamp (buf (the_chan b' ch)) = [5, 6]"
proof -
  obtain ch b where s: "Subscribe globalBroadcaster = (ch, b)" by fastforce
  let ?evt = "\<lparr>evType = EventQueueRebuilt, evMessage = [], evTimestamp = 0, evMetadata = []\<rparr>"
  note n = Subscribe_new [OF events_inv_global s]
  show ?thesis
    using events_in_order_until_full [OF n(1,3), of "[(5, [], ?evt), (6, [1], ?evt)]"] n(4)
    by (auto simp: s stamped_def)
qed

end
