(* ===== verification/Http.thy ===== *)
theory Http
  imports Auth Engine Events
begin

text \<open>
  Requests, response writers and handlers, the error replies (\<open>src/internal/httpapi/response.go\<close>), and the
  middleware (\<open>src/internal/middleware\<close>): authentication, roles, request IDs, logging and tracing. A handler takes the
  request, the writer and a state, and returns or panics; a panic keeps the changes made before it.
\<close>

section \<open>Requests and writers\<close>

record request =
  Method :: string
  Path :: string
  PathID :: string
  Authorization :: string
  XRequestID :: string
  Body :: string
  ctxClaims :: "claims option"
  ctxRequestID :: "string option"

text \<open>What is written into a body: a line of text, or a value that goes through the JSON encoder.\<close>

record cluster_status =
  TotalNodes :: nat
  ActiveNodes :: nat
  DeadNodes :: nat
  TotalJobs :: nat
  PendingJobs :: nat
  CompletedJobs :: nat
  FailedJobs :: nat
  CancelledJobs :: nat
  LeaderNode :: string
  RaftTerm :: nat

datatype payload =
    TextLine string
  | ErrorResponse string
  | AuthError nat string
  | Submitted int string
  | ScheduledAt int time
  | JobList "job list"
  | OneJob job
  | StatusOnly string
  | StatusWithID string string
  | CronList "cron_job list"
  | NodeList "node_snapshot list"
  | ClusterStatusOf cluster_status
  | RaftStatusOf bool nat string string
  | EmptyObject
  | Simulated
  | Evicted int
  | EventData event
  | ServiceRunning
  | Metrics
  | StaticFile

record writer =
  flusher :: bool
  wHeader :: "(string, string) gomap"
  wStatus :: "nat option"
  wBody :: "payload list"

definition set_header :: "string \<Rightarrow> string \<Rightarrow> writer \<Rightarrow> writer" where
  "set_header k v w = w\<lparr>wHeader := mput k v (wHeader w)\<rparr>"

text \<open>The first status counts; writing a body sends 200 if none was sent.\<close>

definition WriteHeader :: "nat \<Rightarrow> writer \<Rightarrow> writer" where
  "WriteHeader c w = (if wStatus w = None then w\<lparr>wStatus := Some c\<rparr> else w)"

definition write_body :: "payload \<Rightarrow> writer \<Rightarrow> writer" where
  "write_body p w = (let w1 = WriteHeader 200 w in w1\<lparr>wBody := wBody w1 @ [p]\<rparr>)"

definition http_Error :: "string \<Rightarrow> nat \<Rightarrow> writer \<Rightarrow> writer" where
  "http_Error msg c w =
     write_body (TextLine msg) (WriteHeader c
       (set_header ''X-Content-Type-Options'' ''nosniff'' (set_header ''Content-Type'' ''text/plain; charset=utf-8'' w)))"

definition json_type :: "writer \<Rightarrow> writer" where
  "json_type = set_header ''Content-Type'' ''application/json''"

definition WriteError :: "nat \<Rightarrow> string \<Rightarrow> writer \<Rightarrow> writer" where
  "WriteError c msg w = write_body (ErrorResponse msg) (WriteHeader c (json_type w))"

definition json_reply :: "payload \<Rightarrow> writer \<Rightarrow> writer" where
  "json_reply p w = write_body p (json_type w)"

datatype 'w outcome = Returned writer 'w | Panicked 'w

type_synonym 'w handler = "request \<Rightarrow> writer \<Rightarrow> 'w \<Rightarrow> 'w outcome"

definition reply :: "writer \<Rightarrow> 'w \<Rightarrow> 'w outcome" where
  "reply w s = Returned w s"

section \<open>Authentication\<close>

definition writeAuthError :: "nat \<Rightarrow> string \<Rightarrow> writer \<Rightarrow> writer" where
  "writeAuthError c msg w = write_body (AuthError c msg) (WriteHeader c (json_type w))"

text \<open>\<open>strings.SplitN(s, " ", 2)\<close>, and \<open>strings.EqualFold\<close> against a text of ASCII letters other than k and s.\<close>

definition split_space :: "string \<Rightarrow> string list" where
  "split_space s =
     (if CHR '' '' \<in> set s then
        [takeWhile (\<lambda>c. c \<noteq> CHR '' '') s, tl (dropWhile (\<lambda>c. c \<noteq> CHR '' '') s)]
      else [s])"

definition to_lower :: "char \<Rightarrow> char" where
  "to_lower c = (if 65 \<le> code c \<and> code c \<le> 90 then char_of (code c + 32) else c)"

definition equal_fold :: "string \<Rightarrow> string \<Rightarrow> bool" where
  "equal_fold s t \<longleftrightarrow> map to_lower s = map to_lower t"

definition UserFromContext :: "request \<Rightarrow> claims option" where
  "UserFromContext r = ctxClaims r"

definition UserIDFromContext :: "request \<Rightarrow> string" where
  "UserIDFromContext r = (case UserFromContext r of Some c \<Rightarrow> UserID c | None \<Rightarrow> [])"

definition RoleFromContext :: "request \<Rightarrow> string" where
  "RoleFromContext r = (case UserFromContext r of Some c \<Rightarrow> Role c | None \<Rightarrow> [])"

definition Authenticate :: "(string \<Rightarrow> string \<Rightarrow> string) \<Rightarrow> time \<Rightarrow> string \<Rightarrow> 'w handler \<Rightarrow> 'w handler" where
  "Authenticate mac now secret nxt r w s =
     (let authHeader = Authorization r
      in if authHeader = [] then reply (writeAuthError 401 ''missing Authorization header'' w) s
         else
           let parts = split_space authHeader
           in if length parts \<noteq> 2 \<or> \<not> equal_fold (parts ! 0) ''Bearer'' then
                reply (writeAuthError 401 (''invalid Authorization header format, expected '' @ CHR 0x27 # ''Bearer <token>'' @ [CHR 0x27]) w) s
              else (case VerifyToken mac now secret (TrimSpace (parts ! 1)) of
                 Inl err \<Rightarrow>
                   if err = ErrExpiredToken then reply (writeAuthError 401 ''token has expired'' w) s
                   else reply (writeAuthError 401 ''invalid or malformed token'' w) s
               | Inr claims \<Rightarrow> nxt (r\<lparr>ctxClaims := Some claims\<rparr>) w s))"

definition RequireRoles :: "(string \<Rightarrow> string \<Rightarrow> string) \<Rightarrow> time \<Rightarrow> string \<Rightarrow> string list \<Rightarrow> 'w handler \<Rightarrow> 'w handler" where
  "RequireRoles mac now secret allowedRoles nxt =
     Authenticate mac now secret (\<lambda>r w s.
       case UserFromContext r of
         None \<Rightarrow> reply (writeAuthError 403 ''insufficient permissions for this resource'' w) s
       | Some claims \<Rightarrow>
           if \<not> RoleSatisfies (Role claims) allowedRoles then
             reply (writeAuthError 403 ''insufficient permissions for this resource'' w) s
           else nxt r w s)"

definition RequireAdmin :: "(string \<Rightarrow> string \<Rightarrow> string) \<Rightarrow> time \<Rightarrow> string \<Rightarrow> 'w handler \<Rightarrow> 'w handler" where
  "RequireAdmin mac now secret = RequireRoles mac now secret [RoleAdmin]"

definition RequireSubmitter :: "(string \<Rightarrow> string \<Rightarrow> string) \<Rightarrow> time \<Rightarrow> string \<Rightarrow> 'w handler \<Rightarrow> 'w handler" where
  "RequireSubmitter mac now secret = RequireRoles mac now secret [RoleSubmitter, RoleAdmin]"

definition RequireViewer :: "(string \<Rightarrow> string \<Rightarrow> string) \<Rightarrow> time \<Rightarrow> string \<Rightarrow> 'w handler \<Rightarrow> 'w handler" where
  "RequireViewer mac now secret = RequireRoles mac now secret [RoleViewer, RoleSubmitter, RoleAdmin]"

section \<open>Request IDs, logging and tracing\<close>

text \<open>
  \<open>RequestID\<close> takes the header of an upstream proxy or the hexadecimal text of a random number (\<open>rnd\<close>, below 2 to the 63), padded
  to 16 digits.
\<close>

definition hex16 :: "nat \<Rightarrow> string" where
  "hex16 n = map (\<lambda>k. hex_digit (n div 16 ^ k mod 16)) (rev [0..<16])"

definition RequestID :: "nat \<Rightarrow> 'w handler \<Rightarrow> 'w handler" where
  "RequestID rnd nxt r w s =
     (let rid = (if XRequestID r = [] then hex16 rnd else XRequestID r)
      in nxt (r\<lparr>ctxRequestID := Some rid\<rparr>) (set_header ''X-Request-ID'' rid w) s)"

definition RequestIDFromContext :: "request \<Rightarrow> string" where
  "RequestIDFromContext r = (case ctxRequestID r of Some i \<Rightarrow> i | None \<Rightarrow> [])"

text \<open>
  \<open>Logging\<close> and \<open>Tracing\<close> hand on a \<open>responseWriter\<close>, a struct that embeds the interface
  \<open>http.ResponseWriter\<close> and so has its three methods and no \<open>Flush\<close>. What they log is not modelled.
\<close>

definition wrap_writer :: "'w handler \<Rightarrow> 'w handler" where
  "wrap_writer nxt r w s =
     (case nxt r (w\<lparr>flusher := False\<rparr>) s of
        Returned w' s' \<Rightarrow> Returned (w'\<lparr>flusher := flusher w\<rparr>) s'
      | Panicked s' \<Rightarrow> Panicked s')"

definition Logging :: "'w handler \<Rightarrow> 'w handler" where
  "Logging nxt = wrap_writer nxt"

definition Tracing :: "'w handler \<Rightarrow> 'w handler" where
  "Tracing nxt = wrap_writer nxt"

section \<open>What the middleware guarantees\<close>

definition permitted :: "(string \<Rightarrow> string \<Rightarrow> string) \<Rightarrow> time \<Rightarrow> string \<Rightarrow> string list \<Rightarrow> request \<Rightarrow> bool" where
  "permitted mac now secret roles r \<longleftrightarrow>
     (\<exists>scheme tok c. split_space (Authorization r) = [scheme, tok] \<and> equal_fold scheme ''Bearer'' \<and>
        VerifyToken mac now secret (TrimSpace tok) = Inr c \<and> (Role c = RoleAdmin \<or> Role c \<in> set roles))"

lemma role_loop_set: "role_loop u rs \<longleftrightarrow> u \<in> set rs"
  by (induction rs) auto

lemma RoleSatisfies_iff: "RoleSatisfies u rs \<longleftrightarrow> u = RoleAdmin \<or> u \<in> set rs"
  by (simp add: RoleSatisfies_def role_loop_set)

lemma split_space_cases: "(\<exists>x. split_space s = [x]) \<or> (\<exists>x y. split_space s = [x, y])"
  by (simp add: split_space_def)

lemma RequireRoles_permitted:
  assumes "permitted mac now secret roles r"
  shows "\<exists>c. RequireRoles mac now secret roles nxt r w s = nxt (r\<lparr>ctxClaims := Some c\<rparr>) w s"
proof -
  obtain scheme tok c where p: "split_space (Authorization r) = [scheme, tok]" "equal_fold scheme ''Bearer''"
      "VerifyToken mac now secret (TrimSpace tok) = Inr c" "Role c = RoleAdmin \<or> Role c \<in> set roles"
    using assms by (auto simp: permitted_def)
  then have "Authorization r \<noteq> []" by (auto simp: split_space_def)
  then show ?thesis using p by (intro exI [of _ c]) (simp add: RequireRoles_def Authenticate_def UserFromContext_def RoleSatisfies_iff)
qed

lemma RequireRoles_refused:
  assumes "\<not> permitted mac now secret roles r"
  shows "\<exists>c msg. (c = 401 \<or> c = 403) \<and> RequireRoles mac now secret roles nxt r w s = Returned (writeAuthError c msg w) s"
proof (cases "Authorization r = []")
  case False
  consider x where "split_space (Authorization r) = [x]" | x y where "split_space (Authorization r) = [x, y]"
    using split_space_cases by blast
  then show ?thesis
  proof cases
    case (2 x y)
    then show ?thesis
      using assms False
      by (cases "VerifyToken mac now secret (TrimSpace y)")
        (auto simp: permitted_def RequireRoles_def Authenticate_def UserFromContext_def RoleSatisfies_iff reply_def)
  qed (use False in \<open>auto simp: RequireRoles_def Authenticate_def reply_def\<close>)
qed (auto simp: RequireRoles_def Authenticate_def reply_def)

end
