(* ===== verification/Go_Time.thy ===== *)
theory Go_Time
  imports Go_Strings "HOL-Library.Monad_Syntax"
begin

text \<open>
  The parts of Go's \<open>time\<close> package that the HTTP handlers call: \<open>time.Parse\<close> with the layout
  \<open>time.RFC3339\<close>, on the proleptic Gregorian calendar.
\<close>

section \<open>The calendar\<close>

definition is_leap :: "int \<Rightarrow> bool" where
  "is_leap y \<longleftrightarrow> y mod 4 = 0 \<and> (y mod 100 \<noteq> 0 \<or> y mod 400 = 0)"

definition days_in :: "nat \<Rightarrow> int \<Rightarrow> nat" where
  "days_in m y =
     (if m = 2 then if is_leap y then 29 else 28
      else if m = 4 \<or> m = 6 \<or> m = 9 \<or> m = 11 then 30 else 31)"

text \<open>Days from the first day of year 1 to the first day of a year, of a month of it, and to a date.\<close>

definition year_start :: "int \<Rightarrow> int" where
  "year_start y = 365 * (y - 1) + (y - 1) div 4 - (y - 1) div 100 + (y - 1) div 400"

definition month_start :: "nat \<Rightarrow> int \<Rightarrow> int" where
  "month_start m y = year_start y + (\<Sum>k \<leftarrow> [1..<m]. int (days_in k y))"

definition date_days :: "int \<Rightarrow> nat \<Rightarrow> nat \<Rightarrow> int" where
  "date_days y m d = month_start m y + int d - 1"

section \<open>time.Parse\<close>

definition expect :: "char \<Rightarrow> string \<Rightarrow> string option" where
  "expect c s = (case s of [] \<Rightarrow> None | x # t \<Rightarrow> if x = c then Some t else None)"

text \<open>\<open>getnum\<close>: two digits, or one where the layout does not fix the width.\<close>

definition getnum :: "bool \<Rightarrow> string \<Rightarrow> (nat \<times> string) option" where
  "getnum fixed s =
     (case s of
        [] \<Rightarrow> None
      | a # t \<Rightarrow>
          (case digit_value a of
             None \<Rightarrow> None
           | Some x \<Rightarrow>
               (case t of
                  [] \<Rightarrow> if fixed then None else Some (x, t)
                | b # u \<Rightarrow>
                    (case digit_value b of
                       None \<Rightarrow> if fixed then None else Some (x, t)
                     | Some y \<Rightarrow> Some (10 * x + y, u)))))"

definition get_year :: "string \<Rightarrow> (nat \<times> string) option" where
  "get_year s =
     (if length s < 4 then None
      else case parse_digits 0 (take 4 s) of None \<Rightarrow> None | Some y \<Rightarrow> Some (y, drop 4 s))"

text \<open>A fraction of a second, though the layout has none: digits after the ninth are dropped.\<close>

definition get_fraction :: "string \<Rightarrow> int \<times> string" where
  "get_fraction s =
     (case s of
        p # a # t \<Rightarrow>
          if (p = CHR ''.'' \<or> p = CHR '','') \<and> digit_value a \<noteq> None then
            let ds = takeWhile (\<lambda>c. digit_value c \<noteq> None) (a # t);
                kept = take 9 ds
            in (case parse_digits 0 kept of Some n \<Rightarrow> int n * 10 ^ (9 - length kept) | None \<Rightarrow> 0, drop (length ds) (a # t))
          else (0, s)
      | _ \<Rightarrow> (0, s))"

text \<open>The zone: \<open>Z\<close>, or a sign, two digits, a colon and two digits; the seconds east of UTC.\<close>

definition get_zone :: "string \<Rightarrow> (int \<times> string) option" where
  "get_zone s =
     (case s of
        [] \<Rightarrow> None
      | c # t \<Rightarrow>
          if c = CHR ''Z'' then Some (0, t)
          else do {
            (hr, u) \<leftarrow> getnum True t;
            u1 \<leftarrow> expect (CHR '':'') u;
            (mm, v) \<leftarrow> getnum True u1;
            if hr > 24 \<or> mm > 60 then None
            else if c = CHR ''+'' then Some (int (60 * (60 * hr + mm)), v)
            else if c = CHR ''-'' then Some (- int (60 * (60 * hr + mm)), v)
            else None
          })"

definition ParseRFC3339 :: "string \<Rightarrow> time option" where
  "ParseRFC3339 s0 = do {
     (year, s1) \<leftarrow> get_year s0;
     s2 \<leftarrow> expect (CHR ''-'') s1;
     (month, s3) \<leftarrow> getnum True s2;
     s4 \<leftarrow> expect (CHR ''-'') s3;
     (day, s5) \<leftarrow> getnum True s4;
     s6 \<leftarrow> expect (CHR ''T'') s5;
     (hour, s7) \<leftarrow> getnum False s6;
     s8 \<leftarrow> expect (CHR '':'') s7;
     (mins, s9) \<leftarrow> getnum True s8;
     s10 \<leftarrow> expect (CHR '':'') s9;
     (sec, s11) \<leftarrow> getnum True s10;
     let (nsec, s12) = get_fraction s11;
     (offset, s13) \<leftarrow> get_zone s12;
     if month < 1 \<or> 12 < month \<or> 24 \<le> hour \<or> 60 \<le> mins \<or> 60 \<le> sec \<or> s13 \<noteq> [] then None
     else if day < 1 \<or> days_in month (int year) < day then None
     else Some ((86400 * date_days (int year) month day + int (3600 * hour + 60 * mins + sec) - offset) * Second + nsec)
   }"

section \<open>The calendar has no gaps\<close>

lemma div_step: "0 < n \<Longrightarrow> y div n = (y - 1) div n + (if y mod n = 0 then 1 else 0)" for y n :: int
proof -
  assume n: "0 < n"
  have y: "y = n * (y div n) + y mod n" by simp
  show ?thesis
  proof (cases "y mod n = 0")
    case True
    then have "(y - 1) div n = y div n - 1"
      using y n by (intro int_div_pos_eq [of _ _ _ "n - 1"]) (simp_all add: algebra_simps)
    then show ?thesis using True by simp
  next
    case False
    have "0 \<le> y mod n" "y mod n < n" using n by simp_all
    then have "0 \<le> y mod n - 1" "y mod n - 1 < n" using False by linarith+
    moreover have "y - 1 = n * (y div n) + (y mod n - 1)" using y by linarith
    ultimately have "(y - 1) div n = y div n" by (intro int_div_pos_eq)
    then show ?thesis using False by simp
  qed
qed

lemma year_start_next: "year_start (y + 1) = year_start y + (if is_leap y then 366 else 365)"
proof -
  let ?q = "\<lambda>n. if y mod n = 0 then 1 else 0 :: int"
  have add: "a = a' + p \<Longrightarrow> b = b' + q \<Longrightarrow> c = c' + r \<Longrightarrow> 365 * y + a - b + c = (365 * (y - 1) + a' - b' + c') + (365 + p - q + r)"
    for a b c a' b' c' p q r :: int by simp
  have "year_start (y + 1) = year_start y + (365 + ?q 4 - ?q 100 + ?q 400)"
    using add [OF div_step [of 4 y] div_step [of 100 y] div_step [of 400 y]] by (simp only: year_start_def zero_less_numeral add_diff_cancel_right')
  moreover have "y mod 400 = 0 \<Longrightarrow> y mod 100 = 0" "y mod 100 = 0 \<Longrightarrow> y mod 4 = 0"
    using dvd_trans [of 100 400 y] dvd_trans [of 4 100 y] by (simp_all add: mod_eq_0_iff_dvd)
  ultimately show ?thesis by (simp only: is_leap_def split: if_split) auto
qed

lemma month_start_next: "1 \<le> m \<Longrightarrow> month_start (Suc m) y = month_start m y + int (days_in m y)"
  by (simp add: month_start_def)

end
