(* ===== verification/Handlers.thy ===== *)
theory Handlers
  imports Http Go_Time
begin

text \<open>
  The HTTP handlers (\<open>src/internal/handlers\<close>) and the event stream of
  \<open>src/internal/events/broadcaster.go\<close>. Their state is the engine and the broadcaster; what they take from their surroundings
  (the store, the consensus node, the clock, the order of iterations, the configuration, the keyed hash) is the argument \<open>v\<close>.
\<close>

section \<open>State and surroundings\<close>

record 's world =
  theEngine :: "'s engine"
  theEvents :: broadcaster

record 's env =
  envStore :: "'s store_ops"
  envRaft :: "'s raft_ops option"
  envNow :: time
  envOff :: duration
  envOrd :: order_choice
  envOrd2 :: order_choice
  envConfig :: config
  envMac :: "string \<Rightarrow> string \<Rightarrow> string"

abbreviation set_engine :: "'s engine \<Rightarrow> 's world \<Rightarrow> 's world" where
  "set_engine e s \<equiv> s\<lparr>theEngine := e\<rparr>"

section \<open>Jobs\<close>

record SubmitJobRequest =
  srType :: string
  srPriority :: int
  srRunAt :: string
  srKey :: string

definition decode_submit :: "string \<Rightarrow> SubmitJobRequest option" where
  "decode_submit body = do {
     v \<leftarrow> json_first body;
     fs \<leftarrow> store_struct v [(''type'', FString []), (''priority'', FInt 0), (''run_at'', FString []), (''idempotency_key'', FString [])];
     Some \<lparr>srType = get_string fs ''type'', srPriority = get_int fs ''priority'',
           srRunAt = get_string fs ''run_at'', srKey = get_string fs ''idempotency_key''\<rparr>
   }"

text \<open>
  The event with which the engine announces a job that it created, and the broadcast of it: a duplicate and a job for a later time are
  not announced.
\<close>

definition mk_event :: "event_type \<Rightarrow> string \<Rightarrow> time \<Rightarrow> event" where
  "mk_event t m now = \<lparr>evType = t, evMessage = m, evTimestamp = now, evMetadata = []\<rparr>"

definition submitted_event :: "time \<Rightarrow> string \<Rightarrow> job \<Rightarrow> event" where
  "submitted_event now k j = mk_event EventJobSubmitted
     (''Job #'' @ Itoa (ID j) @ '' (type: '' @ Type j @ '', priority: '' @ Itoa (Priority j) @
      (if k = [] then [] else '', key: '' @ k) @ '') submitted to cluster'') now"

definition announce_submission :: "'s env \<Rightarrow> string \<Rightarrow> job \<Rightarrow> bool \<Rightarrow> broadcaster \<Rightarrow> broadcaster option" where
  "announce_submission v k j wasDuplicate b =
     (if wasDuplicate then Some b else Broadcast (envNow v) (envOrd v) (submitted_event (envNow v) k j) b)"

definition SubmitJobHandler :: "'s env \<Rightarrow> 's world handler" where
  "SubmitJobHandler v r w s =
     (if Method r \<noteq> ''POST'' then reply (http_Error ''Method Not Allowed'' 405 w) s
      else case decode_submit (Body r) of
        None \<Rightarrow> reply (http_Error ''Invalid JSON'' 400 w) s
      | Some req \<Rightarrow>
          if srType req = [] then reply (http_Error ''type is required'' 400 w) s
          else if srPriority req < 0 then reply (http_Error ''priority must be >= 0'' 400 w) s
          else if TrimSpace (srRunAt req) \<noteq> [] then
            (case ParseRFC3339 (srRunAt req) of
               None \<Rightarrow> reply (http_Error ''run_at must be RFC3339'' 400 w) s
             | Some runAt \<Rightarrow>
                 if \<not> envNow v < runAt then reply (http_Error ''run_at must be in the future'' 400 w) s
                 else (case SubmitJobAt (envStore v) (envRaft v) (srType req) (srPriority req) runAt (theEngine s) of
                    (Inl err, e) \<Rightarrow> reply (http_Error ''Failed to submit job'' 500 w) (set_engine e s)
                  | (Inr created, e) \<Rightarrow>
                      reply (write_body (ScheduledAt (ID created) (NextRunAt created)) (WriteHeader 201 (json_type w)))
                        (set_engine e s)))
          else (case SubmitJobIdempotent (envStore v) (envRaft v) (srKey req) (srType req) (srPriority req) (theEngine s) of
             (Inl err, e) \<Rightarrow> reply (http_Error ''Failed to submit job'' 500 w) (set_engine e s)
           | (Inr (created, wasDuplicate), e) \<Rightarrow>
               (case announce_submission v (srKey req) created wasDuplicate (theEvents s) of
                  None \<Rightarrow> Panicked (set_engine e s)
                | Some b \<Rightarrow>
                    reply (write_body (Submitted (ID created) (IdempotencyKey created))
                        (WriteHeader (if wasDuplicate then 200 else 201) (json_type w)))
                      (set_engine e (s\<lparr>theEvents := b\<rparr>)))))"

definition ListJobsHandler :: "'s env \<Rightarrow> 's world handler" where
  "ListJobsHandler v r w s =
     (if Method r \<noteq> ''GET'' then reply (http_Error ''Method Not Allowed'' 405 w) s
      else reply (json_reply (JobList (Jobs (envStore v) (envOrd v) (theEngine s))) w) s)"

definition JobsHandler :: "'s env \<Rightarrow> 's world handler" where
  "JobsHandler v r w s =
     (if Method r = ''POST'' then SubmitJobHandler v r w s
      else if Method r = ''GET'' then ListJobsHandler v r w s
      else reply (http_Error ''Method Not Allowed'' 405 w) s)"

definition GetJobHandler :: "'s env \<Rightarrow> 's world handler" where
  "GetJobHandler v r w s =
     (case Atoi (PathID r) of
        Inl _ \<Rightarrow> reply (http_Error ''Invalid job ID'' 400 w) s
      | Inr i \<Rightarrow>
          (case Job (envStore v) i (theEngine s) of
             None \<Rightarrow> reply (http_Error ''Job not found'' 404 w) s
           | Some j \<Rightarrow> reply (json_reply (OneJob j) w) s))"

definition CancelJobHandler :: "'s env \<Rightarrow> 's world handler" where
  "CancelJobHandler v r w s =
     (case Atoi (PathID r) of
        Inl _ \<Rightarrow> reply (http_Error ''invalid job id'' 400 w) s
      | Inr i \<Rightarrow>
          (case CancelJob (envStore v) (envRaft v) i (theEngine s) of
             (Some err, e) \<Rightarrow> reply (http_Error (error_string err) 409 w) (set_engine e s)
           | (None, e) \<Rightarrow> reply (json_reply (StatusOnly ''cancelled'') w) (set_engine e s)))"

section \<open>Cron jobs\<close>

record CreateCronJobRequest =
  crID :: string
  crSchedule :: string
  crType :: string
  crPriority :: int

definition decode_cron :: "string \<Rightarrow> CreateCronJobRequest option" where
  "decode_cron body = do {
     v \<leftarrow> json_first body;
     fs \<leftarrow> store_struct v [(''id'', FString []), (''schedule'', FString []), (''type'', FString []), (''priority'', FInt 0)];
     Some \<lparr>crID = get_string fs ''id'', crSchedule = get_string fs ''schedule'',
           crType = get_string fs ''type'', crPriority = get_int fs ''priority''\<rparr>
   }"

definition CreateCronJobHandler :: "'s env \<Rightarrow> 's world handler" where
  "CreateCronJobHandler v r w s =
     (case decode_cron (Body r) of
        None \<Rightarrow> reply (http_Error ''Invalid JSON'' 400 w) s
      | Some req0 \<Rightarrow>
          let req = req0\<lparr>crID := TrimSpace (crID req0), crSchedule := TrimSpace (crSchedule req0), crType := TrimSpace (crType req0)\<rparr>
          in if crID req = [] then reply (http_Error ''id is required'' 400 w) s
             else if crSchedule req = [] then reply (http_Error ''schedule is required'' 400 w) s
             else if crType req = [] then reply (http_Error ''type is required'' 400 w) s
             else if crPriority req < 0 then reply (http_Error ''priority must be >= 0'' 400 w) s
             else (case AddCronJob (envStore v) (envRaft v) (envOff v) (envNow v) (crID req) (crSchedule req) (crType req) (crPriority req) (theEngine s) of
                (Some err, e) \<Rightarrow> reply (http_Error (error_string err) 400 w) (set_engine e s)
              | (None, e) \<Rightarrow>
                  reply (write_body (StatusWithID ''created'' (crID req)) (WriteHeader 201 (json_type w))) (set_engine e s)))"

definition ListCronJobsHandler :: "'s env \<Rightarrow> 's world handler" where
  "ListCronJobsHandler v r w s =
     reply (json_reply (CronList (ListCronJobs (envStore v) (envOrd v) (envOrd2 v) (theEngine s))) w) s"

definition CronJobsHandler :: "'s env \<Rightarrow> 's world handler" where
  "CronJobsHandler v r w s =
     (if Method r = ''POST'' then CreateCronJobHandler v r w s
      else if Method r = ''GET'' then ListCronJobsHandler v r w s
      else reply (http_Error ''Method Not Allowed'' 405 w) s)"

definition DeleteCronJobHandler :: "'s env \<Rightarrow> 's world handler" where
  "DeleteCronJobHandler v r w s =
     (let i = TrimSpace (PathID r)
      in if i = [] then reply (http_Error ''id is required'' 400 w) s
         else reply (json_reply (StatusWithID ''removed'' i) w)
           (set_engine (RemoveCronJob (envStore v) (envRaft v) i (theEngine s)) s))"

section \<open>The cluster\<close>

abbreviation the_manager :: "'s world \<Rightarrow> manager" where
  "the_manager s \<equiv> Manager (eScheduler (theEngine s))"

definition NodesHandler :: "'s env \<Rightarrow> 's world handler" where
  "NodesHandler v r w s =
     (if Method r \<noteq> ''GET'' then reply (WriteError 405 ''method not allowed'' w) s
      else reply (json_reply (NodeList (Nodes (envOrd v) (the_manager s))) w) s)"

fun count_nodes :: "node_snapshot list \<Rightarrow> nat \<times> nat \<Rightarrow> nat \<times> nat" where
  "count_nodes [] c = c"
| "count_nodes (n # ns) (active, dead) =
     (if nsAlive n then count_nodes ns (Suc active, dead) else count_nodes ns (active, Suc dead))"

fun count_jobs :: "job list \<Rightarrow> nat \<times> nat \<times> nat \<times> nat \<Rightarrow> nat \<times> nat \<times> nat \<times> nat" where
  "count_jobs [] c = c"
| "count_jobs (j # js) (pending, completed, failed, cancelled) =
     count_jobs js
       (if Status j = Pending \<or> Status j = Scheduled then (Suc pending, completed, failed, cancelled)
        else if Status j = Completed then (pending, Suc completed, failed, cancelled)
        else if Status j = Failed then (pending, completed, Suc failed, cancelled)
        else if Status j = Cancelled then (pending, completed, failed, Suc cancelled)
        else (pending, completed, failed, cancelled))"

definition StatusHandler :: "'s env \<Rightarrow> 's world handler" where
  "StatusHandler v r w s =
     (if Method r \<noteq> ''GET'' then reply (WriteError 405 ''method not allowed'' w) s
      else
        let nodes = Nodes (envOrd v) (the_manager s);
            (activeNodes, deadNodes) = count_nodes nodes (0, 0);
            jobs = Jobs (envStore v) (envOrd2 v) (theEngine s);
            (pending, completed, failed, cancelled) = count_jobs jobs (0, 0, 0, 0);
            (leaderNode, term) =
              (case envRaft v of
                 None \<Rightarrow> (''node-1'', 1)
               | Some rf \<Rightarrow> (if LeaderAddr rf = [] then ''node-1'' else LeaderAddr rf, LeaderTerm rf))
        in reply (json_reply (ClusterStatusOf
             \<lparr>TotalNodes = length nodes, ActiveNodes = activeNodes, DeadNodes = deadNodes, TotalJobs = length jobs,
              PendingJobs = pending, CompletedJobs = completed, FailedJobs = failed, CancelledJobs = cancelled,
              LeaderNode = leaderNode, RaftTerm = term\<rparr>) w) s)"

definition RaftStatusHandler :: "'s env \<Rightarrow> 's world handler" where
  "RaftStatusHandler v r w s =
     (let (isLeader, term, leaderAddr) =
        (case envRaft v of
           None \<Rightarrow> (True, 1, ''127.0.0.1:18088'')
         | Some rf \<Rightarrow> (IsLeader rf, LeaderTerm rf, LeaderAddr rf))
      in reply (json_reply (RaftStatusOf isLeader term leaderAddr (RaftNodeID (envConfig v))) w) s)"

text \<open>The encoder is given the lease manager itself, whose fields are not exported, and writes an empty object.\<close>

definition LeasesHandler :: "'s world handler" where
  "LeasesHandler r w s = reply (json_reply EmptyObject w) s"

definition failover_script :: "(duration \<times> event_type \<times> string) list" where
  "failover_script =
     [(0, EventFailoverTriggered, ''Simulated Leader Crash triggered: Leader node-1 terminated''),
      (200 * Millisecond, EventLeaderChanged, ''Raft election started across active peers''),
      (400 * Millisecond, EventLeaderChanged, ''New Raft Leader elected: node-2 (Term incremented)''),
      (200 * Millisecond, EventQueueRebuilt, ''Rebuilt scheduler queues from BoltDB status buckets (O(k) scan)''),
      (200 * Millisecond, EventWorkerRegistered, ''Active remote workers re-registered during 1s grace period''),
      (200 * Millisecond, EventDispatchResumed, ''Scheduler & Cron dispatch loops resumed cleanly (Failover duration: 1.2s)'')]"

text \<open>
  The goroutine of the simulated failover, which wakes at the times \<open>ts\<close>. The handler does not wait for it, so that its
  broadcasts come as steps of their own after the reply.
\<close>

definition failover_run :: "time list \<Rightarrow> order_choice \<Rightarrow> broadcaster \<Rightarrow> broadcaster option" where
  "failover_run ts ord = broadcasts (map2 (\<lambda>now (_, t, m). (now, ord, mk_event t m now)) ts failover_script)"

definition FailoverSimulate :: "'s world handler" where
  "FailoverSimulate r w s = reply (json_reply Simulated w) s"

text \<open>A sleep lasts at least as long as asked for.\<close>

fun wakes :: "time \<Rightarrow> time list \<Rightarrow> duration list \<Rightarrow> bool" where
  "wakes now [] [] \<longleftrightarrow> True"
| "wakes now (t # ts) (d # ds) \<longleftrightarrow> now + d \<le> t \<and> wakes t ts ds"
| "wakes now _ _ \<longleftrightarrow> False"

lemma failover_takes_1200ms:
  assumes "wakes now ts (map fst failover_script)"
  shows "length ts = 6" "now + 1200 * Millisecond \<le> last ts"
  using assms by (auto simp: failover_script_def elim!: wakes.elims(2))

definition NodeRoute :: "'s env \<Rightarrow> 's world handler" where
  "NodeRoute v r w s =
     (let path = TrimPrefix (Path r) ''/cluster/nodes/''
      in if path = [] \<or> path = Path r then NodesHandler v r w s
         else (case Atoi path of
            Inl _ \<Rightarrow> reply (WriteError 400 ''invalid node ID'' w) s
          | Inr i \<Rightarrow>
              if Method r = ''DELETE'' then
                let e = theEngine s;
                    e1 = e\<lparr>eScheduler := (eScheduler e)\<lparr>Manager := Remove i (Manager (eScheduler e))\<rparr>\<rparr>
                in (case Broadcast (envNow v) (envOrd v) (mk_event EventWorkerEvicted (''Worker '' @ Itoa i @ '' evicted from cluster'') 0) (theEvents s) of
                      None \<Rightarrow> Panicked (set_engine e1 s)
                    | Some b \<Rightarrow> reply (json_reply (Evicted i) w) \<lparr>theEngine = e1, theEvents = b\<rparr>)
              else reply (WriteError 405 ''method not allowed'' w) s))"

section \<open>The event stream\<close>

text \<open>
  \<open>HTTPHandler\<close> up to its loop: the subscription, the headers and a first event. The assertion that the writer is an
  \<open>http.Flusher\<close> panics when it is not; the deferred call then ends the subscription. Otherwise the handler is left streaming
  on a channel.
\<close>

datatype 's stream = Streaming nat writer "'s world" | StreamPanic "'s world"

definition connected :: "time \<Rightarrow> event" where
  "connected now = mk_event (EventOther ''CONNECTED'') ''Stream connected to Quorum Control Plane Event Broadcaster'' now"

definition stream_headers :: "writer \<Rightarrow> writer" where
  "stream_headers w =
     set_header ''Access-Control-Allow-Origin'' ''*'' (set_header ''Connection'' ''keep-alive''
       (set_header ''Cache-Control'' ''no-cache'' (set_header ''Content-Type'' ''text/event-stream'' w)))"

definition stream_start :: "'s env \<Rightarrow> writer \<Rightarrow> 's world \<Rightarrow> 's stream" where
  "stream_start v w s =
     (let (ch, b) = Subscribe (theEvents s);
          w1 = write_body (EventData (connected (envNow v))) (stream_headers w)
      in if flusher w1 then Streaming ch w1 (s\<lparr>theEvents := b\<rparr>)
         else StreamPanic (s\<lparr>theEvents := (case Unsubscribe ch b of Some b' \<Rightarrow> b' | None \<Rightarrow> b)\<rparr>))"

text \<open>
  One round of its loop. With the end of the request or of the channel the handler returns, and the deferred call ends the
  subscription.
\<close>

definition stream_round :: "bool \<Rightarrow> nat \<Rightarrow> writer \<Rightarrow> broadcaster \<Rightarrow> broadcaster option + (writer \<times> broadcaster)" where
  "stream_round ended ch w b =
     (if ended then Inl (Unsubscribe ch b)
      else (case receive ch b of
        (Event evt, b') \<Rightarrow> Inr (write_body (EventData evt) w, b')
      | (Ended, b') \<Rightarrow> Inl (Unsubscribe ch b')
      | (Waiting, b') \<Rightarrow> Inr (w, b')))"

end
