(* ===== verification/Server.thy ===== *)
theory Server
  imports Handlers
begin

text \<open>
  The control node's HTTP server (\<open>src/cmd/server/server.go\<close>): the route table with the roles it asks for, and the
  middleware around it. Paths are taken without escapes.
\<close>

section \<open>Roles\<close>

definition requireRoles :: "'s env \<Rightarrow> string list \<Rightarrow> 's world handler \<Rightarrow> 's world handler" where
  "requireRoles v allowedRoles h =
     (if \<not> AuthEnabled (envConfig v) then h
      else RequireRoles (envMac v) (envNow v) (JWTSecret (envConfig v)) allowedRoles h)"

definition requireSubmitter :: "'s env \<Rightarrow> 's world handler \<Rightarrow> 's world handler" where
  "requireSubmitter v = requireRoles v [RoleSubmitter, RoleAdmin]"

definition requireViewer :: "'s env \<Rightarrow> 's world handler \<Rightarrow> 's world handler" where
  "requireViewer v = requireRoles v [RoleViewer, RoleSubmitter, RoleAdmin]"

definition requireAdmin :: "'s env \<Rightarrow> 's world handler \<Rightarrow> 's world handler" where
  "requireAdmin v = requireRoles v [RoleAdmin]"

section \<open>Routes\<close>

datatype route =
    CleanRedirect | UIFiles | UIRedirect | RootRoute | JobsRoute | GetJobRoute string | CancelRoute string | LeasesRoute
  | CronRoute | DeleteCronRoute string | StatusRoute | NodesRoute | NodeIDRoute | RaftRoute | FailoverRoute
  | MetricsRoute | EventsRoute

text \<open>
  \<open>http.ServeMux\<close>: a path with empty or dot segments is redirected to its clean form. Patterns with a method come before those
  without one, \<open>GET\<close> also matches \<open>HEAD\<close>, a literal segment comes before a wildcard, which needs a segment that is not
  empty, and \<open>/\<close> matches everything else.
\<close>

definition clean_path :: "string \<Rightarrow> bool" where
  "clean_path p \<longleftrightarrow>
     (case split_on (CHR ''/'') p of
        [] # segs \<Rightarrow> segs \<noteq> [] \<and> [] \<notin> set (butlast segs) \<and> ''.'' \<notin> set segs \<and> ''..'' \<notin> set segs
      | _ \<Rightarrow> False)"

definition plain_route :: "string \<Rightarrow> route" where
  "plain_route p =
     (if p = ''/jobs'' then JobsRoute
      else if p = ''/cron'' then CronRoute
      else if p = ''/cluster/status'' then StatusRoute
      else if p = ''/cluster/nodes'' then NodesRoute
      else if HasPrefix p ''/cluster/nodes/'' then NodeIDRoute
      else if p = ''/cluster/raft'' then RaftRoute
      else if p = ''/cluster/failover-simulate'' then FailoverRoute
      else if p = ''/metrics'' then MetricsRoute
      else if p = ''/events'' then EventsRoute
      else if p = ''/ui'' then UIRedirect
      else if HasPrefix p ''/ui/'' then UIFiles
      else RootRoute)"

definition mux_match :: "string \<Rightarrow> string \<Rightarrow> route" where
  "mux_match m p =
     (let get = (m = ''GET'' \<or> m = ''HEAD'')
      in if m \<noteq> ''CONNECT'' \<and> \<not> clean_path p then CleanRedirect
         else if get \<and> p = ''/jobs/leases'' then LeasesRoute
         else (case split_on (CHR ''/'') p of
            [e, d, x] \<Rightarrow>
              if e = [] \<and> d = ''jobs'' \<and> x \<noteq> [] \<and> get then GetJobRoute x
              else if e = [] \<and> d = ''jobs'' \<and> x \<noteq> [] \<and> m = ''DELETE'' then CancelRoute x
              else if e = [] \<and> d = ''cron'' \<and> x \<noteq> [] \<and> m = ''DELETE'' then DeleteCronRoute x
              else plain_route p
          | _ \<Rightarrow> plain_route p))"

text \<open>A redirect; its short body is left out.\<close>

definition redirect :: "nat \<Rightarrow> string \<Rightarrow> writer \<Rightarrow> writer" where
  "redirect c url w = WriteHeader c (set_header ''Location'' url w)"

definition events_handler :: "'s env \<Rightarrow> 's world handler" where
  "events_handler v r w s =
     (case stream_start v w s of
        Streaming ch w' s' \<Rightarrow> Returned w' s'
      | StreamPanic s' \<Rightarrow> Panicked s')"

text \<open>The argument \<open>clean\<close> is the clean form of the path.\<close>

definition serve_mux :: "'s env \<Rightarrow> string \<Rightarrow> 's world handler" where
  "serve_mux v clean r w s =
     (case mux_match (Method r) (Path r) of
        CleanRedirect \<Rightarrow> reply (redirect 301 clean w) s
      | UIFiles \<Rightarrow> reply (write_body StaticFile w) s
      | UIRedirect \<Rightarrow> reply (redirect 301 ''/ui/'' w) s
      | RootRoute \<Rightarrow>
          if Path r = ''/'' then reply (redirect 302 ''/ui/'' w) s
          else reply (json_reply ServiceRunning w) s
      | JobsRoute \<Rightarrow>
          if Method r = ''POST'' then requireSubmitter v (SubmitJobHandler v) r w s
          else if Method r = ''GET'' then requireViewer v (ListJobsHandler v) r w s
          else reply (http_Error ''Method Not Allowed'' 405 w) s
      | GetJobRoute x \<Rightarrow> requireViewer v (GetJobHandler v) (r\<lparr>PathID := x\<rparr>) w s
      | CancelRoute x \<Rightarrow> requireSubmitter v (CancelJobHandler v) (r\<lparr>PathID := x\<rparr>) w s
      | LeasesRoute \<Rightarrow> requireViewer v LeasesHandler r w s
      | CronRoute \<Rightarrow>
          if Method r = ''POST'' then requireAdmin v (CreateCronJobHandler v) r w s
          else if Method r = ''GET'' then requireViewer v (ListCronJobsHandler v) r w s
          else reply (http_Error ''Method Not Allowed'' 405 w) s
      | DeleteCronRoute x \<Rightarrow> requireAdmin v (DeleteCronJobHandler v) (r\<lparr>PathID := x\<rparr>) w s
      | StatusRoute \<Rightarrow> requireViewer v (StatusHandler v) r w s
      | NodesRoute \<Rightarrow> requireViewer v (NodesHandler v) r w s
      | NodeIDRoute \<Rightarrow>
          if Method r = ''DELETE'' then requireAdmin v (NodeRoute v) r w s
          else requireViewer v (NodeRoute v) r w s
      | RaftRoute \<Rightarrow> requireViewer v (RaftStatusHandler v) r w s
      | FailoverRoute \<Rightarrow> requireAdmin v FailoverSimulate r w s
      | MetricsRoute \<Rightarrow> reply (write_body Metrics w) s
      | EventsRoute \<Rightarrow> events_handler v r w s)"

definition server_handler :: "nat \<Rightarrow> 's env \<Rightarrow> string \<Rightarrow> 's world handler" where
  "server_handler rnd v clean = RequestID rnd (Tracing (Logging (serve_mux v clean)))"

section \<open>Effects of a request\<close>

fun final :: "'w outcome \<Rightarrow> 'w" where
  "final (Returned w s) = s"
| "final (Panicked s) = s"

fun status_of :: "'w outcome \<Rightarrow> nat option" where
  "status_of (Returned w s) = wStatus w"
| "status_of (Panicked s) = None"

definition read_only :: "'s world handler \<Rightarrow> bool" where
  "read_only h \<longleftrightarrow> (\<forall>r w s. theEngine (final (h r w s)) = theEngine s)"

lemma final_reply [simp]: "final (reply w s) = s" "status_of (reply w s) = wStatus w"
  by (simp_all add: reply_def)

lemma permitted_frame [simp]:
  "permitted mac now secret roles (r\<lparr>PathID := x\<rparr>) = permitted mac now secret roles r"
  "permitted mac now secret roles (r\<lparr>ctxRequestID := y\<rparr>) = permitted mac now secret roles r"
  by (simp_all add: permitted_def)

definition may :: "'s env \<Rightarrow> string list \<Rightarrow> request \<Rightarrow> bool" where
  "may v roles r \<longleftrightarrow> permitted (envMac v) (envNow v) (JWTSecret (envConfig v)) roles r"

lemma may_frame [simp]: "may v roles (r\<lparr>PathID := x\<rparr>) = may v roles r" "may v roles (r\<lparr>ctxRequestID := y\<rparr>) = may v roles r"
  by (simp_all add: may_def)

lemma may_mono: "may v roles r \<Longrightarrow> set roles \<subseteq> insert RoleAdmin (set roles') \<Longrightarrow> may v roles' r"
  unfolding may_def permitted_def by blast

lemma requireRoles_open: "\<not> AuthEnabled (envConfig v) \<Longrightarrow> requireRoles v roles h = h"
  by (simp add: requireRoles_def)

lemma requireRoles_refused:
  "AuthEnabled (envConfig v) \<Longrightarrow> \<not> may v roles r \<Longrightarrow>
    \<exists>c msg. (c = 401 \<or> c = 403) \<and> requireRoles v roles h r w s = Returned (writeAuthError c msg w) s"
  using RequireRoles_refused [of "envMac v" "envNow v" "JWTSecret (envConfig v)" roles r h w s]
  by (simp add: requireRoles_def may_def)

lemma requireRoles_cases:
  obtains r' where "requireRoles v roles h r w s = h r' w s" "Method r' = Method r" "Path r' = Path r"
  | c msg where "requireRoles v roles h r w s = Returned (writeAuthError c msg w) s"
proof (cases "AuthEnabled (envConfig v) \<and> \<not> may v roles r")
  case True
  then show ?thesis using requireRoles_refused [of v roles r h w s] that(2) by blast
next
  case False
  show ?thesis
  proof (cases "AuthEnabled (envConfig v)")
    case True
    then show ?thesis
      using False RequireRoles_permitted [of "envMac v" "envNow v" "JWTSecret (envConfig v)" roles r h w s] that(1)
      by (auto simp: requireRoles_def may_def)
  qed (use that(1) [of r] in \<open>simp add: requireRoles_open\<close>)
qed

lemma read_only_require: "read_only h \<Longrightarrow> theEngine (final (requireRoles v roles h r w s)) = theEngine s"
  by (cases rule: requireRoles_cases [of v roles h r w s]) (simp_all add: read_only_def)

lemma read_only_handlers:
  "read_only (ListJobsHandler v)" "read_only (GetJobHandler v)" "read_only LeasesHandler" "read_only (ListCronJobsHandler v)"
  "read_only (StatusHandler v)" "read_only (NodesHandler v)" "read_only (RaftStatusHandler v)" "read_only FailoverSimulate"
  by (auto simp: read_only_def ListJobsHandler_def GetJobHandler_def LeasesHandler_def ListCronJobsHandler_def StatusHandler_def
      NodesHandler_def RaftStatusHandler_def FailoverSimulate_def Let_def split: sum.split option.split prod.split)

lemma NodeRoute_reads: "Method r \<noteq> ''DELETE'' \<Longrightarrow> theEngine (final (NodeRoute v r w s)) = theEngine s"
  by (auto simp: NodeRoute_def NodesHandler_def Let_def split: sum.split)

lemma NodeRoute_require: "Method r \<noteq> ''DELETE'' \<Longrightarrow> theEngine (final (requireRoles v roles (NodeRoute v) r w s)) = theEngine s"
  by (cases rule: requireRoles_cases [of v roles "NodeRoute v" r w s]) (simp_all add: NodeRoute_reads)

lemma events_reads: "theEngine (final (events_handler v r w s)) = theEngine s"
  by (simp add: events_handler_def stream_start_def Let_def split: prod.split)

lemma change_needs:
  "AuthEnabled (envConfig v) \<Longrightarrow> theEngine (final (requireRoles v roles h r w s)) \<noteq> theEngine s \<Longrightarrow> may v roles r"
  using requireRoles_refused [of v roles r h w s] by force

lemma middleware_final:
  "final (server_handler rnd v clean r w s) =
    final (serve_mux v clean (r\<lparr>ctxRequestID := Some (if XRequestID r = [] then hex16 rnd else XRequestID r)\<rparr>)
      ((set_header ''X-Request-ID'' (if XRequestID r = [] then hex16 rnd else XRequestID r) w)\<lparr>flusher := False\<rparr>) s)"
  by (simp add: server_handler_def RequestID_def Tracing_def Logging_def wrap_writer_def Let_def split: outcome.split)

lemma serve_change:
  assumes "AuthEnabled (envConfig v)" "theEngine (final (serve_mux v clean r w s)) \<noteq> theEngine s"
  shows "may v [RoleAdmin] r \<or>
    may v [RoleSubmitter, RoleAdmin] r \<and> (mux_match (Method r) (Path r) = JobsRoute \<or> (\<exists>x. mux_match (Method r) (Path r) = CancelRoute x))"
proof -
  note unfold = serve_mux_def requireViewer_def requireSubmitter_def requireAdmin_def
  note frames = read_only_require read_only_handlers NodeRoute_require events_reads
  show ?thesis
  proof (cases "mux_match (Method r) (Path r)")
    case JobsRoute
    then show ?thesis
      using assms(2) change_needs [OF assms(1), of "[RoleSubmitter, RoleAdmin]" "SubmitJobHandler v" r w s]
      by (simp add: unfold frames split: if_splits)
  next
    case (CancelRoute x)
    then show ?thesis
      using assms(2) change_needs [OF assms(1), of "[RoleSubmitter, RoleAdmin]" "CancelJobHandler v" "r\<lparr>PathID := x\<rparr>" w s]
      by (simp add: unfold)
  next
    case CronRoute
    then show ?thesis
      using assms(2) change_needs [OF assms(1), of "[RoleAdmin]" "CreateCronJobHandler v" r w s]
      by (simp add: unfold frames split: if_splits)
  next
    case (DeleteCronRoute x)
    then show ?thesis
      using assms(2) change_needs [OF assms(1), of "[RoleAdmin]" "DeleteCronJobHandler v" "r\<lparr>PathID := x\<rparr>" w s]
      by (simp add: unfold)
  next
    case NodeIDRoute
    then show ?thesis
      using assms(2) change_needs [OF assms(1), of "[RoleAdmin]" "NodeRoute v" r w s]
      by (simp add: unfold frames split: if_splits)
  qed (use assms(2) in \<open>simp_all add: unfold frames split: if_splits\<close>)
qed

definition public_route :: "request \<Rightarrow> bool" where
  "public_route r \<longleftrightarrow>
     (case mux_match (Method r) (Path r) of
        CleanRedirect \<Rightarrow> True | UIFiles \<Rightarrow> True | UIRedirect \<Rightarrow> True | RootRoute \<Rightarrow> True
      | MetricsRoute \<Rightarrow> True | EventsRoute \<Rightarrow> True
      | JobsRoute \<Rightarrow> Method r \<noteq> ''POST'' \<and> Method r \<noteq> ''GET''
      | CronRoute \<Rightarrow> Method r \<noteq> ''POST'' \<and> Method r \<noteq> ''GET''
      | _ \<Rightarrow> False)"

definition refused :: "'s world \<Rightarrow> 's world outcome \<Rightarrow> bool" where
  "refused s out \<longleftrightarrow> final out = s \<and> (status_of out = Some 401 \<or> status_of out = Some 403)"

lemma writeAuthError_status: "wStatus w = None \<Longrightarrow> wStatus (writeAuthError c msg w) = Some c"
  by (simp add: writeAuthError_def write_body_def WriteHeader_def json_type_def set_header_def)

lemma requireRoles_refuses:
  assumes "AuthEnabled (envConfig v)" "\<not> may v roles r" "wStatus w = None"
  shows "refused s (requireRoles v roles h r w s)"
  using requireRoles_refused [OF assms(1,2), of h w s] writeAuthError_status [OF assms(3)] by (auto simp: refused_def)

lemma require_refused:
  assumes "AuthEnabled (envConfig v)" "\<not> may v [RoleViewer, RoleSubmitter] r" "wStatus w = None"
  shows "refused s (requireAdmin v h r w s)" "refused s (requireSubmitter v h r w s)" "refused s (requireViewer v h r w s)"
proof -
  have "\<not> may v [RoleAdmin] r" "\<not> may v [RoleSubmitter, RoleAdmin] r" "\<not> may v [RoleViewer, RoleSubmitter, RoleAdmin] r"
    using assms(2) may_mono by fastforce+
  then show "refused s (requireAdmin v h r w s)" "refused s (requireSubmitter v h r w s)" "refused s (requireViewer v h r w s)"
    using requireRoles_refuses assms(1,3) unfolding requireAdmin_def requireSubmitter_def requireViewer_def by blast+
qed

lemma serve_refused:
  assumes "AuthEnabled (envConfig v)" "\<not> may v [RoleViewer, RoleSubmitter] r" "\<not> public_route r" "wStatus w = None"
  shows "refused s (serve_mux v clean r w s)"
  using assms by (cases "mux_match (Method r) (Path r)") (auto simp: serve_mux_def public_route_def require_refused)

lemma public_route_frame [simp]: "public_route (r\<lparr>ctxRequestID := x\<rparr>) = public_route r"
  by (simp add: public_route_def cong: route.case_cong)

lemma middleware_status:
  "status_of (server_handler rnd v clean r w s) =
    status_of (serve_mux v clean (r\<lparr>ctxRequestID := Some (if XRequestID r = [] then hex16 rnd else XRequestID r)\<rparr>)
      ((set_header ''X-Request-ID'' (if XRequestID r = [] then hex16 rnd else XRequestID r) w)\<lparr>flusher := False\<rparr>) s)"
  by (simp add: server_handler_def RequestID_def Tracing_def Logging_def wrap_writer_def Let_def split: outcome.split)

section \<open>Properties\<close>

text \<open>
  C4. Access control: with authentication enabled, a request changes the engine only if it carries a token that is valid
  now, for an administrator or, to submit or cancel a job, for a submitter. On every route but the public ones, a
  request without a valid token of one of the three roles is answered with 401 or 403 and changes nothing.
\<close>

theorem access_control:
  assumes "AuthEnabled (envConfig v)" "wStatus w = None"
  shows "(theEngine (final (server_handler rnd v clean r w s)) \<noteq> theEngine s \<longrightarrow>
      may v [RoleAdmin] r \<or> may v [RoleSubmitter, RoleAdmin] r \<and>
        (mux_match (Method r) (Path r) = JobsRoute \<or> (\<exists>x. mux_match (Method r) (Path r) = CancelRoute x))) \<and>
    (\<not> may v [RoleViewer, RoleSubmitter] r \<and> \<not> public_route r \<longrightarrow>
      refused s (server_handler rnd v clean r w s))"
proof -
  let ?i = "if XRequestID r = [] then hex16 rnd else XRequestID r"
  let ?r = "r\<lparr>ctxRequestID := Some ?i\<rparr>" and ?w = "(set_header ''X-Request-ID'' ?i w)\<lparr>flusher := False\<rparr>"
  show ?thesis
    using serve_change [OF assms(1), of clean ?r ?w s] serve_refused [OF assms(1), of ?r ?w s clean] assms(2)
    unfolding refused_def middleware_final middleware_status by (simp add: set_header_def)
qed

definition guarded :: "memory_store env" where
  "guarded = \<lparr>envStore = memory_ops, envRaft = None, envNow = 62135596800 * Second, envOff = 0, envOrd = [], envOrd2 = [],
     envConfig = (config_Default (\<lambda>_. []))\<lparr>AuthEnabled := True\<rparr>, envMac = (\<lambda>m k. k @ rev m)\<rparr>"

definition new_world :: "memory_store world" where
  "new_world = \<lparr>theEngine = engine_New 0 (config_Default (\<lambda>_. [])) NewMemoryStore, theEvents = globalBroadcaster\<rparr>"

definition new_writer :: writer where
  "new_writer = \<lparr>flusher = True, wHeader = [], wStatus = None, wBody = []\<rparr>"

definition bare_request :: "string \<Rightarrow> string \<Rightarrow> request" where
  "bare_request m p = \<lparr>Method = m, Path = p, PathID = [], Authorization = [], XRequestID = [], Body = [], ctxClaims = None, ctxRequestID = None\<rparr>"

theorem access_control_witness:
  "refused new_world (server_handler 7 guarded [] (bare_request ''GET'' ''/jobs'') new_writer new_world)"
proof -
  have "mux_match ''GET'' ''/jobs'' = JobsRoute" by code_simp
  then have "\<not> public_route (bare_request ''GET'' ''/jobs'')" by (simp add: public_route_def bare_request_def)
  moreover have "\<not> may guarded [RoleViewer, RoleSubmitter] (bare_request ''GET'' ''/jobs'')"
    by (simp add: may_def permitted_def bare_request_def split_space_def)
  ultimately show ?thesis
    using access_control [of guarded new_writer 7 "[]" "bare_request ''GET'' ''/jobs''" new_world]
    by (simp add: guarded_def new_writer_def)
qed

text \<open>
  C38. The event stream cannot be opened: on the route of the event stream, the writer has gone through the logging middleware
  and is no \<open>http.Flusher\<close>, so that the handler panics after its first event, whatever the request. The subscription it made
  is taken back and the engine is as before.
\<close>

theorem event_stream_panics:
  assumes "mux_match (Method r) (Path r) = EventsRoute" "events_inv (theEvents s)"
  shows "\<exists>s'. server_handler rnd v clean r w s = Panicked s' \<and> theEngine s' = theEngine s \<and>
    events_inv (theEvents s') \<and> map_of (subscribers (theEvents s')) = map_of (subscribers (theEvents s))"
proof -
  obtain ch b where sub: "Subscribe (theEvents s) = (ch, b)" by fastforce
  note new = Subscribe_new [OF assms(2) sub]
  obtain b' where b': "Unsubscribe ch b = Some b'" "events_inv b'" using Unsubscribe_once [OF new(1,3)] by blast
  have "map_of (subscribers b') = map_of (subscribers (theEvents s))"
    using sub b'(1) new(2) by (auto simp: Subscribe_def Unsubscribe_def Let_def split: if_splits)
  moreover have "\<not> flusher (write_body p (stream_headers (w\<lparr>flusher := False\<rparr>)))" for p and w :: writer
    by (simp add: write_body_def WriteHeader_def stream_headers_def set_header_def Let_def)
  ultimately show ?thesis
    using assms(1) sub b' by (simp add: server_handler_def RequestID_def Tracing_def Logging_def wrap_writer_def serve_mux_def
        events_handler_def stream_start_def Let_def)
qed

theorem event_stream_panics_witness:
  "\<exists>s'. server_handler 7 guarded [] (bare_request ''GET'' ''/events'') new_writer new_world = Panicked s'"
proof -
  have "mux_match ''GET'' ''/events'' = EventsRoute" by code_simp
  then show ?thesis
    using event_stream_panics [of "bare_request ''GET'' ''/events''" new_world 7 guarded "[]" new_writer] events_inv_global
    by (auto simp: bare_request_def new_world_def)
qed

text \<open>A submission the handler accepts for the engine.\<close>

definition good_submission :: "time \<Rightarrow> request \<Rightarrow> SubmitJobRequest \<Rightarrow> bool" where
  "good_submission now r req \<longleftrightarrow>
     Method r = ''POST'' \<and> decode_submit (Body r) = Some req \<and> srType req \<noteq> [] \<and> 0 \<le> srPriority req \<and>
     (TrimSpace (srRunAt req) = [] \<or> (\<exists>t. ParseRFC3339 (srRunAt req) = Some t \<and> now < t))"

lemma http_Error_status: "wStatus w = None \<Longrightarrow> wStatus (http_Error msg c w) = Some c"
  by (simp add: http_Error_def write_body_def WriteHeader_def set_header_def Let_def)

lemma coded_status: "wStatus w = None \<Longrightarrow> wStatus (write_body p (WriteHeader c (json_type w))) = Some c"
  "wBody (write_body p (WriteHeader c (json_type w))) = wBody w @ [p]"
  by (simp_all add: write_body_def WriteHeader_def json_type_def set_header_def Let_def)

lemma bad_submission:
  assumes "\<not> (\<exists>req. good_submission (envNow v) r req)" "wStatus w = None"
  shows "\<exists>w'. SubmitJobHandler v r w s = Returned w' s \<and> (wStatus w' = Some 400 \<or> wStatus w' = Some 405)"
  using assms by (auto simp: SubmitJobHandler_def good_submission_def reply_def http_Error_status not_less split: option.split)

lemma announce_submission_ok:
  "events_inv b \<Longrightarrow> \<exists>b'. announce_submission v k j dup b = Some b' \<and> events_inv b' \<and> (dup \<longrightarrow> b' = b)"
  using Broadcast_effect [of b "envNow v" "envOrd v" "submitted_event (envNow v) k j"] by (auto simp: announce_submission_def)

lemma good_submission_status:
  assumes "good_submission (envNow v) r req" "wStatus w = None" "events_inv (theEvents s)"
  shows "status_of (SubmitJobHandler v r w s) \<in> {Some 200, Some 201, Some 500}"
proof -
  define f where "f k j dup = the (announce_submission v k j dup (theEvents s))" for k j dup
  have "announce_submission v k j dup (theEvents s) = Some (f k j dup)" for k j dup
    using announce_submission_ok [OF assms(3), of v k j dup] by (auto simp: f_def)
  note announced = this
  show ?thesis
    using assms(1,2)
    by (auto simp: SubmitJobHandler_def good_submission_def http_Error_status coded_status announced split: option.split prod.split sum.split)
qed

text \<open>
  C18. The answers to a submission: exactly the requests that are not a POST of a JSON object with a type, a priority that is not
  negative and no run time or one in the future are answered with 400 or 405, and they change nothing. The others are answered
  with 200, 201 or 500; announcing the job to the subscribers of the event stream never keeps the answer from being sent.
\<close>

theorem submission_statuses:
  assumes "wStatus w = None" "events_inv (theEvents s)"
  shows "if \<exists>req. good_submission (envNow v) r req
     then status_of (SubmitJobHandler v r w s) \<in> {Some 200, Some 201, Some 500}
     else final (SubmitJobHandler v r w s) = s \<and> status_of (SubmitJobHandler v r w s) \<in> {Some 400, Some 405}"
  using good_submission_status [OF _ assms] bad_submission [OF _ assms(1), of v r s] by auto

theorem submission_statuses_witness:
  "final (SubmitJobHandler guarded (bare_request ''POST'' ''/jobs'') new_writer new_world) = new_world"
proof -
  have "decode_submit [] = None" by code_simp
  then have "\<not> (\<exists>req. good_submission (envNow guarded) (bare_request ''POST'' ''/jobs'') req)"
    by (simp add: good_submission_def bare_request_def)
  then show ?thesis
    using submission_statuses [of new_writer new_world guarded "bare_request ''POST'' ''/jobs''"] events_inv_global
    by (simp add: new_writer_def new_world_def)
qed

definition keyed_post :: "request \<Rightarrow> string \<Rightarrow> bool" where
  "keyed_post r k \<longleftrightarrow> mux_match (Method r) (Path r) = JobsRoute \<and>
     (\<exists>req. good_submission 0 r req \<and> TrimSpace (srRunAt req) = [] \<and> srKey req = k)"

lemma serve_keyed_post:
  assumes "keyed_post r k" "\<not> AuthEnabled (envConfig v)" "k \<noteq> []" "wStatus w = None"
  obtains t p where "serve_mux v clean r w s =
    (case SubmitJobIdempotent (envStore v) (envRaft v) k t p (theEngine s) of
       (Inl err, e) \<Rightarrow> reply (http_Error ''Failed to submit job'' 500 w) (set_engine e s)
     | (Inr (created, wasDuplicate), e) \<Rightarrow>
         (case announce_submission v k created wasDuplicate (theEvents s) of
            None \<Rightarrow> Panicked (set_engine e s)
          | Some b \<Rightarrow>
              reply (write_body (Submitted (ID created) (IdempotencyKey created)) (WriteHeader (if wasDuplicate then 200 else 201) (json_type w)))
                (set_engine e (s\<lparr>theEvents := b\<rparr>))))"
proof -
  obtain req where req: "Method r = ''POST''" "decode_submit (Body r) = Some req" "srType req \<noteq> []" "0 \<le> srPriority req"
      "TrimSpace (srRunAt req) = []" "srKey req = k" "mux_match (Method r) (Path r) = JobsRoute"
    using assms(1) by (auto simp: keyed_post_def good_submission_def)
  show thesis
    by (rule that [of "srType req" "srPriority req"])
      (use req assms(2) in \<open>simp add: serve_mux_def requireSubmitter_def requireRoles_open SubmitJobHandler_def
        cong: prod.case_cong sum.case_cong\<close>)
qed

lemma keyed_post_frame [simp]: "keyed_post (r\<lparr>ctxRequestID := x\<rparr>) k = keyed_post r k"
  by (simp add: keyed_post_def good_submission_def)

lemma server_keyed_post:
  assumes "keyed_post r k" "\<not> AuthEnabled (envConfig v)" "k \<noteq> []" "wStatus w = None" "events_inv (theEvents s)"
  obtains t p where "\<And>created dup e. SubmitJobIdempotent (envStore v) (envRaft v) k t p (theEngine s) = (Inr (created, dup), e) \<Longrightarrow>
    \<exists>w' b. server_handler rnd v clean r w s = Returned w' (set_engine e (s\<lparr>theEvents := b\<rparr>)) \<and> events_inv b \<and>
      (dup \<longrightarrow> b = theEvents s) \<and> wStatus w' = Some (if dup then 200 else 201) \<and> wBody w' = wBody w @ [Submitted (ID created) (IdempotencyKey created)]"
proof -
  let ?i = "if XRequestID r = [] then hex16 rnd else XRequestID r"
  let ?r = "r\<lparr>ctxRequestID := Some ?i\<rparr>" and ?w = "(set_header ''X-Request-ID'' ?i w)\<lparr>flusher := False\<rparr>"
  have "keyed_post ?r k" and w: "wStatus ?w = None" "wBody ?w = wBody w" using assms by (simp_all add: set_header_def)
  then obtain t p where m: "serve_mux v clean ?r ?w s =
      (case SubmitJobIdempotent (envStore v) (envRaft v) k t p (theEngine s) of
         (Inl err, e) \<Rightarrow> reply (http_Error ''Failed to submit job'' 500 ?w) (set_engine e s)
       | (Inr (created, wasDuplicate), e) \<Rightarrow>
           (case announce_submission v k created wasDuplicate (theEvents s) of
              None \<Rightarrow> Panicked (set_engine e s)
            | Some b \<Rightarrow>
                reply (write_body (Submitted (ID created) (IdempotencyKey created)) (WriteHeader (if wasDuplicate then 200 else 201) (json_type ?w)))
                  (set_engine e (s\<lparr>theEvents := b\<rparr>))))"
    using serve_keyed_post [of ?r k v ?w clean s] assms(2,3) by metis
  have "server_handler rnd v clean r w s = Returned (w'\<lparr>flusher := flusher w\<rparr>) s'"
    if "serve_mux v clean ?r ?w s = Returned w' s'" for w' s'
    using that by (simp add: server_handler_def RequestID_def Tracing_def Logging_def wrap_writer_def Let_def set_header_def split: if_splits)
  note run = this
  show thesis
  proof (rule that [of t p])
    fix created dup e
    assume c: "SubmitJobIdempotent (envStore v) (envRaft v) k t p (theEngine s) = (Inr (created, dup), e)"
    obtain b where b: "announce_submission v k created dup (theEvents s) = Some b" "events_inv b" "dup \<longrightarrow> b = theEvents s"
      using announce_submission_ok [OF assms(5)] by blast
    show "\<exists>w' b. server_handler rnd v clean r w s = Returned w' (set_engine e (s\<lparr>theEvents := b\<rparr>)) \<and> events_inv b \<and>
      (dup \<longrightarrow> b = theEvents s) \<and> wStatus w' = Some (if dup then 200 else 201) \<and>
      wBody w' = wBody w @ [Submitted (ID created) (IdempotencyKey created)]"
      using run m c b coded_status(1) [OF w(1)] coded_status(2) [where w = ?w] w(2) by (simp add: reply_def, metis)
  qed
qed


definition post_job :: "string \<Rightarrow> int \<Rightarrow> string \<Rightarrow> request" where
  "post_job t p k = (bare_request ''POST'' ''/jobs'')\<lparr>Body := write_object [(''type'', quote t), (''priority'', Itoa p), (''idempotency_key'', quote k)]\<rparr>"

lemma submit_names:
  "valid_utf8 ''type'' = ''type''" "valid_utf8 ''priority'' = ''priority''" "valid_utf8 ''idempotency_key'' = ''idempotency_key''"
  by (rule valid_utf8_ascii, simp)+

lemma decode_posted:
  assumes "in_int64 p"
  shows "decode_submit (Body (post_job t p k)) = Some \<lparr>srType = valid_utf8 t, srPriority = p, srRunAt = [], srKey = valid_utf8 k\<rparr>"
proof -
  let ?ms = "[(''type'', quote t), (''priority'', Itoa p), (''idempotency_key'', quote k)]"
  let ?j = "\<lambda>m. if fst m = ''type'' then JStr (valid_utf8 t) else if fst m = ''priority'' then JNum (Itoa p) else JStr (valid_utf8 k)"
  have "json_first (write_object ?ms) = Some (JObj (map (\<lambda>m. (valid_utf8 (fst m), ?j m)) ?ms))"
    by (rule json_whole_object(2)) (simp_all add: reads_quote reads_Itoa)
  then show ?thesis
    using assms by (simp add: decode_submit_def post_job_def submit_names store_member_def field_for_def get_string_def get_int_def)
qed


end
