(* ===== verification/Worker_Process.thy ===== *)
theory Worker_Process
  imports Engine
begin

text \<open>
  The worker process (\<open>src/cmd/worker/main.go\<close>) with the executors as it and \<open>engine.New\<close> stack them: a circuit breaker for each worker around a rate
  limiter, which the workers of one process share, around the executor that does the work. Also the constructors of the in-process worker
  (\<open>src/internal/worker/worker.go\<close>) and of the RPC side (\<open>src/internal/rpc\<close>).
\<close>

section \<open>The stack of executors\<close>

text \<open>
  One call through the stack. \<open>None\<close> while it waits for a token; otherwise its result, whether the work was done, and the new states. The
  executor of the sources, \<open>MockExecutor\<close>, is given by \<open>cancelled\<close>.
\<close>

definition stack_Execute ::
  "time \<Rightarrow> time \<Rightarrow> bool \<Rightarrow> job \<Rightarrow> breaker \<Rightarrow> unit channel \<Rightarrow> (error option \<times> bool \<times> breaker \<times> unit channel) option" where
  "stack_Execute t t' cancelled j b l =
     (case breaker_enter t b of
        (Some e, b1) \<Rightarrow> Some (Some e, False, b1, l)
      | (None, b1) \<Rightarrow>
          (case RateLimitedExecutor_Execute (MockExecutor_Execute cancelled) j l of
             None \<Rightarrow> None
           | Some (r, l1) \<Rightarrow> (let (err, b2) = breaker_leave t' r b1 in Some (err, True, b2, l1))))"

text \<open>Several workers, known by their position, with one limiter; and the ticks of the limiter.\<close>

datatype stack_event = Tick | Call nat time time bool job

fun stack_run :: "stack_event list \<Rightarrow> breaker list \<Rightarrow> unit channel \<Rightarrow> (nat \<times> breaker list \<times> unit channel) option" where
  "stack_run [] bs l = Some (0, bs, l)"
| "stack_run (Tick # es) bs l = stack_run es bs (refill_tick l)"
| "stack_run (Call w t t' cancelled j # es) bs l =
     (if w \<ge> length bs then None
      else (case stack_Execute t t' cancelled j (bs ! w) l of
        None \<Rightarrow> None
      | Some (err, worked, b, l1) \<Rightarrow>
          (case stack_run es (bs[w := b]) l1 of
             None \<Rightarrow> None
           | Some (n, bs', l') \<Rightarrow> Some ((if worked then Suc n else n), bs', l'))))"

lemma stack_Execute_breaker:
  assumes "stack_Execute t t' cancelled j b l = Some (err, worked, b', l')"
  shows "breaker_Execute t t' (MockExecutor_Execute cancelled j) b = (err, worked, b')"
    "length (buf l) = length (buf l') + (if worked then 1 else 0)" "cap l' = cap l"
  using assms by (auto simp: stack_Execute_def breaker_Execute_def RateLimitedExecutor_Execute_def bucket_Acquire_def try_recv_def
      Let_def split: prod.splits option.splits list.splits)

lemma stack_run_tokens:
  assumes "stack_run es bs l = Some (n, bs', l')" "length (buf l) \<le> cap l"
  shows "n + length (buf l') \<le> length (buf l) + count_list es Tick" "length (buf l') \<le> cap l'" "cap l' = cap l" "length bs' = length bs"
proof -
  have "n + length (buf l') \<le> length (buf l) + count_list es Tick \<and> length (buf l') \<le> cap l' \<and> cap l' = cap l \<and> length bs' = length bs"
    using assms
  proof (induction es bs l arbitrary: n rule: stack_run.induct)
    case (2 es bs l)
    have "length (buf (refill_tick l)) \<le> Suc (length (buf l))" "length (buf (refill_tick l)) \<le> cap (refill_tick l)" "cap (refill_tick l) = cap l"
      using 2(3) by (auto simp: refill_tick_def try_send_def)
    then show ?case using 2(1) [of n] 2(2) by simp
  next
    case (3 w t t' cancelled j es bs l)
    obtain err worked b l1 n1 where s: "stack_Execute t t' cancelled j (bs ! w) l = Some (err, worked, b, l1)"
        "stack_run es (bs[w := b]) l1 = Some (n1, bs', l')" "n = (if worked then Suc n1 else n1)" "w < length bs"
      using 3(2) by (auto split: option.splits prod.splits if_splits)
    note x = stack_Execute_breaker(2,3) [OF s(1)]
    then have "length (buf l1) \<le> cap l1" using 3(3) by (auto split: if_splits)
    then show ?case using 3(1) [OF _ s(1) refl refl refl s(2)] s x by (auto split: if_splits)
  qed auto
  then show "n + length (buf l') \<le> length (buf l) + count_list es Tick" "length (buf l') \<le> cap l'" "cap l' = cap l" "length bs' = length bs"
    by auto
qed

section \<open>Clients of the worker service\<close>

record client =
  clID :: int
  clWorkerAddr :: string
  clTopics :: "string list"

text \<open>\<open>New\<close> connects to the control node and \<open>NewOutbound\<close> to the worker; \<open>dial\<close> is the outcome of \<open>grpc.NewClient\<close>.\<close>

definition Client_New :: "(string \<Rightarrow> error option) \<Rightarrow> int \<Rightarrow> string \<Rightarrow> string \<Rightarrow> string list \<Rightarrow> error + client" where
  "Client_New dial i workerAddr controllerAddr topics =
     (case dial controllerAddr of
        Some err \<Rightarrow> Inl err
      | None \<Rightarrow> Inr \<lparr>clID = i, clWorkerAddr = workerAddr, clTopics = topics\<rparr>)"

definition NewOutbound :: "(string \<Rightarrow> error option) \<Rightarrow> int \<Rightarrow> string \<Rightarrow> error + client" where
  "NewOutbound dial i workerAddr =
     (case dial workerAddr of
        Some err \<Rightarrow> Inl err
      | None \<Rightarrow> Inr \<lparr>clID = i, clWorkerAddr = workerAddr, clTopics = []\<rparr>)"

text \<open>The proxy of a worker on the control node, and the service method that must not be called there.\<close>

record remote_worker =
  rwID :: int
  rwClient :: client

definition NewRemoteWorker :: "int \<Rightarrow> client \<Rightarrow> remote_worker" where
  "NewRemoteWorker i c = \<lparr>rwID = i, rwClient = c\<rparr>"

definition RemoteWorker_Submit :: "(submit_request \<Rightarrow> error + bool \<times> string) \<Rightarrow> remote_worker \<Rightarrow> job \<Rightarrow> error option" where
  "RemoteWorker_Submit rpc w j = Client_Submit rpc (clID (rwClient w)) j"

definition WorkerServer_SubmitJob :: "submit_request \<Rightarrow> error + bool \<times> string" where
  "WorkerServer_SubmitJob req = Inl (EText ''SubmitJob must not be called on the control node WorkerServer'')"

text \<open>A job sent to a control node by mistake is an error of the submission and not a lost job.\<close>

lemma submit_to_control_node_fails: "RemoteWorker_Submit WorkerServer_SubmitJob w j \<noteq> None"
  by (simp add: RemoteWorker_Submit_def Client_Submit_def WorkerServer_SubmitJob_def)

section \<open>Workers\<close>

record local_worker =
  wkID :: int
  wkRunner :: runner

definition NewWorker :: "int \<Rightarrow> result channel \<Rightarrow> local_worker" where
  "NewWorker i results = \<lparr>wkID = i, wkRunner = runner_New True results\<rparr>"

text \<open>
  The worker process: its settings, its executors, its runner, which has no store, and its connection to the control node. A bad identity or port
  ends the process, and so does a connection that cannot be made.
\<close>

record worker_process =
  wpID :: int
  wpMetricsPort :: int
  wpPort :: int
  wpLimiter :: "unit channel"
  wpBreaker :: breaker
  wpRunner :: runner
  wpController :: client

definition worker_main :: "(string \<Rightarrow> string) \<Rightarrow> (string \<Rightarrow> error option) \<Rightarrow> (num_error + error) + worker_process" where
  "worker_main env dial =
     (let cfg = config_Default env
      in case worker_id_setting env (WorkerID cfg) of
           Inl err \<Rightarrow> Inl (Inl err)
         | Inr workerID \<Rightarrow>
         (case worker_port_setting env (WorkerGRPCPort cfg) of
           Inl err \<Rightarrow> Inl (Inl err)
         | Inr workerPort \<Rightarrow>
             let limiter = NewTokenBucketLimiter (RateLimit cfg) (RateBurst cfg);
                 exec = NewCircuitBreakerExecutor (BreakerFailureThreshold cfg) (BreakerResetTimeout cfg);
                 r = runner_New False (make_chan (ResultBuffer cfg))
             in (case Client_New dial workerID (worker_addr_setting env workerPort) (controller_addr_setting env (ControllerGRPCPort cfg))
                        (worker_topics_setting env) of
                   Inl err \<Rightarrow> Inl (Inr err)
                 | Inr controller \<Rightarrow>
                     Inr \<lparr>wpID = workerID, wpMetricsPort = metrics_port_setting env, wpPort = workerPort,
                          wpLimiter = limiter, wpBreaker = exec, wpRunner = r, wpController = controller\<rparr>)))"

text \<open>A worker registers under its own identity, for some topic, and without settings for all of them.\<close>

lemma worker_main_topics:
  assumes "worker_main env dial = Inr w"
  shows "clID (wpController w) = wpID w" "clTopics (wpController w) \<noteq> []"
    "env ''QUORUM_WORKER_TOPICS'' = [] \<Longrightarrow> clTopics (wpController w) = [''*'']"
  using assms by (auto simp: worker_main_def Client_New_def worker_topics_setting_def Let_def split: sum.splits if_splits option.splits)

section \<open>Properties\<close>

text \<open>
  C31. The work of a process is rate limited however many workers it has: in any window of calls, refusals and ticks, in whatever order the
  workers make them, the executors do at most as much work as the limiter's burst plus its ticks. Every call has the outcome
  of its worker's circuit breaker, and a call that the breaker refuses takes no token from the others.
\<close>

theorem executions_are_rate_limited:
  assumes "length (buf l) \<le> cap l" "stack_run es bs l = Some (n, bs', l')"
  shows "n \<le> cap l + count_list es Tick \<and> length (buf l') \<le> cap l \<and>
    (w < length bs' \<longrightarrow> stack_Execute t t' cancelled j (bs' ! w) l' = Some (err, worked, b, l'') \<longrightarrow>
       breaker_Execute t t' (MockExecutor_Execute cancelled j) (bs' ! w) = (err, worked, b) \<and> (\<not> worked \<longrightarrow> length (buf l'') = length (buf l')))"
  using stack_run_tokens [OF assms(2,1)] assms(1) stack_Execute_breaker [of t t' cancelled j "bs' ! w" l' err worked b l''] by auto

theorem executions_are_rate_limited_witness:
  "let j = NewJob 1 ''email'' 5; l = NewTokenBucketLimiter 5 1; bs = replicate 2 (NewCircuitBreakerExecutor 5 30)
   in \<exists>n bs' l'. stack_run [Call 0 0 1 False j, Tick, Call 1 2 3 False j] bs l = Some (n, bs', l') \<and> n \<le> 2"
proof -
  let ?j = "NewJob 1 ''email'' 5" and ?l = "NewTokenBucketLimiter 5 1" and ?bs = "replicate 2 (NewCircuitBreakerExecutor 5 30)"
  let ?es = "[Call 0 0 1 False ?j, Tick, Call 1 2 3 False ?j]"
  have "stack_run ?es ?bs ?l \<noteq> None" by code_simp
  then obtain n bs' l' where r: "stack_run ?es ?bs ?l = Some (n, bs', l')" by auto
  have h: "length (buf ?l) \<le> cap ?l" and c: "cap ?l = 1" by code_simp+
  have "count_list ?es Tick = 1" by simp
  then show ?thesis using executions_are_rate_limited [OF h r] r c by (simp only: Let_def) force
qed

end
