(* ===== verification/Bolt_Open.thy ===== *)
theory Bolt_Open
  imports Bolt_Store
begin

text \<open>
  Opening and closing the persistent backend (\<open>NewBoltStore\<close> and \<open>Close\<close> of \<open>src/internal/store/bolt_store.go\<close>). A value of
  type \<open>'db\<close> stands for the database file together with the handle on it, if there is one. What bbolt documents about opening a file,
  creating a bucket and closing is the locale \<open>bolt_file\<close>.
\<close>

section \<open>Opening and closing\<close>

record 'db bolt_file_ops =
  bf_open :: "'db \<Rightarrow> error + 'db"
  bf_create :: "bucket \<Rightarrow> 'db \<Rightarrow> error + 'db"
  bf_close :: "'db \<Rightarrow> error option \<times> 'db"

fun bucket_name :: "bucket \<Rightarrow> string" where
  "bucket_name jobsBucket = ''jobs''"
| "bucket_name cronBucket = ''cron_jobs''"
| "bucket_name dlqBucket = ''dlq''"
| "bucket_name idempotencyBucket = ''idempotency_keys''"
| "bucket_name statusPendingBucket = ''status_pending''"
| "bucket_name statusScheduledBucket = ''status_scheduled''"
| "bucket_name statusCompletedBucket = ''status_completed''"
| "bucket_name statusFailedBucket = ''status_failed''"
| "bucket_name statusCancelledBucket = ''status_cancelled''"

definition all_buckets :: "bucket list" where
  "all_buckets =
     [jobsBucket, cronBucket, dlqBucket, idempotencyBucket, statusPendingBucket, statusScheduledBucket,
      statusCompletedBucket, statusFailedBucket, statusCancelledBucket]"

fun create_buckets :: "'db bolt_file_ops \<Rightarrow> bucket list \<Rightarrow> 'db \<Rightarrow> error + 'db" where
  "create_buckets bf [] tx = Inr tx"
| "create_buckets bf (b # bs) tx =
     (case bf_create bf b tx of
        Inl e \<Rightarrow> Inl (EWrap (''create bucket '' @ bucket_name b) e)
      | Inr tx' \<Rightarrow> create_buckets bf bs tx')"

text \<open>The verb \<open>%q\<close> on a text that needs no escapes.\<close>

definition quoted :: "string \<Rightarrow> string" where
  "quoted s = [CHR 0x22] @ s @ [CHR 0x22]"

definition NewBoltStore :: "'db bolt_ops \<Rightarrow> 'db bolt_file_ops \<Rightarrow> string \<Rightarrow> 'db \<Rightarrow> error option \<times> 'db" where
  "NewBoltStore bk bf path file =
     (case bf_open bf file of
        Inl e \<Rightarrow> (Some (EWrap (''open bolt db at '' @ quoted path) e), file)
      | Inr db \<Rightarrow>
          (case bolt_Tx bk (create_buckets bf all_buckets) db of
             (Some e, db1) \<Rightarrow> (Some (EWrap ''initialise bolt buckets'' e), snd (bf_close bf db1))
           | (None, db1) \<Rightarrow> (None, db1)))"

definition bolt_Close :: "'db bolt_file_ops \<Rightarrow> 'db \<Rightarrow> error option \<times> 'db" where
  "bolt_Close bf db = bf_close bf db"

lemma all_buckets_complete: "set all_buckets = UNIV" "distinct all_buckets"
proof -
  have "b \<in> set all_buckets" for b by (cases b) (simp_all add: all_buckets_def)
  then show "set all_buckets = UNIV" by auto
  show "distinct all_buckets" by (simp add: all_buckets_def)
qed

lemma bucket_name_inj: "bucket_name b = bucket_name b' \<longleftrightarrow> b = b'"
  by (cases b; cases b'; simp)

section \<open>What bbolt promises\<close>

text \<open>
  An opened database has the contents of the file and accepts transactions; creating a bucket that may exist changes no entry;
  every committed entry is in the file when the database is closed, even when closing reports an error.
\<close>

locale bolt_file = bolt_db bk for bk :: "'db bolt_ops" +
  fixes bf :: "'db bolt_file_ops"
  assumes open_get: "bf_open bf file = Inr db \<Longrightarrow> bk_get bk db = bk_get bk file \<and> bk_open bk db"
    and create_get: "bf_create bf b db = Inr db' \<Longrightarrow> bk_get bk db' = bk_get bk db \<and> bk_open bk db' = bk_open bk db"
    and close_get: "bf_close bf db = (r, file) \<Longrightarrow> bk_get bk file = bk_get bk db"
begin

lemma create_buckets_get:
  "create_buckets bf bs db = Inr db' \<Longrightarrow> bk_get bk db' = bk_get bk db \<and> bk_open bk db' = bk_open bk db"
  by (induction bs arbitrary: db) (auto dest!: create_get split: sum.splits)

lemma NewBoltStore_get:
  assumes "NewBoltStore bk bf path file = (r, db)"
  shows "bk_get bk db = bk_get bk file" "r = None \<Longrightarrow> bk_open bk db"
proof -
  have c: "bk_get bk (snd (bf_close bf d)) = bk_get bk d" for d using close_get by (cases "bf_close bf d") auto
  have "bk_get bk db = bk_get bk file \<and> (r = None \<longrightarrow> bk_open bk db)"
  proof (cases "bf_open bf file")
    case (Inl e)
    then show ?thesis using assms by (auto simp: NewBoltStore_def)
  next
    case (Inr d)
    obtain x d' where x: "bolt_Tx bk (create_buckets bf all_buckets) d = (x, d')" by fastforce
    have "x = None \<Longrightarrow> bk_get bk d' = bk_get bk d \<and> bk_open bk d' = bk_open bk d" "x \<noteq> None \<Longrightarrow> d' = d"
      using x Tx_err Tx_ok create_buckets_get by blast+
    then show ?thesis using assms Inr open_get [OF Inr] c x by (cases x) (auto simp: NewBoltStore_def)
  qed
  then show "bk_get bk db = bk_get bk file" "r = None \<Longrightarrow> bk_open bk db" by auto
qed

lemma NewBoltStore_inv:
  assumes "NewBoltStore bk bf path file = (None, db)" "content_inv (bk_get bk file)"
  shows "bolt_inv bk db" "bolt_abs bk db = content_abs (bk_get bk file)"
  using NewBoltStore_get [OF assms(1)] assms(2) by (simp_all add: bolt_inv_def bolt_abs_def)

lemma Close_get: "bolt_Close bf db = (r, file) \<Longrightarrow> bk_get bk file = bk_get bk db"
  unfolding bolt_Close_def by (rule close_get)

text \<open>The file outlives the process: what an open database holds is there again after it was closed, cleanly or not, and opened.\<close>

lemma reopen:
  assumes "bolt_inv bk db" "bolt_Close bf db = (r, file)" "NewBoltStore bk bf path file = (None, db1)"
  shows "bolt_inv bk db1" "bolt_abs bk db1 = bolt_abs bk db"
  using NewBoltStore_inv [OF assms(3)] Close_get [OF assms(2)] assms(1) by (simp_all add: bolt_inv_def bolt_abs_def)

end

lemma content_inv_empty [simp, wf_intros]: "content_inv (\<lambda>_ _. None)"
  by (simp add: content_defs)

text \<open>A file in memory, beside the database in memory of \<open>Bolt_Store\<close>.\<close>

definition mem_file :: "mem_db bolt_file_ops" where
  "mem_file = \<lparr>bf_open = Inr, bf_create = (\<lambda>_. Inr), bf_close = Pair None\<rparr>"

interpretation mfile: bolt_file mem_bolt mem_file
  by unfold_locales (auto simp: mem_file_def mem_bolt_def)

lemma mem_file_simps [simp]:
  "NewBoltStore mem_bolt mem_file path db = (None, db)" "bolt_Close mem_file db = (None, db)"
proof -
  have "create_buckets mem_file bs db = Inr db" for bs by (induction bs) (simp_all add: mem_file_def)
  then show "NewBoltStore mem_bolt mem_file path db = (None, db)"
    by (simp add: NewBoltStore_def bolt_Tx_def mem_file_def mem_bolt_def)
  show "bolt_Close mem_file db = (None, db)" by (simp add: bolt_Close_def mem_file_def)
qed

end
