(* ===== verification/Store_Choice.thy ===== *)
theory Store_Choice
  imports Bolt_Open Memory_Store
begin

text \<open>
  A value of Go's interface type \<open>store.Store\<close> that holds one backend or another, as \<open>engine.New\<close> chooses it: a call goes to
  the backend at hand. The choice keeps the contract: where both backends refine the abstract store, so does the choice.
\<close>

definition either_call :: "('a \<Rightarrow> 'r \<times> 'a) \<Rightarrow> ('b \<Rightarrow> 'r \<times> 'b) \<Rightarrow> 'a + 'b \<Rightarrow> 'r \<times> ('a + 'b)" where
  "either_call f g s =
     (case s of
        Inl a \<Rightarrow> (let (r, a') = f a in (r, Inl a'))
      | Inr b \<Rightarrow> (let (r, b') = g b in (r, Inr b')))"

definition either_ops :: "'a store_ops \<Rightarrow> 'b store_ops \<Rightarrow> ('a + 'b) store_ops" where
  "either_ops x y =
     \<lparr>st_Add = (\<lambda>j. either_call (st_Add x j) (st_Add y j)),
      st_Get = case_sum (st_Get x) (st_Get y),
      st_List = (\<lambda>ord. case_sum (st_List x ord) (st_List y ord)),
      st_ListByStatus = (\<lambda>ord st. case_sum (st_ListByStatus x ord st) (st_ListByStatus y ord st)),
      st_Update = (\<lambda>j. either_call (st_Update x j) (st_Update y j)),
      st_Delete = (\<lambda>i. either_call (st_Delete x i) (st_Delete y i)),
      st_Cancel = (\<lambda>i. either_call (st_Cancel x i) (st_Cancel y i)),
      st_AddCron = (\<lambda>c. either_call (st_AddCron x c) (st_AddCron y c)),
      st_DeleteCron = (\<lambda>k. either_call (st_DeleteCron x k) (st_DeleteCron y k)),
      st_ListCrons = (\<lambda>ord. case_sum (st_ListCrons x ord) (st_ListCrons y ord)),
      st_AddDLQ = (\<lambda>j. either_call (st_AddDLQ x j) (st_AddDLQ y j)),
      st_ListDLQ = (\<lambda>ord. case_sum (st_ListDLQ x ord) (st_ListDLQ y ord)),
      st_FindByIdempotencyKey = (\<lambda>k. case_sum (st_FindByIdempotencyKey x k) (st_FindByIdempotencyKey y k))\<rparr>"

lemma either_call_Inl [simp]: "either_call f g (Inl a) = (r, s') \<longleftrightarrow> (\<exists>a'. s' = Inl a' \<and> f a = (r, a'))"
  by (auto simp: either_call_def split: prod.splits)

lemma either_call_Inr [simp]: "either_call f g (Inr b) = (r, s') \<longleftrightarrow> (\<exists>b'. s' = Inr b' \<and> g b = (r, b'))"
  by (auto simp: either_call_def split: prod.splits)

locale store_choice = one: job_store so1 inv1 abs1 + two: job_store so2 inv2 abs2
  for so1 :: "'a store_ops" and inv1 abs1 and so2 :: "'b store_ops" and inv2 abs2

sublocale store_choice \<subseteq> either: job_store "either_ops so1 so2" "case_sum inv1 inv2" "case_sum abs1 abs2"
proof (unfold_locales, goal_cases)
  case (1 s)
  then show ?case using one.inv_abs two.inv_abs by (cases s) auto
next
  case (2 s)
  then show ?case by (cases s) (auto simp: either_ops_def one.Get_abs two.Get_abs)
next
  case (3 s ord)
  then show ?case by (cases s) (auto simp: either_ops_def one.List_abs two.List_abs)
next
  case (4 s st ord js)
  then show ?case by (cases s) (auto simp: either_ops_def dest: one.ListByStatus_abs two.ListByStatus_abs)
next
  case (5 s j e s')
  then show ?case by (cases s) (auto simp: either_ops_def dest: one.Add_err two.Add_err)
next
  case (6 s j s')
  then show ?case by (cases s) (auto simp: either_ops_def dest: one.Add_ok two.Add_ok)
next
  case (7 s j e s')
  then show ?case by (cases s) (auto simp: either_ops_def dest: one.Update_err two.Update_err)
next
  case (8 s j s')
  then show ?case by (cases s) (auto simp: either_ops_def dest: one.Update_ok two.Update_ok)
next
  case (9 s j s')
  then show ?case by (cases s) (auto simp: either_ops_def dest: one.Update_inv two.Update_inv)
next
  case (10 s i e s')
  then show ?case by (cases s) (auto simp: either_ops_def dest: one.Cancel_err two.Cancel_err)
next
  case (11 s i s')
  then show ?case by (cases s) (auto simp: either_ops_def dest: one.Cancel_ok two.Cancel_ok)
next
  case (12 s i b e s')
  then show ?case by (cases s) (auto simp: either_ops_def dest: one.Delete_err two.Delete_err)
next
  case (13 s i b s')
  then show ?case by (cases s) (auto simp: either_ops_def dest: one.Delete_ok two.Delete_ok)
next
  case (14 s j e s')
  then show ?case by (cases s) (auto simp: either_ops_def dest: one.AddDLQ_err two.AddDLQ_err)
next
  case (15 s j s')
  then show ?case by (cases s) (auto simp: either_ops_def dest: one.AddDLQ_ok two.AddDLQ_ok)
next
  case (16 s ord js)
  then show ?case by (cases s) (auto simp: either_ops_def dest: one.ListDLQ_abs two.ListDLQ_abs)
next
  case (17 s c e s')
  then show ?case by (cases s) (auto simp: either_ops_def dest: one.AddCron_err two.AddCron_err)
next
  case (18 s c s')
  then show ?case by (cases s) (auto simp: either_ops_def dest: one.AddCron_ok two.AddCron_ok)
next
  case (19 s k b e s')
  then show ?case by (cases s) (auto simp: either_ops_def dest: one.DeleteCron_err two.DeleteCron_err)
next
  case (20 s k b s')
  then show ?case by (cases s) (auto simp: either_ops_def dest: one.DeleteCron_ok two.DeleteCron_ok)
next
  case (21 s ord cs)
  then show ?case by (cases s) (auto simp: either_ops_def dest: one.ListCrons_abs two.ListCrons_abs)
next
  case (22 s k j)
  then show ?case by (cases s) (auto simp: either_ops_def one.Find_abs two.Find_abs)
qed

section \<open>The two backends of the program\<close>

abbreviation quorum_ops :: "'db bolt_ops \<Rightarrow> ('db + memory_store) store_ops" where
  "quorum_ops bk \<equiv> either_ops (bolt_store_ops bk) memory_ops"

abbreviation quorum_inv :: "'db bolt_ops \<Rightarrow> 'db + memory_store \<Rightarrow> bool" where
  "quorum_inv bk \<equiv> case_sum (bolt_inv bk) mem_inv"

abbreviation quorum_abs :: "'db bolt_ops \<Rightarrow> 'db + memory_store \<Rightarrow> astore" where
  "quorum_abs bk \<equiv> case_sum (bolt_abs bk) mem_abs"

sublocale bolt_db \<subseteq> choice: store_choice "bolt_store_ops bk" "bolt_inv bk" "bolt_abs bk" memory_ops mem_inv mem_abs ..

context bolt_db
begin

lemma quorum_backend: "job_store (quorum_ops bk) (quorum_inv bk) (quorum_abs bk)"
  by (rule choice.either.job_store_axioms)

lemma quorum_listing:
  assumes "quorum_inv bk s" "named st"
  shows "\<exists>js. st_ListByStatus (quorum_ops bk) ord st s = Inr js"
  using assms ListByStatus_content [of _ st] mem.ListByStatus_succeeds [of _ ord st] by (cases s) (auto simp: either_ops_def, blast)

end

end
