(* ===== verification/Startup.thy ===== *)
theory Startup
  imports Engine Store_Choice
begin

text \<open>
  From the start of the server process to its end: \<open>NewRaftNode\<close> (\<open>src/internal/consensus/raft.go\<close>), all of \<open>New\<close> and \<open>Stop\<close>
  (\<open>src/internal/engine/engine.go\<close>) with the choice of the backend, and the first half of \<open>main\<close> (\<open>src/cmd/server/server.go\<close>). The calls of the
  operating system and of the consensus library are parameters.
\<close>

section \<open>The consensus node\<close>

text \<open>
  Outcomes of the calls that \<open>NewRaftNode\<close> makes: the data directory, the address, the transport with its local address, the snapshot
  store, the node itself and whether earlier state exists. Log and stable store are in memory and cannot fail.
\<close>

record 's raft_setup =
  rs_mkdir :: "string \<Rightarrow> error option"
  rs_resolve :: "string \<Rightarrow> error + string"
  rs_transport :: "string \<Rightarrow> string \<Rightarrow> error + string"
  rs_snapshots :: "string \<Rightarrow> error option"
  rs_raft :: "string \<Rightarrow> error + 's raft_ops"
  rs_state :: "error + bool"

text \<open>The second component is the configuration that the node bootstraps, as pairs of ID and address.\<close>

definition NewRaftNode ::
  "'s raft_setup \<Rightarrow> string \<Rightarrow> string \<Rightarrow> string \<Rightarrow> error + 's raft_ops \<times> (string \<times> string) list option" where
  "NewRaftNode rs nodeID raftAddr dataDir =
     (case rs_mkdir rs dataDir of
        Some err \<Rightarrow> Inl (EWrap (''create raft data dir '' @ quoted dataDir) err)
      | None \<Rightarrow>
     (case rs_resolve rs raftAddr of
        Inl err \<Rightarrow> Inl (EWrap (''resolve raft addr '' @ quoted raftAddr) err)
      | Inr addr \<Rightarrow>
     (case rs_transport rs raftAddr addr of
        Inl err \<Rightarrow> Inl (EWrap ''create tcp transport'' err)
      | Inr localAddr \<Rightarrow>
     (case rs_snapshots rs dataDir of
        Some err \<Rightarrow> Inl (EWrap ''create snapshot store'' err)
      | None \<Rightarrow>
     (case rs_raft rs nodeID of
        Inl err \<Rightarrow> Inl (EWrap ''create raft instance'' err)
      | Inr r \<Rightarrow>
     (case rs_state rs of
        Inl err \<Rightarrow> Inl err
      | Inr hasState \<Rightarrow> Inr (r, if \<not> hasState then Some [(nodeID, localAddr)] else None)))))))"

text \<open>A node that finds no earlier state makes itself the only voter, whatever other nodes there are.\<close>

lemma NewRaftNode_bootstraps_alone:
  "NewRaftNode rs nodeID raftAddr dataDir = Inr (r, Some servers) \<Longrightarrow> map fst servers = [nodeID] \<and> rs_state rs = Inr False"
  by (auto simp: NewRaftNode_def split: option.splits sum.splits if_splits)

section \<open>The engine\<close>

definition open_store :: "'db bolt_ops \<Rightarrow> 'db bolt_file_ops \<Rightarrow> 'db \<Rightarrow> config \<Rightarrow> error + ('db + memory_store)" where
  "open_store bk bf file cfg =
     (if StorageType cfg = ''bolt'' then
        (case NewBoltStore bk bf (StoragePath cfg) file of
           (Some err, _) \<Rightarrow> Inl (EWrap ''failed to initialize bolt store'' err)
         | (None, bs) \<Rightarrow> Inr (Inl bs))
      else Inr (Inr NewMemoryStore))"

text \<open>\<open>New\<close>: an engine and its consensus node, which is missing when it is disabled or when it could not be started.\<close>

definition engine_Open ::
  "'db bolt_ops \<Rightarrow> 'db bolt_file_ops \<Rightarrow> 'db \<Rightarrow> ('db + memory_store) raft_setup \<Rightarrow> time \<Rightarrow> config
   \<Rightarrow> error + ('db + memory_store) engine \<times> ('db + memory_store) raft_ops option" where
  "engine_Open bk bf file rs now cfg =
     (case open_store bk bf file cfg of
        Inl err \<Rightarrow> Inl err
      | Inr st \<Rightarrow>
          let raftNode =
            (if RaftEnabled cfg then
               (case NewRaftNode rs (RaftNodeID cfg) (RaftAddr cfg) (RaftDataDir cfg) of
                  Inl _ \<Rightarrow> None
                | Inr (rn, _) \<Rightarrow> Some rn)
             else None)
          in Inr (engine_New now cfg st, raftNode))"

text \<open>\<open>Stop\<close>, after the goroutines have ended: only the persistent store has a \<open>Close\<close> method.\<close>

definition engine_Stop :: "'db bolt_file_ops \<Rightarrow> 'db + memory_store \<Rightarrow> error option \<times> ('db + memory_store)" where
  "engine_Stop bf st =
     (case st of
        Inl db \<Rightarrow> (let (err, file) = bolt_Close bf db in (err, Inl file))
      | Inr m \<Rightarrow> (None, Inr m))"

section \<open>The server process\<close>

text \<open>
  \<open>main\<close> up to \<open>e.Start()\<close>; an error ends the process. The arguments \<open>ord\<close> are the orders in which maps of the in-memory store are
  visited.
\<close>

definition server_start ::
  "'db bolt_ops \<Rightarrow> 'db bolt_file_ops \<Rightarrow> 'db \<Rightarrow> ('db + memory_store) raft_setup \<Rightarrow> time \<Rightarrow> config \<Rightarrow> (nat \<Rightarrow> order_choice)
   \<Rightarrow> error + ('db + memory_store) engine \<times> ('db + memory_store) raft_ops option" where
  "server_start bk bf file rs now cfg ord =
     (case engine_Open bk bf file rs now cfg of
        Inl err \<Rightarrow> Inl err
      | Inr (e, raftNode) \<Rightarrow>
          (case Restore (quorum_ops bk) (ord 0) (ord 1) (ord 2) e of
             (Some err, _) \<Rightarrow> Inl err
           | (None, e1) \<Rightarrow> Inr (engine_Start (quorum_ops bk) raftNode (ord 3) (ord 4) e1, raftNode)))"

section \<open>What a restart finds\<close>

lemma fold_Manager [simp]:
  "sStore (fold (\<lambda>i s. s\<lparr>Manager := f i s\<rparr>) is s) = sStore s"
  "PriorityQueue (fold (\<lambda>i s. s\<lparr>Manager := f i s\<rparr>) is s) = PriorityQueue s"
  "DelayQueue (fold (\<lambda>i s. s\<lparr>Manager := f i s\<rparr>) is s) = DelayQueue s"
  "Leases (fold (\<lambda>i s. s\<lparr>Manager := f i s\<rparr>) is s) = Leases s"
  by (induction "is" arbitrary: s) auto

lemma engine_New_parts:
  "JobStore (engine_New now cfg st) = st"
  "queue_ids (PriorityQueue (eScheduler (engine_New now cfg st))) = {#}"
  "queue_ids (DelayQueue (eScheduler (engine_New now cfg st))) = {#}"
  "lease_inv (Leases (eScheduler (engine_New now cfg st)))"
  by (simp_all add: engine_New_def NewScheduler_def Let_def)

context bolt_db
begin

lemma quorum_source: "queue_source (quorum_ops bk) (quorum_inv bk) (quorum_abs bk)"
  by (intro queue_source.intro quorum_backend queue_source_axioms.intro quorum_listing)

end

context queue_source
begin

lemma restore_and_start:
  assumes inv: "inv (JobStore e)" and l: "lease_inv (Leases (eScheduler e))"
    and q: "queue_ids (PriorityQueue (eScheduler e)) = {#}" "queue_ids (DelayQueue (eScheduler e)) = {#}"
  shows "\<exists>e1. Restore so ord ord1 ord2 e = (None, e1) \<and>
    (let e2 = engine_Start so raftNode ord3 ord4 e1
     in JobStore e2 = JobStore e \<and> nextJobID e2 = Max (insert 0 {i. st_Get so (JobStore e) i \<noteq> None}) \<and>
        (\<forall>i. count (queue_ids (PriorityQueue (eScheduler e2))) i =
            (if \<exists>j. st_Get so (JobStore e) i = Some j \<and> Status j = Pending then (if raftNode = None then 2 else 1) else 0) \<and>
          count (queue_ids (DelayQueue (eScheduler e2))) i =
            (if \<exists>j. st_Get so (JobStore e) i = Some j \<and> Status j = Scheduled then (if raftNode = None then 2 else 1) else 0)))"
proof -
  obtain s where r: "Restore so ord ord1 ord2 e = (None, e\<lparr>nextJobID := Max (insert 0 {i. st_Get so (JobStore e) i \<noteq> None}), eScheduler := s\<rparr>)"
    and s: "RebuildQueuesFromStore so ord1 ord2 (eScheduler e) = (None, s)"
    using Restore_effect [OF inv l] by blast
  note c = Rebuild_counts [OF inv s]
  then have i: "inv (sStore s)" using inv by simp
  obtain s' where s': "RebuildQueuesFromStore so ord3 ord4 s = (None, s')" using Rebuild_succeeds [OF i] by blast
  show ?thesis
    using r s' c Rebuild_counts [OF i s'] q by (cases raftNode) (auto simp: engine_Start_def Let_def sched_get_def)
qed

end

text \<open>What \<open>Stop\<close> leaves is such a file.\<close>

context bolt_file
begin

lemma Stop_leaves_file:
  assumes "quorum_inv bk (Inl db)" "engine_Stop bf (Inl db) = (r, st)"
  shows "\<exists>file. st = Inl file \<and> content_inv (bk_get bk file) \<and> content_abs (bk_get bk file) = quorum_abs bk (Inl db)"
  using assms Close_get by (auto simp: engine_Stop_def bolt_inv_def bolt_abs_def split: prod.splits)

end

section \<open>Properties\<close>



end
