(* ===== verification/Go_Float.thy ===== *)
theory Go_Float
  imports Complex_Main "HOL-Library.Log_Nat"
begin

text \<open>
  Go's \<open>float64\<close> as rational numbers: the result of an operation is the exact result rounded to 53 binary digits, to the nearest and on ties
  to the even last digit. Overflow, subnormal numbers and NaN are left out: the sources only use quotients and products of counts,
  percentages and durations, which stay far inside the range.
\<close>

section \<open>Rounding\<close>

text \<open>The exponent of a positive number: the power of two below it.\<close>

definition exponent :: "rat \<Rightarrow> int" where
  "exponent x =
     (let (a, b) = quotient_of x; e = bitlen a - bitlen b in if 2 powi e \<le> x then e else e - 1)"

definition round_even :: "rat \<Rightarrow> int" where
  "round_even y =
     (let n = \<lfloor>y\<rfloor>; d = y - of_int n
      in if d < 1 / 2 then n else if d > 1 / 2 then n + 1 else if even n then n else n + 1)"

definition float64 :: "rat \<Rightarrow> rat" where
  "float64 x =
     (if x = 0 then 0
      else let e = exponent \<bar>x\<bar> - 52 in sgn x * of_int (round_even (\<bar>x\<bar> / 2 powi e)) * 2 powi e)"

section \<open>Laws of rounding\<close>

lemma exponent_bounds:
  assumes "0 < x"
  shows "2 powi exponent x \<le> x" "x < 2 powi (exponent x + 1)"
proof -
  obtain a b where q: "quotient_of x = (a, b)" by fastforce
  have b: "0 < b" and x: "x = of_int a / of_int b" using quotient_of_denom_pos [OF q] quotient_of_div [OF q] by auto
  have a: "0 < a" using assms x b by (simp add: zero_less_divide_iff)
  define m n where "m = bitlen a" and "n = bitlen b"
  have m1: "1 \<le> m" and n1: "1 \<le> n" using a b bitlen_nonneg [of a] bitlen_nonneg [of b] bitlen_eq_zero_iff [of a] bitlen_eq_zero_iff [of b]
    unfolding m_def n_def by linarith+
  have pw: "(2::rat) powi k = of_int (2 ^ nat k)" if "0 \<le> k" for k using that by (simp add: power_int_def)
  have ab: "(2::rat) powi (m - 1) \<le> of_int a" "of_int a < (2::rat) powi m"
    "(2::rat) powi (n - 1) \<le> of_int b" "of_int b < (2::rat) powi n"
    using bitlen_bounds [OF a] bitlen_bounds [OF b] m1 n1 unfolding m_def [symmetric] n_def [symmetric]
    by (simp_all only: pw of_int_le_iff of_int_less_iff diff_ge_0_iff_ge)
  have "x < 2 powi (m - n + 1)"
  proof -
    have "(2::rat) powi m = 2 powi (m - n + 1) * 2 powi (n - 1)" by (simp add: power_int_add [symmetric])
    also have "\<dots> \<le> 2 powi (m - n + 1) * of_int b" using ab(3) by (intro mult_left_mono) auto
    finally show ?thesis using ab(2) b by (simp add: x divide_simps)
  qed
  moreover have "2 powi (m - n - 1) < x"
  proof -
    have "2 powi (m - n - 1) * of_int b < 2 powi (m - n - 1) * (2::rat) powi n" using ab(4) by (intro mult_strict_left_mono) auto
    also have "\<dots> = 2 powi (m - 1)" by (simp add: power_int_add [symmetric])
    finally show ?thesis using ab(1) b by (simp add: x divide_simps)
  qed
  ultimately show "2 powi exponent x \<le> x" "x < 2 powi (exponent x + 1)"
    by (auto simp: exponent_def q Let_def m_def [symmetric] n_def [symmetric])
qed

lemma round_even_bounds: "\<bar>of_int (round_even y) - y\<bar> \<le> 1 / 2"
proof -
  have "of_int \<lfloor>y\<rfloor> \<le> y" "y < of_int \<lfloor>y\<rfloor> + 1" using floor_correct [of y] by simp_all
  then show ?thesis by (auto simp: round_even_def Let_def)
qed

lemma round_even_le: "y \<le> of_int k \<Longrightarrow> round_even y \<le> k"
proof -
  assume y: "y \<le> of_int k"
  have f: "of_int \<lfloor>y\<rfloor> \<le> y" by simp
  show "round_even y \<le> k"
  proof (cases "\<lfloor>y\<rfloor> < k")
    case True
    then show ?thesis by (auto simp: round_even_def Let_def)
  next
    case False
    then have "y = of_int \<lfloor>y\<rfloor>" "\<lfloor>y\<rfloor> = k" using y f by linarith+
    then show ?thesis by (simp add: round_even_def)
  qed
qed

lemma round_even_ge: "of_int k \<le> y \<Longrightarrow> k \<le> round_even y"
proof -
  assume "of_int k \<le> y"
  then have "k \<le> \<lfloor>y\<rfloor>" by (simp add: le_floor_iff)
  then show ?thesis by (auto simp: round_even_def Let_def)
qed

lemma float64_pos: "0 < x \<Longrightarrow> float64 x = of_int (round_even (x / 2 powi (exponent x - 52))) * 2 powi (exponent x - 52)"
  by (simp add: float64_def Let_def)

lemma float64_error:
  assumes "0 < x"
  shows "\<bar>float64 x - x\<bar> \<le> x / 2 ^ 53"
proof -
  let ?u = "2 powi (exponent x - 52) :: rat" and ?r = "round_even (x / 2 powi (exponent x - 52))"
  have u: "0 < ?u" by simp
  have "float64 x - x = (of_int ?r - x / ?u) * ?u" using u by (simp add: float64_pos [OF assms] algebra_simps)
  then have "\<bar>float64 x - x\<bar> = \<bar>of_int ?r - x / ?u\<bar> * ?u" using u by (simp add: abs_mult)
  also have "\<dots> \<le> 1 / 2 * ?u" using round_even_bounds [of "x / ?u"] u by (intro mult_right_mono) auto
  also have "\<dots> = 2 powi exponent x / 2 ^ 53" by (simp add: power_int_diff)
  also have "\<dots> \<le> x / 2 ^ 53" using exponent_bounds(1) [OF assms] by (intro divide_right_mono) auto
  finally show ?thesis .
qed

lemma exponent_below:
  assumes "0 < x" "x \<le> of_int k" "k < 2 ^ 53"
  shows "exponent x - 52 \<le> 0"
proof (rule ccontr)
  assume "\<not> exponent x - 52 \<le> 0"
  then have "(2::rat) powi 53 \<le> 2 powi exponent x" by (intro power_int_increasing) auto
  then have "of_int (2 ^ 53) \<le> x" using exponent_bounds(1) [OF assms(1)] by (simp add: power_int_def)
  then have "(of_int (2 ^ 53) :: rat) \<le> of_int k" using assms(2) by linarith
  then show False using assms(3) by (simp only: of_int_le_iff)
qed

text \<open>Rounding does not cross an integer below \<open>2 ^ 53\<close>.\<close>

lemma float64_le_int:
  assumes "0 < x" "x \<le> of_int k" "k < 2 ^ 53"
  shows "float64 x \<le> of_int k"
proof -
  let ?e = "exponent x - 52"
  have e: "?e \<le> 0" by (rule exponent_below [OF assms])
  define K where "K = k * 2 ^ nat (- ?e)"
  have K: "(of_int K :: rat) = of_int k / 2 powi ?e"
    using e by (simp add: K_def power_int_def divide_simps)
  have "x / 2 powi ?e \<le> of_int K" unfolding K using assms(2) by (intro divide_right_mono) auto
  then have "round_even (x / 2 powi ?e) \<le> K" by (rule round_even_le)
  then have "(of_int (round_even (x / 2 powi ?e)) :: rat) * 2 powi ?e \<le> of_int K * 2 powi ?e"
    by (intro mult_right_mono) auto
  also have "\<dots> = of_int k" by (simp add: K)
  finally show ?thesis by (simp add: float64_pos [OF assms(1)])
qed

lemma float64_int:
  assumes "0 \<le> k" "k < 2 ^ 53"
  shows "float64 (of_int k) = of_int k"
proof (cases "k = 0")
  case False
  then have k: "0 < (of_int k :: rat)" using assms(1) by simp
  let ?e = "exponent (of_int k) - 52"
  have "float64 (of_int k) \<le> of_int k" using float64_le_int [OF k _ assms(2)] by simp
  moreover have "of_int k \<le> float64 (of_int k)"
  proof -
    have e: "?e \<le> 0" using exponent_below [OF k _ assms(2)] by simp
    define K where "K = k * 2 ^ nat (- ?e)"
    have K: "(of_int K :: rat) = of_int k / 2 powi ?e" using e by (simp add: K_def power_int_def divide_simps)
    have "K \<le> round_even (of_int k / 2 powi ?e)" by (rule round_even_ge) (simp add: K)
    then have "(of_int K :: rat) * 2 powi ?e \<le> of_int (round_even (of_int k / 2 powi ?e)) * 2 powi ?e"
      by (intro mult_right_mono) auto
    then show ?thesis by (simp add: float64_pos [OF k] K)
  qed
  ultimately show ?thesis by simp
qed (simp add: float64_def)

lemma float64_1 [simp]: "float64 1 = 1"
  using float64_int [of 1] by simp

end
