(* ===== verification/Benchmark.thy ===== *)
theory Benchmark
  imports Startup Go_Float
begin

text \<open>
  The benchmark tool (\<open>src/internal/benchmark/benchmark.go\<close>): percentiles, the executor that fails at a given rate, the recovery benchmark on
  the persistent store, and the loop that waits for the jobs of a worker pool. Clock readings are arguments.
\<close>

section \<open>Percentiles\<close>

text \<open>\<open>sort.Slice\<close> on a copy with the order of the integers: the sorted list is unique.\<close>

definition Percentile :: "duration list \<Rightarrow> rat \<Rightarrow> duration" where
  "Percentile latencies p =
     (if length latencies = 0 then 0
      else
        let xs = sort latencies; n = int (length xs)
        in if p \<le> 0 then xs ! 0
           else if p \<ge> 100 then xs ! nat (n - 1)
           else
             let rank = \<lceil>float64 (float64 (p / 100) * float64 (of_int n))\<rceil>;
                 rank1 = (if rank < 1 then 1 else rank);
                 rank2 = (if rank1 > n then n else rank1)
             in xs ! nat (rank2 - 1))"

text \<open>The percentages that the tool asks for are below their decimal value in binary, by less than a unit in the last place.\<close>

lemma float64_percent:
  assumes "p \<in> {50, 95, 99}"
  shows "float64 (of_int p / 100) \<le> of_int p / 100" "of_int p / 100 - 1 / 2 ^ 53 \<le> float64 (of_int p / 100)" "0 < float64 (of_int p / 100)"
proof -
  have "float64 (50 / 100) \<le> 50 / 100" "float64 (95 / 100) \<le> 95 / 100" "float64 (99 / 100) \<le> 99 / 100" by code_simp+
  then show "float64 (of_int p / 100) \<le> of_int p / 100" using assms by auto
  have p: "0 < (of_int p :: rat) / 100" "(of_int p :: rat) / 100 \<le> 1" "1 / 2 \<le> (of_int p :: rat) / 100" using assms by auto
  have "(of_int p / 100) / 2 ^ 53 \<le> (1 :: rat) / 2 ^ 53" using p(2) by (intro divide_right_mono) auto
  then have "of_int p / 100 - float64 (of_int p / 100) \<le> 1 / 2 ^ 53"
    using float64_error [OF p(1)] by linarith
  then show "of_int p / 100 - 1 / 2 ^ 53 \<le> float64 (of_int p / 100)" by linarith
  moreover have "(0::rat) < 1 / 2 - 1 / 2 ^ 53" by simp
  ultimately show "0 < float64 (of_int p / 100)" using p(3) by linarith
qed

text \<open>The rank that the floating-point computation gives is the exact one, for lists of less than \<open>2 ^ 44\<close> entries.\<close>

lemma rank_exact:
  assumes p: "p \<in> {50, 95, 99}" and n: "0 < n" "n < 2 ^ 44"
  shows "\<lceil>float64 (float64 (of_int p / 100) * float64 (of_int n))\<rceil> = \<lceil>of_int (p * n) / (100 :: rat)\<rceil>"
proof -
  let ?f = "float64 (of_int p / 100)"
  define k where "k = \<lceil>of_int (p * n) / (100 :: rat)\<rceil>"
  let ?x = "?f * of_int n"
  have f: "?f \<le> of_int p / 100" "of_int p / 100 - 1 / 2 ^ 53 \<le> ?f" "0 < ?f" using float64_percent [OF p] .
  have nf: "float64 (of_int n) = of_int n" using n by (intro float64_int) auto
  have nr: "(0 :: rat) < of_int n" "(of_int n :: rat) < 2 ^ 44"
    using n by simp (metis n(2) of_int_less_iff of_int_numeral of_int_power)
  have x: "0 < ?x" using f(3) nr by simp
  have x1: "?x \<le> of_int (p * n) / 100" using mult_right_mono [OF f(1), of "of_int n"] nr by simp
  have x2: "of_int (p * n) / 100 - of_int n / 2 ^ 53 \<le> ?x"
    using mult_right_mono [OF f(2), of "of_int n"] nr by (simp add: algebra_simps)
  have "of_int (k - 1) < of_int (p * n) / (100 :: rat)" "of_int (p * n) / (100 :: rat) \<le> of_int k"
    using ceiling_correct [of "of_int (p * n) / (100 :: rat)"] by (simp_all add: k_def)
  then have "of_int (100 * (k - 1)) < (of_int (p * n) :: rat)" and kr: "(of_int (p * n) :: rat) \<le> of_int (100 * k)" by simp_all
  then have k: "100 * (k - 1) < p * n" "p * n \<le> 100 * k" by (simp_all only: of_int_less_iff of_int_le_iff)
  have "k < 2 ^ 53" using k(1) p n by auto
  then have up: "float64 ?x \<le> of_int k" using float64_le_int [OF x, of k] x1 kr by simp
  have "100 * (k - 1) + 1 \<le> p * n" using k(1) by linarith
  then have "(of_int (100 * (k - 1) + 1) :: rat) \<le> of_int (p * n)" by (simp only: of_int_le_iff)
  then have "of_int (k - 1) + 1 / 100 \<le> (of_int (p * n) :: rat) / 100" by simp
  moreover have "?x / 2 ^ 53 \<le> of_int n / 2 ^ 53"
  proof -
    have "?f \<le> 1" using f(1) p by auto
    then have "?x \<le> of_int n" using nr by (intro mult_left_le_one_le) (use f(3) in auto)
    then show ?thesis by (intro divide_right_mono) auto
  qed
  moreover have "(of_int n :: rat) / 2 ^ 53 < 1 / 200"
  proof -
    have "(of_int n :: rat) / 2 ^ 53 < 2 ^ 44 / 2 ^ 53" using nr by (intro divide_strict_right_mono) auto
    then show ?thesis by simp
  qed
  ultimately have "of_int (k - 1) < float64 ?x" using float64_error [OF x] x2 by linarith
  then show ?thesis using up nf unfolding k_def [symmetric] by (simp add: ceiling_eq_iff)
qed

lemma sorted_counts:
  fixes xs :: "'a :: linorder list"
  assumes "sorted xs" "k < length xs"
  shows "Suc k \<le> length (filter (\<lambda>x. x \<le> xs ! k) xs)" "w < xs ! k \<Longrightarrow> length (filter (\<lambda>x. x \<le> w) xs) \<le> k"
proof -
  have s: "xs = take (Suc k) xs @ drop (Suc k) xs" by simp
  have "x \<le> xs ! k" if "x \<in> set (take (Suc k) xs)" for x
    using that assms by (auto simp: in_set_conv_nth less_Suc_eq_le intro: sorted_nth_mono)
  then have "filter (\<lambda>x. x \<le> xs ! k) (take (Suc k) xs) = take (Suc k) xs" by (simp add: filter_id_conv)
  then show "Suc k \<le> length (filter (\<lambda>x. x \<le> xs ! k) xs)"
    using assms(2) by (subst s, subst filter_append) simp
  assume w: "w < xs ! k"
  have "\<not> x \<le> w" if x: "x \<in> set (drop k xs)" for x
  proof -
    obtain i where "i < length (drop k xs)" "drop k xs ! i = x" using x unfolding in_set_conv_nth by blast
    then have "x = xs ! (k + i)" "k + i < length xs" using assms(2) by auto
    then have "xs ! k \<le> x" using assms(1) by (auto intro: sorted_nth_mono)
    then show ?thesis using w by auto
  qed
  then have "filter (\<lambda>x. x \<le> w) (drop k xs) = []" by (simp add: filter_empty_conv)
  then have "length (filter (\<lambda>x. x \<le> w) xs) = length (filter (\<lambda>x. x \<le> w) (take k xs))"
    by (metis append.right_neutral append_take_drop_id filter_append)
  also have "\<dots> \<le> length (take k xs)" by (rule length_filter_le)
  finally show "length (filter (\<lambda>x. x \<le> w) xs) \<le> k" using assms(2) by simp
qed

lemma Percentile_rank:
  assumes "p \<in> {50, 95, 99}" "latencies \<noteq> []" "length latencies < 2 ^ 44"
  shows "\<exists>k. Percentile latencies (of_int p) = sort latencies ! k \<and> k < length latencies \<and>
    100 * int k < p * int (length latencies) \<and> p * int (length latencies) \<le> 100 * int (Suc k)"
proof -
  let ?n = "int (length latencies)" and ?k = "\<lceil>of_int (p * int (length latencies)) / (100 :: rat)\<rceil>"
  have n: "0 < ?n" "?n < 2 ^ 44" using assms(2,3) by auto
  have b: "of_int (?k - 1) < of_int (p * ?n) / (100 :: rat)" "of_int (p * ?n) / (100 :: rat) \<le> of_int ?k"
    using ceiling_correct [of "of_int (p * ?n) / (100 :: rat)"] by simp_all
  have "(of_int (100 * (?k - 1)) :: rat) < of_int (p * ?n)" using b(1) by simp
  then have k1: "100 * (?k - 1) < p * ?n" by (simp only: of_int_less_iff)
  have "(of_int (p * ?n) :: rat) \<le> of_int (100 * ?k)" using mult_right_mono [OF b(2), of 100] by simp
  then have k2: "p * ?n \<le> 100 * ?k" by (simp only: of_int_le_iff)
  have "0 < p" "p < 100" using assms(1) by auto
  then have r: "1 \<le> ?k" "?k \<le> ?n"
    using k1 k2 n mult_strict_right_mono [of p 100 ?n] mult_pos_pos [of p ?n] by linarith+
  have "Percentile latencies (of_int p) = sort latencies ! nat (?k - 1)"
    using rank_exact [OF assms(1) n] r assms(1,2) by (auto simp: Percentile_def Let_def)
  moreover obtain m where "?k = int m + 1" "nat (?k - 1) = m" using nonneg_int_cases [of "?k - 1"] r(1)
    by (metis diff_ge_0_iff_ge diff_eq_eq nat_int)
  ultimately show ?thesis using k1 k2 r(2) by (intro exI [of _ m]) auto
qed

section \<open>Failures at a given rate\<close>

text \<open>
  The executor of the worker pool: encoding its payload cannot fail, and the hashes are thrown away, so that only the context decides.
\<close>

record realistic_executor =
  payloadSize :: int
  iterations :: int

definition NewRealisticWorkloadExecutor :: "int \<Rightarrow> int \<Rightarrow> realistic_executor" where
  "NewRealisticWorkloadExecutor bytes rounds =
     \<lparr>payloadSize = (if bytes \<le> 0 then 1024 else bytes), iterations = (if rounds \<le> 0 then 10 else rounds)\<rparr>"

definition Realistic_Execute :: "error option \<Rightarrow> realistic_executor \<Rightarrow> job \<Rightarrow> error option" where
  "Realistic_Execute ctxErr e j = (case ctxErr of Some err \<Rightarrow> Some err | None \<Rightarrow> None)"

record fault_executor =
  failureRate :: rat
  callCount :: int

definition NewFaultInjectingExecutor :: "rat \<Rightarrow> fault_executor" where
  "NewFaultInjectingExecutor r = \<lparr>failureRate = r, callCount = 0\<rparr>"

text \<open>Go's remainder has the sign of the dividend.\<close>

definition go_rem :: "int \<Rightarrow> int \<Rightarrow> int" where
  "go_rem a b = sgn a * (\<bar>a\<bar> mod \<bar>b\<bar>)"

definition FaultInjecting_Execute :: "bool \<Rightarrow> job \<Rightarrow> fault_executor \<Rightarrow> error option \<times> fault_executor" where
  "FaultInjecting_Execute cancelled j e =
     (if cancelled then (Some ECanceled, e)
      else
        let count = wrap64 (callCount e + 1); e1 = e\<lparr>callCount := count\<rparr>
        in if float64 (float64 (of_int (go_rem count 100)) / 100) < failureRate e
           then (Some (EText (''transient upstream dependency failure (attempt '' @ Itoa (RetryCount j) @ '')'')), e1)
           else (None, e1))"

text \<open>The failures among a sequence of calls that are not cancelled.\<close>

fun failures :: "job list \<Rightarrow> fault_executor \<Rightarrow> nat" where
  "failures [] e = 0"
| "failures (j # js) e =
     (let (r, e1) = FaultInjecting_Execute False j e in (if r = None then 0 else 1) + failures js e1)"

lemma float64_hundredths:
  assumes "0 \<le> a" "a \<le> 100" "0 \<le> b" "b \<le> 100"
  shows "float64 (of_int a / 100) < float64 (of_int b / 100) \<longleftrightarrow> a < b"
proof -
  have mono: "float64 (of_int x / 100) < float64 (of_int y / 100)" if "0 \<le> x" "x < y" "y \<le> 100" for x y
  proof -
    have y: "(0 :: rat) < of_int y / 100" "(of_int y :: rat) / 100 \<le> 1" using that by auto
    have "of_int y / 100 - (of_int y / 100) / 2 ^ 53 \<le> float64 (of_int y / 100)" using float64_error [OF y(1)] by linarith
    moreover have "(of_int y / 100) / 2 ^ 53 \<le> (1 :: rat) / 2 ^ 53" using y(2) by (intro divide_right_mono) auto
    moreover have "float64 (of_int x / 100) \<le> of_int x / 100 + 1 / 2 ^ 53"
    proof (cases "x = 0")
      case True
      then show ?thesis by (simp add: float64_def)
    next
      case False
      then have x: "(0 :: rat) < of_int x / 100" "(of_int x :: rat) / 100 \<le> 1" using that by auto
      have "(of_int x / 100) / 2 ^ 53 \<le> (1 :: rat) / 2 ^ 53" using x(2) by (intro divide_right_mono) auto
      then show ?thesis using float64_error [OF x(1)] by linarith
    qed
    moreover have "of_int (x + 1) / 100 \<le> (of_int y :: rat) / 100" using that by (intro divide_right_mono) auto
    moreover have "(2 :: rat) / 2 ^ 53 < 1 / 100" by simp
    ultimately show ?thesis by (simp add: add_divide_distrib)
  qed
  show ?thesis using mono [of a b] mono [of b a] assms by (cases a b rule: linorder_cases) auto
qed

lemma window_residues:
  assumes "0 \<le> k" "k \<le> 100"
  shows "length (filter (\<lambda>x. x mod 100 < k) [int c + 1..int c + 100]) = nat k"
proof (induction c)
  case 0
  have "filter (\<lambda>x. x mod 100 < k) [1..100] = filter (\<lambda>x. x < k) [1..99] @ filter (\<lambda>x. 0 < k) [100]"
  proof -
    have "[1..100] = [1..99] @ [100 :: int]" by (simp add: upto_rec2)
    moreover have "filter (\<lambda>x. x mod 100 < k) [1..99] = filter (\<lambda>x. x < k) [1..99]" by (rule filter_cong) auto
    ultimately show ?thesis by simp
  qed
  moreover have "filter (\<lambda>x. x < k) [1..99] = [1..k - 1]"
  proof (cases "1 \<le> k \<and> k \<le> 99")
    case True
    then have "[1..99] = [1..k - 1] @ [k..99]" by (intro upto_split1) auto
    then show ?thesis by (auto simp: filter_id_conv filter_empty_conv)
  next
    case False
    then have "k = 0 \<or> k = 100" using assms by auto
    then show ?thesis by (auto simp: filter_id_conv filter_empty_conv)
  qed
  moreover have "0 < k \<Longrightarrow> Suc (nat (k - 1)) = nat k" by arith
  ultimately show ?case using assms by simp
next
  case (Suc c)
  have l: "[int c + 1..int c + 100] = (int c + 1) # [int c + 2..int c + 100]" by (simp add: upto_rec1)
  have r: "[int (Suc c) + 1..int (Suc c) + 100] = [int c + 2..int c + 100] @ [int c + 101]"
    using upto_rec2 [of "int c + 2" "int c + 101"] by (simp add: add.commute)
  have "(int c + 101) mod 100 = (int c + 1) mod 100" using mod_add_self2 [of "int c + 1" 100] by (simp only: add.assoc) simp
  then show ?case using Suc.IH unfolding l r by (simp split: if_splits)
qed

lemma failures_window:
  assumes "0 \<le> callCount e" "callCount e + int (length js) < 2 ^ 63" "failureRate e = float64 (of_int k / 100)" "0 \<le> k" "k \<le> 100"
  shows "failures js e = length (filter (\<lambda>x. x mod 100 < k) [callCount e + 1..callCount e + int (length js)])"
  using assms
proof (induction js arbitrary: e)
  case (Cons j js)
  let ?c = "callCount e + 1"
  let ?e = "e\<lparr>callCount := ?c\<rparr>"
  have w: "wrap64 ?c = ?c" using Cons.prems(1,2) by (intro wrap64_id) (simp add: in_int64_def)
  have g: "go_rem ?c 100 = ?c mod 100" using Cons.prems(1) by (simp add: go_rem_def)
  have "float64 (of_int (?c mod 100)) = of_int (?c mod 100)" by (rule float64_int) auto
  moreover have "float64 (of_int (?c mod 100) / 100) < float64 (of_int k / 100) \<longleftrightarrow> ?c mod 100 < k"
    using Cons.prems(4,5) by (intro float64_hundredths) auto
  ultimately have "failures (j # js) e = (if ?c mod 100 < k then 1 else 0) + failures js ?e"
    using w g Cons.prems(3) by (simp add: FaultInjecting_Execute_def Let_def)
  moreover have "failures js ?e = length (filter (\<lambda>x. x mod 100 < k) [?c + 1..?c + int (length js)])"
    using Cons.IH [of ?e] Cons.prems by simp
  ultimately show ?case using upto_rec1 [of ?c "callCount e + int (length (j # js))"] by (simp add: add.assoc)
qed simp

section \<open>The recovery benchmark\<close>

record recovery_result =
  rrJobCount :: int
  rrStorageType :: string
  rrSaveDuration :: duration
  rrRecoveryDuration :: duration
  rrJobsPerSecond :: "rat option"

text \<open>\<open>Duration.Seconds\<close>, and a quotient of floats: \<open>None\<close> stands for an infinity or NaN.\<close>

definition Seconds :: "duration \<Rightarrow> rat" where
  "Seconds d =
     (let sec = sgn d * (\<bar>d\<bar> div Second); nsec = go_rem d Second
      in float64 (float64 (of_int sec) + float64 (float64 (of_int nsec) / 1000000000)))"

definition float_div :: "rat \<Rightarrow> rat \<Rightarrow> rat option" where
  "float_div a b = (if b = 0 then None else Some (float64 (a / b)))"

definition seed_job :: "int \<Rightarrow> job" where
  "seed_job i = (NewJob i ''email'' (go_rem i 10))\<lparr>Status := Pending\<rparr>"

fun seed_jobs :: "'db bolt_ops \<Rightarrow> int list \<Rightarrow> 'db \<Rightarrow> error option \<times> 'db" where
  "seed_jobs bk [] st = (None, st)"
| "seed_jobs bk (i # is) st =
     (case bolt_Add bk (seed_job i) st of
        (Some err, st1) \<Rightarrow> (Some (EWrap (''seed job '' @ Itoa i) err), st1)
      | (None, st1) \<Rightarrow> seed_jobs bk is st1)"

text \<open>
  The result comes with the rebuilt queue and the database file. The four clock readings are those around the seeding and around the
  recovery.
\<close>

definition RunRecoveryBenchmark ::
  "'db bolt_ops \<Rightarrow> 'db bolt_file_ops \<Rightarrow> int \<Rightarrow> string \<Rightarrow> string \<Rightarrow> time \<times> time \<times> time \<times> time \<Rightarrow> 'db
   \<Rightarrow> (error + recovery_result \<times> job_queue) \<times> 'db" where
  "RunRecoveryBenchmark bk bf numJobs storageType dbPath clock file =
     (let (saveStart, saveEnd, recoveryStart, recoveryEnd) = clock
      in case NewBoltStore bk bf dbPath file of
           (Some err, f) \<Rightarrow> (Inl (EWrap ''create store'' err), f)
         | (None, st) \<Rightarrow>
         (case seed_jobs bk [1..numJobs] st of
           (Some err, st1) \<Rightarrow> (Inl err, st1)
         | (None, st1) \<Rightarrow>
         (case NewBoltStore bk bf dbPath (snd (bolt_Close bf st1)) of
           (Some err, f) \<Rightarrow> (Inl (EWrap ''reopen store'' err), f)
         | (None, newStore) \<Rightarrow>
             let cmp = PriorityComparator (bolt_Get bk newStore); closed = snd (bolt_Close bf newStore)
             in case bolt_ListByStatus bk Pending newStore of
                  Inl err \<Rightarrow> (Inl (EWrap ''list pending jobs'' err), closed)
                | Inr pendingJobs \<Rightarrow>
                    let pq = fold (\<lambda>j. Enqueue cmp (ID j)) pendingJobs (NewJobQueue cmp);
                        recoveryDuration = time_Sub recoveryEnd recoveryStart
                    in if int (length pendingJobs) \<noteq> numJobs
                       then (Inl (EText (''expected '' @ Itoa numJobs @ '' recovered jobs, got '' @ Itoa (int (length pendingJobs)))), closed)
                       else (Inr (\<lparr>rrJobCount = numJobs, rrStorageType = storageType,
                                   rrSaveDuration = time_Sub saveEnd saveStart, rrRecoveryDuration = recoveryDuration,
                                   rrJobsPerSecond = float_div (float64 (of_int numJobs)) (Seconds recoveryDuration)\<rparr>, pq), closed))))"

context bolt_db
begin

lemma seed_jobs_effect:
  assumes "bolt_inv bk st" "seed_jobs bk is st = (None, st')" "distinct is" "\<forall>i \<in> set is. in_int64 i \<and> aJobs (bolt_abs bk st) i = None"
  shows "bolt_inv bk st'" "aJobs (bolt_abs bk st') = (\<lambda>i. if i \<in> set is then Some (seed_job i) else aJobs (bolt_abs bk st) i)"
proof -
  have "bolt_inv bk st' \<and> aJobs (bolt_abs bk st') = (\<lambda>i. if i \<in> set is then Some (seed_job i) else aJobs (bolt_abs bk st) i)"
    using assms
  proof (induction "is" arbitrary: st)
    case (Cons i "is")
    obtain st1 where a: "bolt_Add bk (seed_job i) st = (None, st1)" and s: "seed_jobs bk is st1 = (None, st')"
      using Cons.prems(2) by (auto split: prod.splits option.splits)
    have "aFresh (seed_job i) (bolt_abs bk st)" using Cons.prems(4) by (simp add: aFresh_def seed_job_def)
    then have 1: "bolt_inv bk st1" "bolt_abs bk st1 = aPut (seed_job i) (bolt_abs bk st)"
      using bs.Add_ok [OF Cons.prems(1)] a by auto
    have "ID (seed_job i) = i" by (simp add: seed_job_def)
    then have j: "aJobs (bolt_abs bk st1) = (aJobs (bolt_abs bk st))(i \<mapsto> seed_job i)" using 1(2) by (simp add: aPut_def)
    have "\<forall>x \<in> set is. in_int64 x \<and> aJobs (bolt_abs bk st1) x = None" using Cons.prems(3,4) j by auto
    then show ?case using Cons.IH [OF 1(1) s] Cons.prems(3) j by auto
  qed simp
  then show "bolt_inv bk st'" "aJobs (bolt_abs bk st') = (\<lambda>i. if i \<in> set is then Some (seed_job i) else aJobs (bolt_abs bk st) i)"
    by auto
qed

end

lemma seed_jobs_error:
  "seed_jobs bk is st = (Some err, st1) \<Longrightarrow> \<exists>e i. i \<in> set is \<and> err = EWrap (''seed job '' @ Itoa i) e"
proof (induction "is" arbitrary: st)
  case (Cons i "is")
  then show ?case by (cases "bolt_Add bk (seed_job i) st") (fastforce split: option.splits)
qed simp

context bolt_file
begin

lemma recovered_jobs:
  assumes "content_inv (bk_get bk file)" "\<And>i. aJobs (content_abs (bk_get bk file)) i = None" "n < 2 ^ 63"
    "NewBoltStore bk bf path file = (None, st)" "seed_jobs bk [1..n] st = (None, st1)"
    "NewBoltStore bk bf path (snd (bolt_Close bf st1)) = (None, st2)"
  shows "\<exists>js. bolt_ListByStatus bk Pending st2 = Inr js \<and> mset (map ID js) = mset [1..n]"
proof -
  note o = NewBoltStore_inv [OF assms(4,1)]
  have "\<forall>i \<in> set [1..n]. in_int64 i \<and> aJobs (bolt_abs bk st) i = None" using assms(2,3) o(2) by (auto simp: in_int64_def)
  note s = seed_jobs_effect [OF o(1) assms(5) distinct_upto this]
  obtain r f where c: "bolt_Close bf st1 = (r, f)" by fastforce
  have r: "bolt_inv bk st2" "bolt_abs bk st2 = bolt_abs bk st1" using reopen [OF s(1) c] assms(6) c by simp_all
  obtain js where js: "bolt_ListByStatus bk Pending st2 = Inr js" "distinct (map ID js)"
      "set js = {j \<in> ran (aJobs (bolt_abs bk st2)). Status j = Pending}"
    using ListByStatus_content [OF r(1), of Pending] by (auto simp: bolt_abs_def content_abs_def named_def)
  have "set js = seed_job ` set [1..n]"
    unfolding js(3) r(2) s(2) using assms(2) o(2) by (auto simp: ran_def seed_job_def split: if_splits)
  then have "set (map ID js) = set [1..n]" by (auto simp: seed_job_def image_iff)
  then have "mset (map ID js) = mset [1..n]" using js(2) by (simp only: set_eq_iff_mset_eq_distinct distinct_upto)
  then show ?thesis using js(1) by blast
qed

end

section \<open>The worker pool benchmark\<close>

record benchmark_result =
  brNumJobs :: int
  brNumWorkers :: int
  brTotalDuration :: duration
  brThroughput :: rat
  brP50Latency :: duration
  brP95Latency :: duration
  brP99Latency :: duration
  brSuccessCount :: nat
  brFailureCount :: nat

text \<open>The engine of the benchmark with its workers, started; then the submissions, at the times of the list.\<close>

definition pool_engine :: "(string \<Rightarrow> string) \<Rightarrow> time \<Rightarrow> int \<Rightarrow> int \<Rightarrow> memory_store engine" where
  "pool_engine env now numJobs numWorkers =
     (let cfg = (config_Default env)\<lparr>RaftEnabled := False, StorageType := ''memory'', WorkerCount := 0,
            ResultBuffer := nat (numJobs + 100), HeartbeatTimeout := Hour\<rparr>;
          e = engine_New now cfg NewMemoryStore;
          s = fold (\<lambda>i s. s\<lparr>Manager := Register now (Client i 0) (''localhost:bench-'' @ Itoa i) [''compute''] (Manager s)\<rparr>)
                [1..numWorkers] (eScheduler e)
      in engine_Start memory_ops None [] [] (e\<lparr>eScheduler := s\<rparr>))"

fun pool_submit :: "time list \<Rightarrow> memory_store engine \<Rightarrow> (int, time) gomap \<Rightarrow> error + memory_store engine \<times> (int, time) gomap" where
  "pool_submit [] e submitTimes = Inr (e, submitTimes)"
| "pool_submit (now # ts) e submitTimes =
     (case SubmitJob memory_ops None ''compute'' 1 e of
        (Inl err, _) \<Rightarrow> Inl err
      | (Inr j, e1) \<Rightarrow> pool_submit ts e1 (mput (ID j) now submitTimes))"

text \<open>
  Waiting for the jobs. A round has the time at which the deadline is checked and the listed jobs, each with the time at which it is
  looked at. \<open>None\<close> is a loop that still waits after the given rounds.
\<close>

record poll =
  seenTerminal :: "(int, unit) gomap"
  pollLatencies :: "duration list"
  successCount :: nat
  failureCount :: nat

definition no_poll :: poll where
  "no_poll = \<lparr>seenTerminal = [], pollLatencies = [], successCount = 0, failureCount = 0\<rparr>"

definition poll_job :: "(int, time) gomap \<Rightarrow> time \<times> job \<Rightarrow> poll \<Rightarrow> poll" where
  "poll_job submitTimes tj p =
     (let (now, j) = tj
      in if map_of (seenTerminal p) (ID j) \<noteq> None then p
         else if Status j = Completed \<or> Status j = Failed then
           p\<lparr>seenTerminal := mput (ID j) () (seenTerminal p),
             pollLatencies := pollLatencies p @ [time_Sub now (case map_of submitTimes (ID j) of None \<Rightarrow> 0 | Some t \<Rightarrow> t)],
             successCount := (if Status j = Completed then Suc (successCount p) else successCount p),
             failureCount := (if Status j = Completed then failureCount p else Suc (failureCount p))\<rparr>
         else p)"

fun poll_loop :: "int \<Rightarrow> time \<Rightarrow> (int, time) gomap \<Rightarrow> (time \<times> (time \<times> job) list) list \<Rightarrow> poll \<Rightarrow> (error + poll) option" where
  "poll_loop numJobs deadline submitTimes rounds p =
     (if \<not> int (length (seenTerminal p)) < numJobs then Some (Inr p)
      else (case rounds of
        [] \<Rightarrow> None
      | (now, js) # rs \<Rightarrow>
          if now > deadline
          then Some (Inl (EText (''timeout: terminal='' @ Itoa (int (length (seenTerminal p))) @ ''/'' @ Itoa numJobs)))
          else poll_loop numJobs deadline submitTimes rs (fold (poll_job submitTimes) js p)))"

declare poll_loop.simps [simp del]

text \<open>The result; the total duration is taken to be positive.\<close>

definition pool_result :: "int \<Rightarrow> int \<Rightarrow> duration \<Rightarrow> poll \<Rightarrow> benchmark_result" where
  "pool_result numJobs numWorkers totalDuration p =
     \<lparr>brNumJobs = numJobs, brNumWorkers = numWorkers, brTotalDuration = totalDuration,
      brThroughput = float64 (float64 (of_nat (successCount p)) / Seconds totalDuration),
      brP50Latency = Percentile (pollLatencies p) 50, brP95Latency = Percentile (pollLatencies p) 95,
      brP99Latency = Percentile (pollLatencies p) 99, brSuccessCount = successCount p, brFailureCount = failureCount p\<rparr>"

record scalability_result =
  srWorkerCount :: int
  srThroughput :: rat
  srP50Latency :: duration
  srP95Latency :: duration
  srP99Latency :: duration
  srSpeedup :: rat

text \<open>\<open>RunScalabilityBenchmark\<close>, with the outcome of a pool of each size as an argument.\<close>

fun scalability_loop :: "(int \<Rightarrow> error + benchmark_result) \<Rightarrow> int list \<Rightarrow> rat \<Rightarrow> error + scalability_result list" where
  "scalability_loop run [] baseThroughput = Inr []"
| "scalability_loop run (numWorkers # counts) baseThroughput =
     (case run numWorkers of
        Inl err \<Rightarrow> Inl err
      | Inr res \<Rightarrow>
          let base = (if baseThroughput = 0 then brThroughput res else baseThroughput);
              speedup = (if base > 0 then float64 (brThroughput res / base) else 1);
              r = \<lparr>srWorkerCount = numWorkers, srThroughput = brThroughput res, srP50Latency = brP50Latency res,
                   srP95Latency = brP95Latency res, srP99Latency = brP99Latency res, srSpeedup = speedup\<rparr>
          in (case scalability_loop run counts base of Inl err \<Rightarrow> Inl err | Inr rs \<Rightarrow> Inr (r # rs)))"

definition RunScalabilityBenchmark :: "(int \<Rightarrow> error + benchmark_result) \<Rightarrow> int list \<Rightarrow> error + scalability_result list" where
  "RunScalabilityBenchmark run workerCounts = scalability_loop run workerCounts 0"

lemma first_speedup_is_one:
  "RunScalabilityBenchmark run (n # ns) = Inr (r # rs) \<Longrightarrow> srSpeedup r = 1"
  by (auto simp: RunScalabilityBenchmark_def Let_def split: sum.splits)

section \<open>The election benchmark\<close>

record failover_result =
  frClusterSize :: int
  frOriginalLeader :: string
  frNewLeader :: string
  frElectionDuration :: duration

text \<open>
  A temporary directory, a free port, one node, and the wait for its first notification or the end of three seconds (\<open>notified\<close>).
\<close>

definition RunRaftFailoverBenchmark ::
  "error + string \<Rightarrow> error + string \<Rightarrow> 's raft_setup \<Rightarrow> bool \<Rightarrow> time \<times> time \<Rightarrow> error + failover_result" where
  "RunRaftFailoverBenchmark tempDir port rs notified clock =
     (case tempDir of
        Inl err \<Rightarrow> Inl err
      | Inr dir \<Rightarrow>
     (case port of
        Inl err \<Rightarrow> Inl err
      | Inr addr \<Rightarrow>
     (case NewRaftNode rs ''node1'' addr (dir @ ''/raft'') of
        Inl err \<Rightarrow> Inl (EWrap ''create raft node'' err)
      | Inr (rn, _) \<Rightarrow>
          if \<not> notified \<and> \<not> IsLeader rn then Inl (EText ''timed out waiting for leader election'')
          else Inr \<lparr>frClusterSize = 1, frOriginalLeader = ''none'', frNewLeader = ''node1'',
                    frElectionDuration = time_Sub (snd clock) (fst clock)\<rparr>)))"

section \<open>Every job is counted once\<close>

definition poll_ok :: "int set \<Rightarrow> poll \<Rightarrow> bool" where
  "poll_ok X p \<longleftrightarrow> wf_map (seenTerminal p) \<and> fst ` set (seenTerminal p) \<subseteq> X \<and>
     length (pollLatencies p) = length (seenTerminal p) \<and> successCount p + failureCount p = length (seenTerminal p)"

abbreviation ended_ids :: "(time \<times> job) list \<Rightarrow> int set" where
  "ended_ids js \<equiv> {ID j |t j. (t, j) \<in> set js \<and> (Status j = Completed \<or> Status j = Failed)}"

lemma poll_job_ok:
  assumes "poll_ok X p" "ID (snd tj) \<in> X"
  shows "poll_ok X (poll_job m tj p)"
    and "fst ` set (seenTerminal (poll_job m tj p)) =
      fst ` set (seenTerminal p) \<union> (if Status (snd tj) = Completed \<or> Status (snd tj) = Failed then {ID (snd tj)} else {})"
proof -
  let ?m = "seenTerminal p" and ?i = "ID (snd tj)"
  have k: "map_of ?m ?i \<noteq> None \<longleftrightarrow> ?i \<in> fst ` set ?m" by (metis map_of_eq_None_iff)
  have l: "?i \<notin> fst ` set ?m \<Longrightarrow> length (mput ?i () ?m) = Suc (length ?m)" using arg_cong [OF update_keys [of ?i "()" ?m], of length] by simp
  show "poll_ok X (poll_job m tj p)"
    using assms k l by (cases tj) (auto simp: poll_job_def poll_ok_def dom_update)
  show "fst ` set (seenTerminal (poll_job m tj p)) =
      fst ` set ?m \<union> (if Status (snd tj) = Completed \<or> Status (snd tj) = Failed then {?i} else {})"
    using k by (cases tj) (auto simp: poll_job_def dom_update)
qed

lemma poll_round_ok:
  assumes "poll_ok X p" "\<forall>(t, j) \<in> set js. ID j \<in> X"
  shows "poll_ok X (fold (poll_job m) js p) \<and>
    fst ` set (seenTerminal (fold (poll_job m) js p)) = fst ` set (seenTerminal p) \<union> ended_ids js"
  using assms
proof (induction js arbitrary: p)
  case (Cons tj js)
  obtain t j where tj: "tj = (t, j)" by fastforce
  have "ended_ids (tj # js) = (if Status j = Completed \<or> Status j = Failed then {ID j} else {}) \<union> ended_ids js"
    by (auto simp: tj)
  then show ?case
    using Cons.IH [of "poll_job m tj p"] poll_job_ok [of X p tj m] Cons.prems by (simp add: tj Un_assoc)
qed auto

lemma poll_ok_length: "poll_ok X p \<Longrightarrow> length (seenTerminal p) = card (fst ` set (seenTerminal p))"
  by (metis distinct_card length_map list.set_map poll_ok_def wf_map_def)

lemma poll_loop_returns:
  assumes "finite X" "poll_ok X p" "\<forall>(now, js) \<in> set rounds. now \<le> deadline \<and> (\<forall>(t, j) \<in> set js. ID j \<in> X)"
    "X \<subseteq> fst ` set (seenTerminal p) \<or> (\<exists>(now, js) \<in> set rounds. X \<subseteq> ended_ids js)"
  shows "\<exists>p'. poll_loop (int (card X)) deadline m rounds p = Some (Inr p') \<and> poll_ok X p' \<and> fst ` set (seenTerminal p') = X"
  using assms(2-)
proof (induction rounds arbitrary: p)
  case Nil
  then have "fst ` set (seenTerminal p) = X" by (auto simp: poll_ok_def)
  then show ?case using Nil poll_ok_length [of X p] by (simp add: poll_loop.simps)
next
  case (Cons r rounds)
  obtain now js where r: "r = (now, js)" by fastforce
  show ?case
  proof (cases "length (seenTerminal p) < card X")
    case False
    then have "fst ` set (seenTerminal p) = X"
      using Cons.prems(1) poll_ok_length [OF Cons.prems(1)] card_seteq [OF assms(1)] by (auto simp: poll_ok_def)
    then show ?thesis using Cons.prems(1) False by (simp add: poll_loop.simps)
  next
    case True
    then have s: "poll_loop (int (card X)) deadline m (r # rounds) p = poll_loop (int (card X)) deadline m rounds (fold (poll_job m) js p)"
      using Cons.prems(2) by (simp add: r poll_loop.simps [of _ _ _ "_ # _"])
    have "\<not> X \<subseteq> fst ` set (seenTerminal p)"
      using True poll_ok_length [OF Cons.prems(1)] card_mono [of "fst ` set (seenTerminal p)" X] by auto
    moreover have "poll_ok X (fold (poll_job m) js p) \<and>
        fst ` set (seenTerminal (fold (poll_job m) js p)) = fst ` set (seenTerminal p) \<union> ended_ids js"
      using poll_round_ok [OF Cons.prems(1)] Cons.prems(2) by (auto simp: r)
    ultimately show ?thesis unfolding s using Cons.prems(2,3) by (intro Cons.IH) (auto simp: r)
  qed
qed

lemma pool_engine_ok: "engine_ok memory_ops mem_inv (pool_engine env now numJobs numWorkers)" "nextJobID (pool_engine env now numJobs numWorkers) = 0"
proof -
  let ?cfg = "(config_Default env)\<lparr>RaftEnabled := False, StorageType := ''memory'', WorkerCount := 0,
      ResultBuffer := nat (numJobs + 100), HeartbeatTimeout := Hour\<rparr>"
  let ?e = "engine_New now ?cfg NewMemoryStore"
  let ?s = "fold (\<lambda>i s. s\<lparr>Manager := Register now (Client i 0) (''localhost:bench-'' @ Itoa i) [''compute''] (Manager s)\<rparr>)
      [1..numWorkers] (eScheduler ?e)"
  have st: "sStore ?s = NewMemoryStore" "Leases ?s = Leases (eScheduler ?e)" by (simp_all add: engine_New_parts)
  then have i: "mem_inv (sStore ?s)" by simp
  obtain s' where s': "RebuildQueuesFromStore memory_ops [] [] ?s = (None, s')" using memq.Rebuild_succeeds [OF i] by blast
  have e: "pool_engine env now numJobs numWorkers = ?e\<lparr>eScheduler := s'\<rparr>"
    using s' by (simp add: pool_engine_def Let_def engine_Start_def)
  have "mem_Get NewMemoryStore k = None" for k by (simp add: mem_Get_def NewMemoryStore_def)
  moreover have "nextJobID ?e = 0" by (simp add: engine_New_def Let_def)
  moreover have "lease_inv (Leases s')" using memq.Rebuild_counts(4) [OF i s'] st(2) engine_New_parts(4) [of now ?cfg NewMemoryStore] by simp
  ultimately show "engine_ok memory_ops mem_inv (pool_engine env now numJobs numWorkers)" "nextJobID (pool_engine env now numJobs numWorkers) = 0"
    unfolding e using memq.Rebuild_tracked [OF i s'] memq.Rebuild_counts(3) [OF i s'] st(1) by (auto simp: engine_ok_def)
qed

lemma pool_submit_ids:
  assumes "engine_ok memory_ops mem_inv e" "nextJobID e + int (length ts) < 2 ^ 63"
  shows "\<exists>e' m'. pool_submit ts e m = Inr (e', m') \<and> fst ` set m' = fst ` set m \<union> {nextJobID e + 1..nextJobID e + int (length ts)}"
  using assms
proof (induction ts arbitrary: e m)
  case (Cons t ts)
  have left: "id_left e" using Cons.prems(2) by simp
  obtain e1 where s: "SubmitJob memory_ops None ''compute'' 1 e = (Inr (NewJob (nextJobID e + 1) ''compute'' 1), e1)"
      and n: "nextJobID e1 = nextJobID e + 1" and ok: "engine_ok memory_ops mem_inv e1"
    using meng.SubmitJob_effect [OF Cons.prems(1) left, of "''compute''" 1] meng.SubmitJob_ok [OF Cons.prems(1) left, of "''compute''" 1]
    by (auto simp: Let_def with_job_def)
  obtain e' m' where "pool_submit ts e1 (mput (nextJobID e + 1) t m) = Inr (e', m')"
      "fst ` set m' = fst ` set (mput (nextJobID e + 1) t m) \<union> {nextJobID e1 + 1..nextJobID e1 + int (length ts)}"
    using Cons.IH [OF ok, of "mput (nextJobID e + 1) t m"] Cons.prems(2) n by auto
  moreover have "{nextJobID e + 1..nextJobID e + int (length (t # ts))} = insert (nextJobID e + 1) {nextJobID e1 + 1..nextJobID e1 + int (length ts)}"
    using n by auto
  ultimately show ?case using s by (simp add: dom_update)
qed simp

section \<open>Properties\<close>

text \<open>
  C36. The recovery benchmark recovers what it has stored. For every database engine with the documented laws of bbolt and every file
  without jobs, the benchmark either stops at a fault of the database (opening, storing or reopening), or it ends with a queue that holds each of the
  IDs 1 to \<open>numJobs\<close> exactly once: the listing after the restart never fails and never has another number of jobs.
\<close>

theorem recovery_benchmark_recovers_all:
  assumes "bolt_file bk bf" "content_inv (bk_get bk file)" "\<And>i. aJobs (content_abs (bk_get bk file)) i = None"
    "0 \<le> numJobs" "numJobs < 2 ^ 63" "RunRecoveryBenchmark bk bf numJobs storageType path clock file = (res, file')"
  shows "case res of
      Inr (rr, pq) \<Rightarrow> rrJobCount rr = numJobs \<and> queue_ids pq = mset [1..numJobs]
    | Inl err \<Rightarrow> \<exists>e. err = EWrap ''create store'' e \<or> err = EWrap ''reopen store'' e \<or> (\<exists>i \<in> {1..numJobs}. err = EWrap (''seed job '' @ Itoa i) e)"
proof -
  have len: "int (length js) = numJobs" if "mset (map ID js) = mset [1..numJobs]" for js
    using arg_cong [OF that, of size] assms(4) by simp
  have q: "queue_ids (fold (\<lambda>j. Enqueue cmp (ID j)) js (NewJobQueue cmp)) = mset (map ID js)" for cmp js
    using jq.ids_enq_all [of cmp "map ID js" "NewJobQueue cmp"] by (simp add: fold_map comp_def)
  show ?thesis
  proof (cases "\<exists>st st1 st2. NewBoltStore bk bf path file = (None, st) \<and> seed_jobs bk [1..numJobs] st = (None, st1) \<and>
      NewBoltStore bk bf path (snd (bolt_Close bf st1)) = (None, st2)")
    case True
    then obtain st st1 st2 where o: "NewBoltStore bk bf path file = (None, st)" "seed_jobs bk [1..numJobs] st = (None, st1)"
        "NewBoltStore bk bf path (snd (bolt_Close bf st1)) = (None, st2)" by blast
    obtain js where js: "bolt_ListByStatus bk Pending st2 = Inr js" "mset (map ID js) = mset [1..numJobs]"
      using bolt_file.recovered_jobs [OF assms(1-3,5) o] by blast
    then show ?thesis using assms(6) o len [OF js(2)] q [of _ js] by (cases clock) (auto simp: RunRecoveryBenchmark_def Let_def)
  next
    case False
    then show ?thesis
      using assms(6) by (auto simp: RunRecoveryBenchmark_def Let_def split: prod.splits option.splits dest!: seed_jobs_error)
  qed
qed

theorem recovery_benchmark_recovers_all_witness:
  "\<exists>rr pq file. RunRecoveryBenchmark mem_bolt mem_file 3 ''bolt'' ''bench.db'' (0, 5, 6, 8) [] = (Inr (rr, pq), file) \<and>
     queue_ids pq = {#1, 2, 3#}"
proof -
  have f: "content_inv (bk_get mem_bolt [])" "aJobs (content_abs (bk_get mem_bolt [])) i = None" for i
    by (simp_all add: mem_bolt_def content_abs_def job_at_def content_defs)
  obtain res f' where r: "RunRecoveryBenchmark mem_bolt mem_file 3 ''bolt'' ''bench.db'' (0, 5, 6, 8) [] = (res, f')" by fastforce
  have "fst (seed_jobs mem_bolt [1..3] []) = None" by code_simp
  then obtain st1 where s: "seed_jobs mem_bolt [1..3] [] = (None, st1)" by (metis prod.collapse)
  have "res = Inl err \<Longrightarrow> \<exists>e. err = EText e \<or> err = EWrap ''list pending jobs'' (projl (bolt_ListByStatus mem_bolt Pending st1))" for err
    using r by (auto simp: RunRecoveryBenchmark_def s Let_def split: sum.splits if_splits)
  then show ?thesis
    using recovery_benchmark_recovers_all [OF mfile.bolt_file_axioms f, of 3 "''bolt''" "''bench.db''" "(0, 5, 6, 8)" res f'] r
    by (cases res) (fastforce simp: upto_rec1)+
qed

text \<open>
  C35. The percentiles of the benchmark are those of the nearest-rank definition, in spite of the floating-point arithmetic: for the
  percentages that the tool uses and less than \<open>2 ^ 44\<close> latencies, the result is one of the latencies, at least \<open>p\<close> percent of them are not larger,
  and no smaller latency has this property.
\<close>

theorem percentile_is_nearest_rank:
  assumes "p \<in> {50, 95, 99}" "latencies \<noteq> []" "length latencies < 2 ^ 44"
  shows "let v = Percentile latencies (of_int p); n = int (length latencies)
    in v \<in> set latencies \<and> p * n \<le> 100 * int (length (filter (\<lambda>x. x \<le> v) latencies)) \<and>
       (\<forall>w. w < v \<longrightarrow> 100 * int (length (filter (\<lambda>x. x \<le> w) latencies)) < p * n)"
proof -
  obtain k where k: "Percentile latencies (of_int p) = sort latencies ! k" "k < length latencies"
      "100 * int k < p * int (length latencies)" "p * int (length latencies) \<le> 100 * int (Suc k)"
    using Percentile_rank [OF assms] by blast
  have c: "length (filter P (sort latencies)) = length (filter P latencies)" for P
    by (metis mset_filter mset_sort size_mset)
  have s: "k < length (sort latencies)" using k(2) by simp
  have "sort latencies ! k \<in> set latencies" using nth_mem [OF s] by simp
  moreover have "p * int (length latencies) \<le> 100 * int (length (filter (\<lambda>x. x \<le> sort latencies ! k) latencies))"
    using sorted_counts(1) [OF sorted_sort s] k(4) c by simp
  moreover have "100 * int (length (filter (\<lambda>x. x \<le> w) latencies)) < p * int (length latencies)" if "w < sort latencies ! k" for w
    using sorted_counts(2) [OF sorted_sort s that] k(3) c by simp
  ultimately show ?thesis using k(1) by (simp add: Let_def)
qed

theorem percentile_is_nearest_rank_witness:
  "let v = Percentile [30, 10, 20] (of_int 95) in v \<in> {10, 20, 30} \<and> 2 < length (filter (\<lambda>x. x \<le> v) [30, 10, 20])"
  using percentile_is_nearest_rank [of 95 "[30, 10, 20]"] by (simp add: Let_def del: filter.simps) linarith

text \<open>
  The executor that injects faults fails at exactly its rate: with a rate of \<open>k\<close> percent, wherever its counter stands, exactly \<open>k\<close> of any 100
  successive calls fail, although the rate and the compared quotients are rounded to binary fractions.
\<close>

theorem fault_rate_is_exact:
  assumes "0 \<le> k" "k \<le> 100" "0 \<le> c" "c + 100 < 2 ^ 63" "length js = 100"
  shows "failures js \<lparr>failureRate = float64 (of_int k / 100), callCount = c\<rparr> = nat k"
  using failures_window [of "\<lparr>failureRate = float64 (of_int k / 100), callCount = c\<rparr>" js k] window_residues [of k "nat c"] assms by simp

theorem fault_rate_is_exact_witness:
  "failures (replicate 100 (NewJob 1 ''email'' 5)) \<lparr>failureRate = float64 (of_int 25 / 100), callCount = 7\<rparr> = 25"
  using fault_rate_is_exact [of 25 7 "replicate 100 (NewJob 1 ''email'' 5)"] by simp

text \<open>
  C37. The worker pool benchmark counts every job once and ends. Its submissions all succeed and get the IDs from 1; and
  if, before the deadline, one of its looks at the engine shows all of these jobs completed or failed, then its loop ends with a latency for
  each job, and successes and failures add up to the number of jobs, however often and in whatever order the jobs were listed.
\<close>

theorem pool_benchmark_counts_every_job:
  assumes "int (length ts) < 2 ^ 63" "X = {1..int (length ts)}"
    "\<forall>(t, js) \<in> set rounds. t \<le> deadline \<and> (\<forall>(u, j) \<in> set js. ID j \<in> X)"
    "(t', js') \<in> set rounds" "\<forall>i \<in> X. \<exists>u j. (u, j) \<in> set js' \<and> ID j = i \<and> (Status j = Completed \<or> Status j = Failed)"
  shows "\<exists>e m p. pool_submit ts (pool_engine env now numJobs numWorkers) [] = Inr (e, m) \<and> fst ` set m = X \<and>
    poll_loop (int (length ts)) deadline m rounds no_poll = Some (Inr p) \<and>
    length (pollLatencies p) = length ts \<and> successCount p + failureCount p = length ts"
proof -
  have X: "finite X" "int (card X) = int (length ts)" using assms(2) by simp_all
  obtain e m where s: "pool_submit ts (pool_engine env now numJobs numWorkers) [] = Inr (e, m)" "fst ` set m = X"
    using pool_submit_ids [OF pool_engine_ok(1), of env now numJobs numWorkers ts "[]"] assms(1,2) by (auto simp: pool_engine_ok(2))
  have ok: "poll_ok X no_poll" by (simp add: poll_ok_def no_poll_def)
  have ended: "X \<subseteq> ended_ids js'" using assms(5) by force
  obtain p where p: "poll_loop (int (card X)) deadline m rounds no_poll = Some (Inr p)" "poll_ok X p" "fst ` set (seenTerminal p) = X"
    using poll_loop_returns [OF X(1) ok assms(3), of m] assms(4) ended by blast
  then show ?thesis using s X(2) poll_ok_length [OF p(2)] by (auto simp: poll_ok_def)
qed

theorem pool_benchmark_counts_every_job_witness:
  "let j1 = (NewJob 1 ''compute'' 1)\<lparr>Status := Completed\<rparr>; j2 = (NewJob 2 ''compute'' 1)\<lparr>Status := Failed\<rparr>
   in \<exists>e m p. pool_submit [0, 1] (pool_engine (\<lambda>_. []) 0 2 1) [] = Inr (e, m) \<and>
        poll_loop 2 10 m [(5, [(6, j1)]), (7, [(8, j2), (8, j1)])] no_poll = Some (Inr p) \<and>
        length (pollLatencies p) = 2 \<and> successCount p + failureCount p = 2"
proof -
  let ?j1 = "(NewJob 1 ''compute'' 1)\<lparr>Status := Completed\<rparr>" and ?j2 = "(NewJob 2 ''compute'' 1)\<lparr>Status := Failed\<rparr>"
  have "\<forall>i \<in> {1..int (length [0 :: int, 1])}. \<exists>u j. (u, j) \<in> set [(8 :: int, ?j2), (8, ?j1)] \<and> ID j = i \<and> (Status j = Completed \<or> Status j = Failed)"
  proof
    fix i :: int
    assume "i \<in> {1..int (length [0 :: int, 1])}"
    then have "i = ID ?j1 \<or> i = ID ?j2" by auto
    then show "\<exists>u j. (u, j) \<in> set [(8 :: int, ?j2), (8, ?j1)] \<and> ID j = i \<and> (Status j = Completed \<or> Status j = Failed)"
      by (elim disjE; intro exI [of _ 8]) (rule exI [of _ ?j1], simp, rule exI [of _ ?j2], simp)
  qed
  then show ?thesis
    using pool_benchmark_counts_every_job [of "[0, 1]" "{1..2}" "[(5, [(6, ?j1)]), (7, [(8, ?j2), (8, ?j1)])]" 10 7 "[(8, ?j2), (8, ?j1)]" "\<lambda>_. []" 0 2 1]
    by (auto simp: Let_def)
qed

end
