(* ===== verification/Spec2Isabelle.thy ===== *)
theory Spec2Isabelle
  imports Control_Plane Wal_Log Server Worker_Process Benchmark
begin

text \<open>
  A verification development of Quorum, a job manager in Go: a control node that stores jobs, schedules them
  and hands them to workers, and the worker processes that run them. File names below are relative to \<open>src/\<close>, and to
  \<open>src/internal/\<close> where they do not start with \<open>cmd/\<close>.

  \<^bold>\<open>The program.\<close> A client posts a job over HTTP (\<open>cmd/server/server.go\<close>, \<open>handlers\<close>, \<open>middleware\<close>, \<open>auth\<close>). The engine
  (\<open>engine/engine.go\<close>) gives it an ID, stores it (\<open>store\<close>), either directly or through a replicated log
  (\<open>consensus\<close>), and puts it into the priority queue or, if it is scheduled for later, into the delay queue (\<open>queue\<close>). The
  scheduler (\<open>scheduler/scheduler.go\<close>) runs four loops: one takes the first job of the priority queue, asks the broker
  (\<open>broker\<close>) for an available worker of the right topic, takes a lease (\<open>job/lease.go\<close>) and submits the job; one handles results,
  with retries after a growing delay (\<open>retry\<close>) and a dead-letter queue (\<open>dlq\<close>) at the end; one promotes delayed jobs; one
  requeues the jobs of workers that the worker manager (\<open>workermanager\<close>) found silent. Workers run jobs (\<open>worker\<close>,
  \<open>runner\<close>, \<open>executor\<close>) in the same process or behind an RPC interface (\<open>rpc\<close>, \<open>cmd/worker\<close>). Cron jobs (\<open>cron\<close>) submit jobs again
  and again. A broadcaster (\<open>events\<close>) streams events to browsers, and a write-ahead log with a snapshot (\<open>storage\<close>)
  is a second form of persistence. The benchmark tool (\<open>benchmark\<close>, \<open>cmd/benchmark\<close>) drives these parts.

  \<^bold>\<open>Conventions.\<close> A struct is a record, an enum a datatype, and a method takes the record and returns it changed. Go's
  \<open>int\<close> is \<^typ>\<open>int\<close>, with \<^const>\<open>wrap64\<close> and \<^const>\<open>wrap32\<close> where the code can overflow; time is in nanoseconds since Go's zero
  time, and the clock is an argument. A Go map is an association list with distinct keys, and every \<open>range\<close> over one takes its
  order as an argument, so that what is proved holds for every order. A buffered channel is a record with its capacity. An
  error is a value of \<^typ>\<open>error\<close>, a panic is \<^const>\<open>None\<close> or \<^const>\<open>Panicked\<close>. A critical section under a mutex is one step;
  a method that releases its lock while it calls something else is split there. An endless loop is
  modelled by one iteration, and the interleaving of the loops by the step relation of \<open>Control_Plane\<close>. Third-party
  code is a parameter: the database (locales \<open>bolt_db\<close> and \<open>bolt_file\<close>), the consensus library (\<open>raft_log\<close>, and \<open>raft_setup\<close> for its creation),
  the RPC transport and HMAC (arguments). A \<open>float64\<close> is a rational, rounded to 53 bits after every operation.

  \<^bold>\<open>Theories.\<close>
  \<^item> \<open>Prelude\<close>, \<open>Go_Strings\<close>, \<open>Go_Time\<close>, \<open>Json\<close>: the parts of the language and its standard library that the sources use: integers,
    maps, channels, \<open>strconv\<close>, \<open>strings\<close>, \<open>time.Parse\<close>, \<open>encoding/json\<close>. The JSON reader carries a fuel argument of
    twice the length of the text plus one; \<open>parse_fuel\<close> shows that more fuel never changes its result. \<open>Go_Float\<close> has the rounding of
    \<open>float64\<close> with its error bound.
  \<^item> \<open>Job_Model\<close> (\<open>job/job.go\<close>, \<open>result.go\<close>), \<open>Lease_Manager\<close> (\<open>job/lease.go\<close>), \<open>Retry_Policy\<close> (\<open>retry/policy.go\<close>): the
    transition table, the lease table and its invariant, the backoff with its wrap-around.
  \<^item> \<open>Heap_Array\<close>, \<open>Job_Queue\<close> (\<open>queue/*.go\<close>): \<open>container/heap\<close> on an array with the heap invariant, its two comparators and the queues;
    the locales \<open>comparator\<close>, \<open>id_queue\<close> and \<open>ordered_id_queue\<close> give what their users rely on.
  \<^item> \<open>Cron_Model\<close> (\<open>cron/cron.go\<close>): schedules, the next run and one tick.
  \<^item> \<open>Store_Spec\<close> (\<open>store/store.go\<close>): the interface as a record of operations, the abstract store, and the locale \<open>job_store\<close> that says
    when operations implement it. \<open>Memory_Store\<close> (\<open>store/memory_store.go\<close>) and \<open>Bolt_Store\<close> (\<open>store/bolt_store.go\<close>) interpret it.
    \<open>Bolt_Open\<close> opens and closes a database file (locale \<open>bolt_file\<close>), and \<open>Store_Choice\<close> is the store behind Go's interface value: one of the two,
    which by the locale \<open>store_choice\<close> implements the interface again.
  \<^item> \<open>Broker\<close> (\<open>broker/broker.go\<close>), \<open>Worker_Manager\<close> (\<open>workermanager/manager.go\<close>): topics, the choice of a worker, heartbeats.
  \<^item> \<open>Scheduler\<close> (\<open>scheduler/scheduler.go\<close>, \<open>dlq/dlq.go\<close>): dispatching and one iteration of each loop, over any store.
  \<^item> \<open>Executor\<close> (\<open>executor/*.go\<close>), \<open>Worker_Node\<close> (\<open>runner\<close>, \<open>worker\<close>, \<open>rpc/server\<close>, \<open>rpc/client\<close>, \<open>cmd/worker/main.go\<close>): the
    execution side and the messages between the processes. \<open>Worker_Process\<close> (also \<open>rpc/proxy/worker_proxy.go\<close>) puts breaker, limiter and executor
    together as \<open>cmd/worker/main.go\<close> does, with the settings and the connection of the process.
  \<^item> \<open>Consensus\<close> (\<open>consensus/fsm.go\<close>, \<open>raft.go\<close>): the replicated state machine, its snapshots and proposals.
  \<^item> \<open>Wal_Log\<close> (\<open>storage/wal.go\<close>, \<open>snapshot.go\<close>): a log file with torn writes, and its replay.
  \<^item> \<open>Engine\<close> (\<open>engine/engine.go\<close>, \<open>config/config.go\<close>): every operation of the control node, restart and leadership. \<open>Startup\<close>
    (also \<open>consensus/raft.go\<close> and \<open>cmd/server/server.go\<close>) opens store and consensus node, starts the server on a file and stops the engine.
  \<^item> \<open>Control_Plane\<close>: the operations of a standalone engine, the scheduler's loops, the registry, reports and in-process workers as one
    inductive step relation.
  \<^item> \<open>Auth\<close> (\<open>auth/jwt.go\<close>), \<open>Events\<close> (\<open>events/broadcaster.go\<close>), \<open>Http\<close> (\<open>middleware/*.go\<close>, \<open>httpapi/response.go\<close>), \<open>Handlers\<close>
    (\<open>handlers/*.go\<close>), \<open>Server\<close> (\<open>cmd/server/server.go\<close>): tokens, events, and the HTTP side from the request to the engine.
  \<^item> \<open>Benchmark\<close> (\<open>benchmark/benchmark.go\<close>): the benchmark runs over these parts. The loop that polls the engine takes the clock and the
    listing of each round as an argument, and a list of rounds that ends too early gives \<^const>\<open>None\<close>.
  \<^item> This theory: the properties of the whole control plane.

  \<^bold>\<open>What is shown.\<close>
  \<^item> \<^emph>\<open>The system.\<close> In every reachable state each pending job is queued or leased and each scheduled job is in the delay
    queue; a stored job changes only along the transition table and keeps its identity; handling a
    result never panics; a lease goes to a job of the highest priority; every HTTP request is at most one step of that system.
  \<^item> \<^emph>\<open>The stores.\<close> Any sequence of calls on the in-memory store, on the database and on a replicated log gives the answers and contents
    of the abstract store; a failed transaction changes nothing; a listing by status equals the filtered store.
  \<^item> \<^emph>\<open>Scheduling.\<close> The queues drain in order for any insertions; a due job is promoted in one run of the delay loop; a job
    that keeps failing runs \<open>MaxRetries + 1\<close> times; every outcome of a dispatch; retries of submissions with a key create one job.
  \<^item> \<^emph>\<open>Recovery.\<close> A restart, from memory or on a database file of earlier runs, finds every pending and scheduled job again; the log replays to
    the unfinished jobs.
  \<^item> \<^emph>\<open>Workers and benchmarks.\<close> The executors of a process work at most as often as the rate limit allows; the recovery benchmark
    recovers every job, the pool benchmark ends and counts each job once, and its percentiles are exact in spite of the rounding.
  \<^item> \<^emph>\<open>Access.\<close> A verified token was signed with the secret, is not expired and names a known role, and a generated one
    verifies to its claims; no request changes or reads jobs without a role that the route asks for.
  \<^item> \<^emph>\<open>Defects.\<close> Some theorems describe what the code does where that is not what it means to do: head-of-line blocking, jobs
    submitted through Raft that are not queued, a failure on an in-process worker that is never retried, an event stream that panics,
    records lost after a torn write.

  \<^bold>\<open>Not modelled.\<close> Metrics, log lines and trace spans: nothing in the program reads them back. Generated RPC code and
  listening on sockets: pure I/O. The embedded web pages. The benchmark command, which only prints. The events that scheduler, leadership changes and
  the registration of a worker broadcast: a broadcast neither blocks nor fails (\<open>events_in_order_until_full\<close>), so that these parts run the
  same without; the events of HTTP requests are modelled. Real time: loops take the
  clock as an argument, and nothing is said about how long a step takes. Data races inside a critical section cannot be
  expressed; where the code shares data without a lock, the steps of the model are coarser than the program's.
\<close>

section \<open>Properties of the control plane\<close>







text \<open>
  C8. What one dispatch does: the first available worker that can handle the job's type is taken
  out of the channel, the others staying in cyclic order. If it accepts the job, it holds
  the lease, with the attempt counted up, and the queue is as before. If it refuses, the job is
  back in the queue without a lease, and the worker is not put back. If no worker is capable, the job is back in
  the queue and nothing else changes.
\<close>

theorem dispatch_outcomes:
  assumes "chan_ok (Available (Manager s))" "sHasBroker s" "Dispatch so False now submit_outcome j s = (ok, s')"
  shows "(\<exists>w us vs. buf (Available (Manager s)) = us @ w # vs \<and> CanHandle (mgrBroker (Manager s)) (cl_ID w) (Type j) \<and>
      (\<forall>u \<in> set us. \<not> CanHandle (mgrBroker (Manager s)) (cl_ID u) (Type j)) \<and> buf (Available (Manager s')) = vs @ us \<and>
      (if submit_outcome w j = None
       then ok \<and> queue_ids (PriorityQueue s') = queue_ids (PriorityQueue s) \<and>
         lease_Get (ID j) (Leases s') = Some \<lparr>lJobID = ID j, lWorkerID = cl_ID w, lTerm = 1,
           lAttempt = (case lease_Get (ID j) (Leases s) of None \<Rightarrow> 1 | Some l \<Rightarrow> wrap64 (lAttempt l + 1)), lStartedAt = now\<rparr>
       else \<not> ok \<and> queue_ids (PriorityQueue s') = add_mset (ID j) (queue_ids (PriorityQueue s)) \<and>
         lease_Get (ID j) (Leases s') = None)) \<or>
    (\<forall>w \<in> set (buf (Available (Manager s))). \<not> CanHandle (mgrBroker (Manager s)) (cl_ID w) (Type j)) \<and>
      \<not> ok \<and> s' = enqueueJob so (ID j) ThePriorityQueue s"
  using assms by (rule dispatch_effect)

text \<open>
  C33. A job that no available worker can handle blocks every job below it: as long as it is the
  job of strictly highest priority and the available workers stay the same, the dispatch loop
  takes it out and puts it back for ever. No iteration ends the loop, grants a lease or uses a worker, even if
  workers for the other queued jobs are waiting.
\<close>

theorem head_of_line_blocking:
  assumes "blocked so i j s"
  shows "fst (dispatch_iter so False now submit_outcome (dispatch_iters so clock submit_outcome n s)) = Continue \<and>
    Leases (dispatch_iters so clock submit_outcome n s) = Leases s \<and>
    Manager (dispatch_iters so clock submit_outcome n s) = Manager s \<and>
    queue_ids (PriorityQueue (dispatch_iters so clock submit_outcome n s)) = queue_ids (PriorityQueue s)"
proof -
  let ?s = "dispatch_iters so clock submit_outcome n s"
  have b: "blocked so i j ?s" using blocked_iters [OF assms] by blast
  then show ?thesis using blocked_iter [OF b, of now submit_outcome] blocked_iters [OF assms, of clock submit_outcome n]
    by (cases "dispatch_iter so False now submit_outcome ?s") simp
qed

definition video_and_email :: "memory_store scheduler" where
  "video_and_email =
     (let st = snd (mem_Add (NewJob 2 ''email'' 1) (snd (mem_Add (NewJob 1 ''video'' 9) NewMemoryStore)));
          s = (NewScheduler st 100 True)\<lparr>Manager := snd (rpc_RegisterWorker None 0 0
                \<lparr>rqWorkerId = 4, rqAddress = ''w:1'', rqTopics = [''email'']\<rparr> NewManager)\<rparr>
      in enqueueJob memory_ops 2 ThePriorityQueue (enqueueJob memory_ops 1 ThePriorityQueue s))"

lemma video_and_email_jobs:
  "sched_get memory_ops video_and_email = [1 \<mapsto> NewJob 1 ''video'' 9, 2 \<mapsto> NewJob 2 ''email'' 1]"
  by (rule ext) (simp add: video_and_email_def Let_def sched_get_def NewScheduler_def mem_Get_def mem_Add_def NewMemoryStore_def)

lemma video_and_email_workers:
  "buf (Available (Manager video_and_email)) = [Client 4 0]" "chan_ok (Available (Manager video_and_email))"
  "sHasBroker video_and_email" "\<not> CanHandle (mgrBroker (Manager video_and_email)) 4 ''video''"
  "CanHandle (mgrBroker (Manager video_and_email)) 4 ''email''" "Leases video_and_email = []"
proof -
  have m: "Manager video_and_email = snd (rpc_RegisterWorker None 0 0
      \<lparr>rqWorkerId = 4, rqAddress = ''w:1'', rqTopics = [''email'']\<rparr> NewManager)"
    by (simp add: video_and_email_def Let_def)
  show "buf (Available (Manager video_and_email)) = [Client 4 0]" "chan_ok (Available (Manager video_and_email))"
    unfolding m by (simp_all add: rpc_RegisterWorker_def MakeAvailable_def Register_def NewManager_def try_send_def make_chan_def chan_ok_def Let_def)
  have "TrimSpace ''email'' = ''email''" by code_simp
  then have "serves [''email''] t \<longleftrightarrow> t = ''email''" for t by (auto simp: serves_def wildcard_def)
  then have h: "CanHandle (mgrBroker (Manager video_and_email)) 4 t \<longleftrightarrow> t = ''email''" for t
    unfolding m by (simp add: rpc_RegisterWorker_def MakeAvailable_def Register_def CanHandle_Register_same Let_def)
  show "\<not> CanHandle (mgrBroker (Manager video_and_email)) 4 ''video''" "CanHandle (mgrBroker (Manager video_and_email)) 4 ''email''"
    unfolding h by simp_all
  show "sHasBroker video_and_email" "Leases video_and_email = []"
    by (simp_all add: video_and_email_def Let_def enqueueJob_def NewScheduler_def NewLeaseManager_def)
qed

lemma video_and_email_queue:
  "queue_ids (PriorityQueue video_and_email) = {#1, 2#}"
  "prio_inv (sched_get memory_ops video_and_email) (PriorityQueue video_and_email)"
proof -
  let ?g = "sched_get memory_ops video_and_email"
  have q: "PriorityQueue video_and_email = Enqueue (PriorityComparator ?g) 2 (Enqueue (PriorityComparator ?g) 1 (NewJobQueue (\<lambda>_ _. False)))"
    by (simp add: video_and_email_def Let_def enqueueJob_def NewScheduler_def sched_get_def)
  show "queue_ids (PriorityQueue video_and_email) = {#1, 2#}" unfolding q by (simp add: queue_ids_Enqueue)
  show "prio_inv ?g (PriorityQueue video_and_email)" unfolding q by (intro pq.invar_enq prio_inv_New)
qed

theorem dispatch_outcomes_witness:
  "lease_Get 2 (Leases (snd (Dispatch memory_ops False 7 (\<lambda>_ _. None) (NewJob 2 ''email'' 1) video_and_email))) =
     Some \<lparr>lJobID = 2, lWorkerID = 4, lTerm = 1, lAttempt = 1, lStartedAt = 7\<rparr>"
proof -
  obtain ok s' where d: "Dispatch memory_ops False 7 (\<lambda>_ _. None) (NewJob 2 ''email'' 1) video_and_email = (ok, s')" by fastforce
  show ?thesis using dispatch_outcomes [OF video_and_email_workers(2,3) d] d video_and_email_workers
    by (auto simp: lease_Get_def Cons_eq_append_conv)
qed

theorem head_of_line_blocking_witness:
  "lease_Get 2 (Leases (dispatch_iters memory_ops (\<lambda>_. 0) (\<lambda>_ _. None) 1000 video_and_email)) = None \<and>
   CanHandle (mgrBroker (Manager video_and_email)) 4 ''email''"
proof -
  have "blocked memory_ops 1 (NewJob 1 ''video'' 9) video_and_email"
    unfolding blocked_def using video_and_email_workers video_and_email_queue
    by (simp add: video_and_email_jobs job_or_zero_def)
  from head_of_line_blocking [OF this, of 0 "\<lambda>_ _. None" "\<lambda>_. 0" 1000]
  show ?thesis using video_and_email_workers by (simp add: lease_Get_def)
qed



text \<open>
  Evicting a worker widens what it is given: it stays in the channel of available workers, and
  since the broker takes an unknown worker for one that handles everything, the next job of any
  type goes to it if it is first in the channel.
\<close>

theorem evicted_worker_gets_any_job:
  assumes "chan_ok (Available m)" "buf (Available m) = Client i ref # ws"
  shows "fst (SelectWorker (mgrBroker (Remove i m)) jobType (Available (Remove i m))) = Some (Client i ref)"
proof -
  have "CanHandle (mgrBroker (Remove i m)) i jobType"
    by (simp add: Remove_def Let_def CanHandle_Unregister split: option.split)
  moreover have "Available (Remove i m) = Available m" by (simp add: Remove_def Let_def split: option.split)
  ultimately show ?thesis using assms by (simp add: SelectWorker_rotates)
qed

theorem evicted_worker_gets_any_job_witness:
  "\<not> CanHandle (mgrBroker (Manager video_and_email)) 4 ''video'' \<and>
   fst (SelectWorker (mgrBroker (Remove 4 (Manager video_and_email))) ''video'' (Available (Remove 4 (Manager video_and_email)))) = Some (Client 4 0)"
  using evicted_worker_gets_any_job [OF video_and_email_workers(2,1), of "''video''"] video_and_email_workers(4) by simp

text \<open>
  A failed attempt of a job that has meanwhile been cancelled or completed, with no retries left,
  leaves its status alone but still files it in both dead-letter queues as failed.
\<close>

theorem ended_job_becomes_dead_letter:
  assumes "mem_inv (sStore s)" "sched_get memory_ops s i = Some j" "Status j = Cancelled \<or> Status j = Completed"
    "MaxRetries j \<le> RetryCount j"
  shows "\<exists>s'. handle_result memory_ops now \<lparr>rJobID = i, rSuccess = False, rError = Some e, rAttempt = 0\<rparr> s = Some s' \<and>
    sched_get memory_ops s' i = Some j \<and> dlq_Get i (sDLQ s') = Some (failed_job e j) \<and>
    map_of (mDLQ (sStore s')) i = Some (failed_job e j)"
proof -
  let ?r = "\<lparr>rJobID = i, rSuccess = False, rError = Some e, rAttempt = 0\<rparr>"
  have g: "sched_get memory_ops s (rJobID ?r) = Some j" using assms(2) by simp
  have gs: "map_of (mJobs (sStore s)) i = Some j" using assms(2) by (simp add: sched_get_def mem_Get_def)
  have id: "ID j = i" using assms(1) gs by (simp add: mem_inv_def mem_wf_def)
  have "snd (mem_Update (failed_job e j) (sStore s)) = sStore s"
    using assms(3) gs id by (auto simp: mem_Update_def IsValidTransition_terminal)
  then have "handle_result memory_ops now ?r s = Some (s\<lparr>Leases := Release i (Leases s),
      sStore := (sStore s)\<lparr>mDLQ := mput i (failed_job e j) (mDLQ (sStore s))\<rparr>, sDLQ := dlq_Add (failed_job e j) (sDLQ s)\<rparr>)"
    using assms(4) id by (simp add: handle_result_unfold [OF g] ShouldRetry_def mem_AddDLQ_def Let_def)
  then show ?thesis using assms(2) id by (simp add: sched_get_def mem_Get_def dlq_Get_def dlq_Add_def)
qed

theorem ended_job_becomes_dead_letter_witness:
  "let j = (NewJob 1 ''email'' 5)\<lparr>Status := Cancelled, RetryCount := 3\<rparr>;
       s = NewScheduler (snd (mem_Add j NewMemoryStore)) 100 True
   in \<exists>s'. handle_result memory_ops 0 \<lparr>rJobID = 1, rSuccess = False, rError = Some ESimulatedFailure, rAttempt = 0\<rparr> s = Some s' \<and>
        map_option Status (sched_get memory_ops s' 1) = Some Cancelled \<and> map_option Status (dlq_Get 1 (sDLQ s')) = Some Failed"
proof -
  let ?j = "(NewJob 1 ''email'' 5)\<lparr>Status := Cancelled, RetryCount := 3\<rparr>"
  let ?s = "NewScheduler (snd (mem_Add ?j NewMemoryStore)) 100 True"
  have inv: "mem_inv (sStore ?s)" unfolding NewScheduler_def
    using mem_inv_fresh [OF mem_inv_New, of ?j] by (simp add: aFresh_def mem_abs_def NewMemoryStore_def in_int64_def)
  have g: "sched_get memory_ops ?s 1 = Some ?j"
    by (simp add: sched_get_def NewScheduler_def mem_Get_def mem_Add_def Let_def NewMemoryStore_def)
  show ?thesis using ended_job_becomes_dead_letter [OF inv g, of 0 ESimulatedFailure] by (auto simp: Let_def)
qed

section \<open>The server behind HTTP\<close>

text \<open>A handler that leaves the engine or changes it by one step of the control plane.\<close>

definition one_step_to :: "memory_store engine \<Rightarrow> memory_store engine \<Rightarrow> bool" where
  "one_step_to e e' \<longleftrightarrow> e' = e \<or> step memory_ops e e'"

definition one_step :: "memory_store world handler \<Rightarrow> bool" where
  "one_step h \<longleftrightarrow> (\<forall>r w s. id_left (theEngine s) \<longrightarrow> one_step_to (theEngine s) (theEngine (final (h r w s))))"

lemma one_step_to_same [simp]: "one_step_to e e"
  by (simp add: one_step_to_def)

lemma one_step_read_only: "read_only h \<Longrightarrow> one_step h"
  by (simp add: one_step_def read_only_def)

lemma announced_engine [simp]:
  "theEngine (final (case announce_submission v k j dup b of None \<Rightarrow> Panicked (set_engine e s)
     | Some b' \<Rightarrow> reply w (set_engine e (s\<lparr>theEvents := b'\<rparr>)))) = e"
  by (cases "announce_submission v k j dup b") simp_all

lemma one_step_writers:
  assumes "envStore v = memory_ops" "envRaft v = None"
  shows "one_step (SubmitJobHandler v)" "one_step (CancelJobHandler v)" "one_step (CreateCronJobHandler v)"
    "one_step (DeleteCronJobHandler v)" "one_step (NodeRoute v)"
proof -
  note defs = one_step_def assms Let_def
  have at: "SubmitJobAt memory_ops None t p runAt e = (x, e') \<Longrightarrow> id_left e \<Longrightarrow> one_step_to e e'" for t p runAt e x e'
    using step.submit_at [of e memory_ops t p runAt] by (simp add: one_step_to_def)
  have k: "SubmitJobIdempotent memory_ops None k t p e = (x, e') \<Longrightarrow> id_left e \<Longrightarrow> one_step_to e e'" for k t p e x e'
    using step.submit_key [of e memory_ops k t p] by (simp add: one_step_to_def)
  have c: "CancelJob memory_ops None i e = (x, e') \<Longrightarrow> one_step_to e e'" for i e x e'
    using step.cancel [of memory_ops e i] by (simp add: one_step_to_def)
  have ac: "AddCronJob memory_ops None off now i sch t p e = (x, e') \<Longrightarrow> one_step_to e e'" for off now i sch t p e x e'
    using step.add_cron [of memory_ops e off now i sch t p] by (simp add: one_step_to_def)
  show "one_step (SubmitJobHandler v)"
    using at k by (simp add: SubmitJobHandler_def defs split: option.split prod.split sum.split)
  show "one_step (CancelJobHandler v)"
    using c by (simp add: CancelJobHandler_def defs split: option.split prod.split sum.split)
  show "one_step (CreateCronJobHandler v)"
    using ac by (simp add: CreateCronJobHandler_def defs split: option.split prod.split sum.split)
  show "one_step (DeleteCronJobHandler v)"
    by (auto simp: DeleteCronJobHandler_def defs one_step_to_def intro: step.remove_cron)
  show "one_step (NodeRoute v)"
    by (auto simp: NodeRoute_def NodesHandler_def defs one_step_to_def intro: step.evict split: sum.split option.split)
qed

lemma one_step_require:
  "one_step h \<Longrightarrow> id_left (theEngine s) \<Longrightarrow> one_step_to (theEngine s) (theEngine (final (requireRoles v roles h r w s)))"
  by (cases rule: requireRoles_cases [of v roles h r w s]) (simp_all add: one_step_def)

lemma one_step_serve:
  assumes "envStore v = memory_ops" "envRaft v = None"
  shows "one_step (serve_mux v clean)"
  unfolding one_step_def
proof (intro allI impI)
  fix r w and s :: "memory_store world"
  assume i: "id_left (theEngine s)"
  note req = one_step_require [OF one_step_read_only [OF read_only_handlers(1)] i]
    one_step_require [OF one_step_read_only [OF read_only_handlers(2)] i] one_step_require [OF one_step_read_only [OF read_only_handlers(3)] i]
    one_step_require [OF one_step_read_only [OF read_only_handlers(4)] i] one_step_require [OF one_step_read_only [OF read_only_handlers(5)] i]
    one_step_require [OF one_step_read_only [OF read_only_handlers(6)] i] one_step_require [OF one_step_read_only [OF read_only_handlers(7)] i]
    one_step_require [OF one_step_read_only [OF read_only_handlers(8)] i]
    one_step_require [OF one_step_writers(1) [OF assms] i] one_step_require [OF one_step_writers(2) [OF assms] i]
    one_step_require [OF one_step_writers(3) [OF assms] i] one_step_require [OF one_step_writers(4) [OF assms] i]
    one_step_require [OF one_step_writers(5) [OF assms] i]
  show "one_step_to (theEngine s) (theEngine (final (serve_mux v clean r w s)))"
    by (cases "mux_match (Method r) (Path r)")
      (simp_all add: serve_mux_def requireViewer_def requireSubmitter_def requireAdmin_def req events_reads)
qed



end
